(* ===== verification/Prelude.thy ===== *)
theory Prelude
  imports Main "HOL-Library.Char_ord" "HOL-Library.Word"
begin

text \<open>
  The vocabulary every component of the development shares.

  \<^item> A Go \<open>string\<close> is a sequence of bytes; it is modelled as an Isabelle \<^typ>\<open>string\<close>, whose
    characters are exactly the 256 byte values. Byte comparisons (\<open>c >= 'a'\<close>) are written with the
    order of \<open>HOL-Library.Char_ord\<close>, byte arithmetic (\<open>c - 32\<close>, \<open>c << 2\<close>) with \<open>8 word\<close>.
  \<^item> A run-time panic is a value: an operation that can panic returns \<open>fault + result\<close>, and
    \<open>go_bind\<close> runs the next statement only if the previous one did not panic.
  \<^item> Lengths and positions are \<open>nat\<close> or \<open>int\<close>. A Go \<open>int\<close> has 64 bits here, and no string held in
    memory has \<open>2 ^ 62\<close> bytes, so positions do not wrap.
\<close>

named_theorems go_simps \<open>rewrite rules for Go-level reads, slices and sequencing\<close>
named_theorems char_class \<open>definitions of the character classes\<close>

section \<open>Panics and sequencing\<close>

text \<open>
  \<open>SliceOutOfRange\<close> is the panic of a slice expression and of \<open>make\<close> with a length out of range. \<open>OutOfFuel\<close> stands
  for a loop that does not end; the loops with fuel have a theorem that it suffices.
\<close>

datatype fault =
    IndexOutOfRange
  | SliceOutOfRange
  | NilDereference
  | FailedTypeAssertion
  | ExplicitPanic
  | OutOfFuel

type_synonym 'a go = "fault + 'a"

definition go_bind :: "'a go \<Rightarrow> ('a \<Rightarrow> 'b go) \<Rightarrow> 'b go" where
  "go_bind m f = (case m of Inl e \<Rightarrow> Inl e | Inr x \<Rightarrow> f x)"

lemma go_bind_simps [simp, go_simps]:
  "go_bind (Inl e) f = Inl e"
  "go_bind (Inr x) f = f x"
  by (simp_all add: go_bind_def)

lemma go_bind_Inr_right [simp]: "go_bind m Inr = m"
  by (cases m) simp_all

lemma go_bind_assoc: "go_bind (go_bind m f) g = go_bind m (\<lambda>x. go_bind (f x) g)"
  by (cases m) simp_all

lemma go_bind_eq_Inr: "go_bind m f = Inr y \<longleftrightarrow> (\<exists>x. m = Inr x \<and> f x = Inr y)"
  by (cases m) simp_all

lemma go_bind_eq_Inl: "go_bind m f = Inl e \<longleftrightarrow> m = Inl e \<or> (\<exists>x. m = Inr x \<and> f x = Inl e)"
  by (cases m) simp_all

lemma go_bind_cong [fundef_cong]:
  assumes "m = n" and "\<And>x. n = Inr x \<Longrightarrow> f x = g x"
  shows "go_bind m f = go_bind n g"
  using assms by (cases n) simp_all

definition returns :: "'a go \<Rightarrow> bool" where
  "returns m \<longleftrightarrow> (case m of Inl _ \<Rightarrow> False | Inr _ \<Rightarrow> True)"

lemma returns_simps [simp]: "\<not> returns (Inl e)" "returns (Inr x)"
  by (simp_all add: returns_def)

lemma returns_iff: "returns m \<longleftrightarrow> (\<exists>x. m = Inr x)"
  by (cases m) simp_all

text \<open>Loops over a slice whose body may panic: one that keeps a state, and one that collects results.\<close>

fun foldGo :: "('a \<Rightarrow> 's \<Rightarrow> 's go) \<Rightarrow> 'a list \<Rightarrow> 's \<Rightarrow> 's go" where
  "foldGo f [] s = Inr s"
| "foldGo f (x # xs) s = go_bind (f x s) (foldGo f xs)"

fun mapGo :: "('a \<Rightarrow> 'b go) \<Rightarrow> 'a list \<Rightarrow> 'b list go" where
  "mapGo f [] = Inr []"
| "mapGo f (x # xs) = go_bind (f x) (\<lambda>y. go_bind (mapGo f xs) (\<lambda>ys. Inr (y # ys)))"

lemma foldGo_inv:
  assumes "\<And>x s t. P s \<Longrightarrow> f x s = Inr t \<Longrightarrow> P t"
  shows "P s \<Longrightarrow> foldGo f xs s = Inr t \<Longrightarrow> P t"
  by (induction xs arbitrary: s) (auto simp: go_bind_eq_Inr intro: assms)

section \<open>Reads and slices\<close>

text \<open>\<open>s[i]\<close> and \<open>s[a:b]\<close> on strings and slices; both panic outside the bounds.\<close>

definition idx :: "'a list \<Rightarrow> nat \<Rightarrow> 'a go" where
  "idx s i = (if i < length s then Inr (s ! i) else Inl IndexOutOfRange)"

definition idxi :: "'a list \<Rightarrow> int \<Rightarrow> 'a go" where
  "idxi s i = (if 0 \<le> i \<and> i < int (length s) then Inr (s ! nat i) else Inl IndexOutOfRange)"

definition substr :: "'a list \<Rightarrow> nat \<Rightarrow> nat \<Rightarrow> 'a list go" where
  "substr s a b = (if a \<le> b \<and> b \<le> length s then Inr (take (b - a) (drop a s)) else Inl SliceOutOfRange)"

definition substri :: "'a list \<Rightarrow> int \<Rightarrow> int \<Rightarrow> 'a list go" where
  "substri s a b =
     (if 0 \<le> a \<and> a \<le> b \<and> b \<le> int (length s)
      then Inr (take (nat (b - a)) (drop (nat a) s)) else Inl SliceOutOfRange)"

lemma idx_in [simp, go_simps]: "i < length s \<Longrightarrow> idx s i = Inr (s ! i)"
  by (simp add: idx_def)

lemma idx_out [simp, go_simps]: "\<not> i < length s \<Longrightarrow> idx s i = Inl IndexOutOfRange"
  by (simp add: idx_def)

lemma idxi_in [simp, go_simps]: "0 \<le> i \<Longrightarrow> i < int (length s) \<Longrightarrow> idxi s i = Inr (s ! nat i)"
  by (simp add: idxi_def)

lemma substr_in [simp, go_simps]:
  "a \<le> b \<Longrightarrow> b \<le> length s \<Longrightarrow> substr s a b = Inr (take (b - a) (drop a s))"
  by (simp add: substr_def)

lemma substr_prefix: "n \<le> length s \<Longrightarrow> substr s 0 n = Inr (take n s)"
  by simp

lemma substr_suffix: "n \<le> length s \<Longrightarrow> substr s n (length s) = Inr (drop n s)"
  by simp

section \<open>Tame statements\<close>

text \<open>
  A statement is tame if it ends and its only panics are reads and slices out of range: it dereferences no nil
  pointer, fails no type assertion and does not reach the one explicit panic of the sources.
\<close>

definition rangeFault :: "fault \<Rightarrow> bool" where
  "rangeFault e \<longleftrightarrow> e = IndexOutOfRange \<or> e = SliceOutOfRange"

lemma rangeFault_simps [simp]:
  "rangeFault IndexOutOfRange" "rangeFault SliceOutOfRange" "\<not> rangeFault ExplicitPanic"
  "\<not> rangeFault OutOfFuel" "\<not> rangeFault NilDereference" "\<not> rangeFault FailedTypeAssertion"
  by (simp_all add: rangeFault_def)

definition tame :: "'a go \<Rightarrow> bool" where
  "tame m \<longleftrightarrow> (case m of Inl e \<Rightarrow> rangeFault e | Inr _ \<Rightarrow> True)"

lemma tame_Inr [simp]: "tame (Inr x)"
  by (simp add: tame_def)

lemma tame_Inl [simp]: "tame (Inl e) \<longleftrightarrow> rangeFault e"
  by (simp add: tame_def)

text \<open>
  A statement is tame if its parts are. Each rule keeps what the branch it goes into knows; \<open>intro\<close> with the
  collection goes through a whole method, and leaves the calls.
\<close>

named_theorems tame_rules \<open>introduction rules for the predicate tame, by the shape of a statement\<close>

lemma tame_bind [tame_rules]: "tame m \<Longrightarrow> (\<And>x. m = Inr x \<Longrightarrow> tame (f x)) \<Longrightarrow> tame (go_bind m f)"
  by (cases m) (auto simp: tame_def)

lemma tame_if [tame_rules]: "(b \<Longrightarrow> tame m) \<Longrightarrow> (\<not> b \<Longrightarrow> tame n) \<Longrightarrow> tame (if b then m else n)"
  by simp

lemma tame_case_prod [tame_rules]: "(\<And>a b. x = (a, b) \<Longrightarrow> tame (f a b)) \<Longrightarrow> tame (case x of (a, b) \<Rightarrow> f a b)"
  by (cases x) simp

lemma tame_case_bool [tame_rules]:
  "(b \<Longrightarrow> tame m) \<Longrightarrow> (\<not> b \<Longrightarrow> tame n) \<Longrightarrow> tame (case b of True \<Rightarrow> m | False \<Rightarrow> n)"
  by (cases b) simp_all

lemma tame_case_option [tame_rules]:
  "(x = None \<Longrightarrow> tame m) \<Longrightarrow> (\<And>y. x = Some y \<Longrightarrow> tame (f y)) \<Longrightarrow> tame (case x of None \<Rightarrow> m | Some y \<Rightarrow> f y)"
  by (cases x) simp_all

lemma tame_case_list [tame_rules]:
  "(xs = [] \<Longrightarrow> tame m) \<Longrightarrow> (\<And>y ys. xs = y # ys \<Longrightarrow> tame (f y ys)) \<Longrightarrow>
   tame (case xs of [] \<Rightarrow> m | y # ys \<Rightarrow> f y ys)"
  by (cases xs) simp_all

lemma tame_let [tame_rules]: "tame (f x) \<Longrightarrow> tame (let y = x in f y)"
  by simp

lemma tame_reads [simp]: "tame (substr s a b)" "tame (idx s i)" "tame (idxi s j)" "tame (substri s c d)"
  by (simp_all add: substr_def idx_def idxi_def substri_def)

section \<open>Bytes\<close>

abbreviation byte_of :: "char \<Rightarrow> 8 word" where
  "byte_of c \<equiv> of_char c"

definition of_byte :: "8 word \<Rightarrow> char" where
  "of_byte w = char_of (unat w)"

lemma unat_byte_of [simp]: "unat (byte_of c) = of_char c"
proof -
  have "byte_of c = word_of_nat (of_char c)"
    by (simp add: of_nat_of_char)
  then show ?thesis by (simp add: unat_of_nat)
qed

lemma of_byte_byte_of [simp]: "of_byte (byte_of c) = c"
  by (simp add: of_byte_def)

lemma byte_of_of_byte [simp]: "byte_of (of_byte w) = w"
proof -
  have "unat w < 256" using unsigned_less [of w, where ?'a = nat] by simp
  then have "unat (byte_of (of_byte w)) = unat w"
    by (simp add: of_byte_def)
  then show ?thesis by (simp add: word_unat_eq_iff)
qed

lemma char_eq_nat: "c = d \<longleftrightarrow> of_char c = (of_char d :: nat)"
  by simp

text \<open>Equations between bytes, bit by bit.\<close>

lemma bit8_eqI:
  assumes "\<And>n. n = 0 \<or> n = 1 \<or> n = 2 \<or> n = 3 \<or> n = 4 \<or> n = 5 \<or> n = 6 \<or> n = 7 \<Longrightarrow> bit a n = bit b n"
  shows "a = (b :: 8 word)"
proof (rule bit_word_eqI)
  fix n assume "n < LENGTH(8)"
  then have "n = 0 \<or> n = 1 \<or> n = 2 \<or> n = 3 \<or> n = 4 \<or> n = 5 \<or> n = 6 \<or> n = 7"
    by simp arith
  then show "bit a n = bit b n" by (rule assms)
qed

text \<open>For evaluating \<^const>\<open>char_of\<close> on numerals.\<close>

lemmas char_of_eval = char_of_def bit_0

section \<open>Character classes\<close>

definition isLower :: "char \<Rightarrow> bool" where [char_class]:
  "isLower c \<longleftrightarrow> CHR ''a'' \<le> c \<and> c \<le> CHR ''z''"

definition isUpper :: "char \<Rightarrow> bool" where [char_class]:
  "isUpper c \<longleftrightarrow> CHR ''A'' \<le> c \<and> c \<le> CHR ''Z''"

definition isDigit :: "char \<Rightarrow> bool" where [char_class]:
  "isDigit c \<longleftrightarrow> CHR ''0'' \<le> c \<and> c \<le> CHR ''9''"

definition isAlnum :: "char \<Rightarrow> bool" where [char_class]:
  "isAlnum c \<longleftrightarrow> isLower c \<or> isUpper c \<or> isDigit c"

text \<open>The white space the parsers skip: tab, line feed, carriage return and space.\<close>

definition isWsp :: "char \<Rightarrow> bool" where [char_class]:
  "isWsp c \<longleftrightarrow> c = CHR 0x09 \<or> c = CHR 0x0A \<or> c = CHR 0x0D \<or> c = CHR '' ''"

abbreviation CR :: char where "CR \<equiv> CHR 0x0D"
abbreviation LF :: char where "LF \<equiv> CHR 0x0A"
abbreviation crlf :: string where "crlf \<equiv> [CR, LF]"

section \<open>Lists\<close>

lemma takeWhile_all_drop: "dropWhile P s = [] \<longleftrightarrow> list_all P s"
  by (induction s) auto

lemma drop_eq_Cons_nth: "i < length s \<Longrightarrow> drop i s = s ! i # drop (Suc i) s"
  by (rule Cons_nth_drop_Suc [symmetric])

end
