(* ===== verification/GoTime.thy ===== *)
theory GoTime
  imports Prelude
begin

text \<open>
  What the sources use of Go's package \<open>time\<close>: \<open>Parse\<close> and \<open>Format\<close> with the layout elements of the layouts
  in \<^verbatim>\<open>fields.go\<close> and \<^verbatim>\<open>header.go\<close>, and the order of instants.

  A \<open>time.Time\<close> is its civil date and clock reading together with the offset of its zone in seconds east of
  UTC. The abbreviations of the machine's local time zone are a parameter of \<open>time_Parse\<close>.
\<close>

section \<open>Instants\<close>

record gotime =
  t_year :: int
  t_month :: nat
  t_day :: nat
  t_hour :: nat
  t_min :: nat
  t_sec :: nat
  t_nsec :: int
  t_offset :: int

definition leapYear :: "int \<Rightarrow> bool" where
  "leapYear y \<longleftrightarrow> y mod 4 = 0 \<and> (y mod 100 \<noteq> 0 \<or> y mod 400 = 0)"

definition daysIn :: "nat \<Rightarrow> int \<Rightarrow> nat" where
  "daysIn m y =
     (if m = 2 then if leapYear y then 29 else 28
      else if m \<in> {4, 6, 9, 11} then 30 else 31)"

text \<open>The days since the first of January of the year 1, which was a Monday.\<close>

definition dayNumber :: "int \<Rightarrow> nat \<Rightarrow> nat \<Rightarrow> int" where
  "dayNumber y m d =
     365 * (y - 1) + (y - 1) div 4 - (y - 1) div 100 + (y - 1) div 400 +
     int (sum_list (map (\<lambda>m. daysIn m y) [1..<m])) + int d - 1"

definition weekday :: "gotime \<Rightarrow> nat" where
  "weekday t = nat ((dayNumber (t_year t) (t_month t) (t_day t) + 1) mod 7)"

definition instant :: "gotime \<Rightarrow> int" where
  "instant t =
     (dayNumber (t_year t) (t_month t) (t_day t) * 86400 +
      int (t_hour t * 3600 + t_min t * 60 + t_sec t) - t_offset t) * 1000000000 + t_nsec t"

definition time_Before :: "gotime \<Rightarrow> gotime \<Rightarrow> bool" where
  "time_Before t u \<longleftrightarrow> instant t < instant u"

section \<open>Layouts\<close>

datatype stdChunk =
    StdLongYear | StdYear | StdMonth | StdWeekDay | StdDay | StdZeroDay
  | StdHour | StdZeroMinute | StdZeroSecond | StdNumTZ | StdTZ

definition startsWithLower :: "string \<Rightarrow> bool" where
  "startsWithLower s \<longleftrightarrow> s \<noteq> [] \<and> isLower (hd s)"

definition stdChunkAt :: "string \<Rightarrow> (stdChunk \<times> nat) option" where
  "stdChunkAt s =
     (if take 3 s = ''Jan'' \<and> \<not> startsWithLower (drop 3 s) then Some (StdMonth, 3)
      else if take 3 s = ''Mon'' \<and> \<not> startsWithLower (drop 3 s) then Some (StdWeekDay, 3)
      else if take 3 s = ''MST'' then Some (StdTZ, 3)
      else if take 2 s = ''02'' then Some (StdZeroDay, 2)
      else if take 2 s = ''04'' then Some (StdZeroMinute, 2)
      else if take 2 s = ''05'' then Some (StdZeroSecond, 2)
      else if take 2 s = ''06'' then Some (StdYear, 2)
      else if take 2 s = ''15'' then Some (StdHour, 2)
      else if take 4 s = ''2006'' then Some (StdLongYear, 4)
      else if take 1 s = ''2'' then Some (StdDay, 1)
      else if take 5 s = ''-0700'' then Some (StdNumTZ, 5)
      else None)"

fun nextStdChunk :: "string \<Rightarrow> string \<times> stdChunk option \<times> string" where
  "nextStdChunk [] = ([], None, [])"
| "nextStdChunk (c # cs) =
     (case stdChunkAt (c # cs) of
        Some (k, n) \<Rightarrow> ([], Some k, drop n (c # cs))
      | None \<Rightarrow> (let (pre, k, suf) = nextStdChunk cs in (c # pre, k, suf)))"

lemma stdChunkAt_pos: "stdChunkAt s = Some (k, n) \<Longrightarrow> 0 < n \<and> s \<noteq> []"
  by (auto simp: stdChunkAt_def split: if_splits)

lemma nextStdChunk_shorter: "(pre, Some k, suf) = nextStdChunk s \<Longrightarrow> length suf < length s"
proof (induction s arbitrary: pre)
  case (Cons c cs)
  then show ?case
    by (fastforce split: option.splits prod.splits dest: stdChunkAt_pos)
qed simp

definition shortMonthNames :: "string list" where
  "shortMonthNames =
     [''Jan'', ''Feb'', ''Mar'', ''Apr'', ''May'', ''Jun'', ''Jul'', ''Aug'', ''Sep'', ''Oct'', ''Nov'', ''Dec'']"

definition shortDayNames :: "string list" where
  "shortDayNames = [''Sun'', ''Mon'', ''Tue'', ''Wed'', ''Thu'', ''Fri'', ''Sat'']"

section \<open>Parsing\<close>

definition digitVal :: "char \<Rightarrow> nat" where
  "digitVal c = of_char c - 48"

definition leadDigit :: "string \<Rightarrow> bool" where
  "leadDigit s \<longleftrightarrow> s \<noteq> [] \<and> isDigit (hd s)"

text \<open>\<open>getnum\<close>: one or two digits; two when \<open>fixed\<close>.\<close>

definition getnum :: "string \<Rightarrow> bool \<Rightarrow> (nat \<times> string) option" where
  "getnum s fixed =
     (if \<not> leadDigit s then None
      else if \<not> leadDigit (tl s) then if fixed then None else Some (digitVal (hd s), tl s)
      else Some (digitVal (hd s) * 10 + digitVal (hd (tl s)), tl (tl s)))"

definition numVal :: "string \<Rightarrow> int" where
  "numVal s = foldl (\<lambda>n c. 10 * n + int (digitVal c)) 0 s"

text \<open>The package's own \<open>atoi\<close>, which takes a sign.\<close>

definition time_atoi :: "string \<Rightarrow> int option" where
  "time_atoi s =
     (let neg = (s \<noteq> [] \<and> hd s = CHR ''-'');
          d = (if s \<noteq> [] \<and> (hd s = CHR ''-'' \<or> hd s = CHR ''+'') then tl s else s)
      in if list_all isDigit d then Some (if neg then - numVal d else numVal d) else None)"

text \<open>\<open>lookup\<close>: the first name the value starts with, up to the case of letters.\<close>

definition foldBit :: "char \<Rightarrow> char" where
  "foldBit c = (if isUpper c then of_byte (byte_of c + 32) else c)"

fun time_lookup :: "nat \<Rightarrow> string list \<Rightarrow> string \<Rightarrow> (nat \<times> string) option" where
  "time_lookup i [] v = None"
| "time_lookup i (n # ns) v =
     (if length n \<le> length v \<and> map foldBit (take (length n) v) = map foldBit n
      then Some (i, drop (length n) v) else time_lookup (i + 1) ns v)"

text \<open>\<open>skip\<close>: the literal text of the layout; a space stands for any number of them.\<close>

function time_skip :: "string \<Rightarrow> string \<Rightarrow> string option" where
  "time_skip v [] = Some v"
| "time_skip v (c # cs) =
     (if c = CHR '' '' then
        if v \<noteq> [] \<and> hd v \<noteq> CHR '' '' then None
        else time_skip (dropWhile (\<lambda>c. c = CHR '' '') v) (dropWhile (\<lambda>c. c = CHR '' '') cs)
      else if v = [] \<or> hd v \<noteq> c then None
      else time_skip (tl v) cs)"
  by pat_completeness auto
termination
  by (relation "measure (\<lambda>(_, cs). length cs)") (auto simp: le_imp_less_Suc length_dropWhile_le)

text \<open>The length of a signed hour offset of at most 23, as in \<open>GMT+3\<close>; zero if there is none.\<close>

definition parseSignedOffset :: "string \<Rightarrow> nat" where
  "parseSignedOffset v =
     (let ds = takeWhile isDigit (tl v)
      in if (hd v = CHR ''-'' \<or> hd v = CHR ''+'') \<and> ds \<noteq> [] \<and> numVal ds \<le> 23
         then Suc (length ds) else 0)"

definition parseTimeZone :: "string \<Rightarrow> nat option" where
  "parseTimeZone v =
     (let n = length (takeWhile isUpper (take 6 v))
      in if length v < 3 then None
         else if take 4 v = ''ChST'' \<or> take 4 v = ''MeST'' then Some 4
         else if take 3 v = ''GMT'' then
           Some (if length v = 3 then 3 else 3 + parseSignedOffset (drop 3 v))
         else if hd v = CHR ''+'' \<or> hd v = CHR ''-'' then
           (let l = parseSignedOffset v in if 0 < l then Some l else None)
         else if n = 5 then if v ! 4 = CHR ''T'' then Some 5 else None
         else if n = 4 then if v ! 3 = CHR ''T'' \<or> take 4 v = ''WITA'' then Some 4 else None
         else if n = 3 then Some 3
         else None)"

text \<open>What has been read so far; \<open>pt_zone\<close> is the numeric offset, \<open>pt_utc\<close> records the abbreviation UTC.\<close>

record parsed =
  pt_time :: gotime
  pt_zone :: "int option"
  pt_utc :: bool
  pt_name :: string

definition onTime :: "(gotime \<Rightarrow> gotime) \<Rightarrow> parsed \<Rightarrow> parsed" where
  "onTime f p = p \<lparr> pt_time := f (pt_time p) \<rparr>"

text \<open>A fraction of a second after the seconds, which the layouts do not mention.\<close>

definition fraction :: "string \<Rightarrow> (int \<times> string) option" where
  "fraction v =
     (if v \<noteq> [] \<and> (hd v = CHR ''.'' \<or> hd v = CHR '','') \<and> leadDigit (tl v)
      then (let ds = takeWhile isDigit (tl v); ns = take 9 ds
            in Some (numVal ns * 10 ^ (9 - length ns), drop (length ds) (tl v)))
      else None)"

definition numericZone :: "string \<Rightarrow> int option" where
  "numericZone v =
     (case (getnum (take 2 (drop 1 v)) True, getnum (take 2 (drop 3 v)) True) of
        (Some (hr, _), Some (mm, _)) \<Rightarrow>
          if 24 < hr \<or> 60 < mm then None
          else if hd v = CHR ''+'' then Some (int ((hr * 60 + mm) * 60))
          else if hd v = CHR ''-'' then Some (- int ((hr * 60 + mm) * 60))
          else None
      | _ \<Rightarrow> None)"

definition twoDigits :: "bool \<Rightarrow> nat \<Rightarrow> string \<Rightarrow> (nat \<times> string) option" where
  "twoDigits fixed bound v =
     (case getnum v fixed of None \<Rightarrow> None | Some (n, v) \<Rightarrow> if n < bound then Some (n, v) else None)"

definition parseChunk :: "stdChunk \<Rightarrow> string \<Rightarrow> parsed \<Rightarrow> (string \<times> parsed) option" where
  "parseChunk k v p =
     (case k of
        StdYear \<Rightarrow>
          if length v < 2 then None
          else map_option (\<lambda>y. (drop 2 v, onTime (t_year_update (\<lambda>_. if 69 \<le> y then y + 1900 else y + 2000)) p))
                 (time_atoi (take 2 v))
      | StdLongYear \<Rightarrow>
          if length v < 4 \<or> \<not> leadDigit v then None
          else map_option (\<lambda>y. (drop 4 v, onTime (t_year_update (\<lambda>_. y)) p)) (time_atoi (take 4 v))
      | StdMonth \<Rightarrow>
          map_option (\<lambda>(m, v). (v, onTime (t_month_update (\<lambda>_. Suc m)) p)) (time_lookup 0 shortMonthNames v)
      | StdWeekDay \<Rightarrow> map_option (\<lambda>(_, v). (v, p)) (time_lookup 0 shortDayNames v)
      | StdDay \<Rightarrow> map_option (\<lambda>(d, v). (v, onTime (t_day_update (\<lambda>_. d)) p)) (getnum v False)
      | StdZeroDay \<Rightarrow> map_option (\<lambda>(d, v). (v, onTime (t_day_update (\<lambda>_. d)) p)) (getnum v True)
      | StdHour \<Rightarrow> map_option (\<lambda>(h, v). (v, onTime (t_hour_update (\<lambda>_. h)) p)) (twoDigits False 24 v)
      | StdZeroMinute \<Rightarrow> map_option (\<lambda>(m, v). (v, onTime (t_min_update (\<lambda>_. m)) p)) (twoDigits True 60 v)
      | StdZeroSecond \<Rightarrow>
          map_option (\<lambda>(s, v).
            let p = onTime (t_sec_update (\<lambda>_. s)) p
            in case fraction v of
                 None \<Rightarrow> (v, p)
               | Some (ns, v) \<Rightarrow> (v, onTime (t_nsec_update (\<lambda>_. ns)) p))
            (twoDigits True 60 v)
      | StdNumTZ \<Rightarrow>
          if length v < 5 then None
          else map_option (\<lambda>z. (drop 5 v, p \<lparr> pt_zone := Some z \<rparr>)) (numericZone v)
      | StdTZ \<Rightarrow>
          if take 3 v = ''UTC'' then Some (drop 3 v, p \<lparr> pt_utc := True \<rparr>)
          else map_option (\<lambda>n. (drop n v, p \<lparr> pt_name := take n v \<rparr>)) (parseTimeZone v))"

function parseLayout :: "string \<Rightarrow> string \<Rightarrow> parsed \<Rightarrow> parsed option" where
  "parseLayout layout v p =
     (case nextStdChunk layout of (pre, k, suf) \<Rightarrow>
        (case time_skip v pre of
           None \<Rightarrow> None
         | Some v \<Rightarrow>
             (case k of
                None \<Rightarrow> if v = [] then Some p else None
              | Some k \<Rightarrow>
                  (case parseChunk k v p of None \<Rightarrow> None | Some (v, p) \<Rightarrow> parseLayout suf v p))))"
  by pat_completeness auto
termination
  by (relation "measure (\<lambda>(layout, _, _). length layout)") (auto dest: nextStdChunk_shorter)

declare parseLayout.simps [simp del]

definition epoch :: parsed where
  "epoch = \<lparr> pt_time = \<lparr> t_year = 0, t_month = 1, t_day = 1, t_hour = 0, t_min = 0, t_sec = 0, t_nsec = 0, t_offset = 0 \<rparr>,
     pt_zone = None, pt_utc = False, pt_name = [] \<rparr>"

text \<open>
  The zone of the result. \<open>loc n t\<close> is the time that reads \<open>t\<close> in the zone the machine's local time zone
  calls \<open>n\<close>, if it knows that abbreviation.
\<close>

definition zoned :: "(string \<Rightarrow> gotime \<Rightarrow> gotime option) \<Rightarrow> parsed \<Rightarrow> gotime" where
  "zoned loc p =
     (let t = pt_time p; n = pt_name p
      in if pt_utc p then t
         else case pt_zone p of
           Some z \<Rightarrow> t \<lparr> t_offset := z \<rparr>
         | None \<Rightarrow>
             if n = [] then t
             else (case loc n t of
                     Some u \<Rightarrow> u
                   | None \<Rightarrow>
                       if 3 < length n \<and> take 3 n = ''GMT''
                       then t \<lparr> t_offset := (case time_atoi (drop 3 n) of None \<Rightarrow> 0 | Some h \<Rightarrow> h) * 3600 \<rparr>
                       else t))"

definition time_Parse :: "(string \<Rightarrow> gotime \<Rightarrow> gotime option) \<Rightarrow> string \<Rightarrow> string \<Rightarrow> gotime option" where
  "time_Parse loc layout v =
     (case parseLayout layout v epoch of
        None \<Rightarrow> None
      | Some p \<Rightarrow>
          (let t = pt_time p
           in if t_day t < 1 \<or> daysIn (t_month t) (t_year t) < t_day t then None else Some (zoned loc p)))"

section \<open>Formatting\<close>

definition pad2 :: "nat \<Rightarrow> string" where
  "pad2 n = [char_of (48 + n div 10 mod 10), char_of (48 + n mod 10)]"

definition pad4 :: "nat \<Rightarrow> string" where
  "pad4 n = pad2 (n div 100) @ pad2 n"

text \<open>
  \<open>Format\<close> on years from 0 to 9999 and offsets of less than a hundred hours, as the parser gives them. The
  layouts that are formatted have no unpadded day and no zone abbreviation.
\<close>

definition formatZone :: "int \<Rightarrow> string" where
  "formatZone off =
     (let z = nat (if off < 0 then (- off) div 60 else off div 60)
      in (if off < 0 \<and> z \<noteq> 0 then CHR ''-'' else CHR ''+'') # pad2 (z div 60) @ pad2 (z mod 60))"

definition formatChunk :: "stdChunk \<Rightarrow> gotime \<Rightarrow> string" where
  "formatChunk k t =
     (case k of
        StdYear \<Rightarrow> pad2 (nat (t_year t) mod 100)
      | StdLongYear \<Rightarrow> pad4 (nat (t_year t))
      | StdMonth \<Rightarrow> shortMonthNames ! (t_month t - 1)
      | StdWeekDay \<Rightarrow> shortDayNames ! weekday t
      | StdDay \<Rightarrow> (if t_day t < 10 then [char_of (48 + t_day t)] else pad2 (t_day t))
      | StdZeroDay \<Rightarrow> pad2 (t_day t)
      | StdHour \<Rightarrow> pad2 (t_hour t)
      | StdZeroMinute \<Rightarrow> pad2 (t_min t)
      | StdZeroSecond \<Rightarrow> pad2 (t_sec t)
      | StdNumTZ \<Rightarrow> formatZone (t_offset t)
      | StdTZ \<Rightarrow> [])"

function time_Format :: "string \<Rightarrow> gotime \<Rightarrow> string" where
  "time_Format layout t =
     (case nextStdChunk layout of
        (pre, None, suf) \<Rightarrow> pre
      | (pre, Some k, suf) \<Rightarrow> pre @ formatChunk k t @ time_Format suf t)"
  by pat_completeness auto
termination
  by (relation "measure (\<lambda>(layout, _). length layout)") (auto dest: nextStdChunk_shorter)

declare time_Format.simps [simp del]

end
