(* ===== verification/GoLib.thy ===== *)
theory GoLib
  imports GoTime
begin

unbundle bit_operations_syntax

text \<open>
  What the sources use of Go's standard library (packages \<open>strings\<close>, \<open>unicode/utf8\<close> and
  \<open>strconv\<close>), and the record of everything outside the repository.

  The record \<open>go_env\<close> collects the parameters of the model: the case tables of package \<open>unicode\<close>
  for the code points above 127, and the character set library \<open>go-charset\<close>, which is a separate
  package, and the machine's clock and local time zone. Definitions that reach one of them take the record as
  their first argument.
\<close>

section \<open>Searching and cutting strings\<close>

definition hasPrefix :: "'a list \<Rightarrow> 'a list \<Rightarrow> bool" where
  "hasPrefix s t \<longleftrightarrow> take (length t) s = t"

definition hasSuffix :: "'a list \<Rightarrow> 'a list \<Rightarrow> bool" where
  "hasSuffix s t \<longleftrightarrow> length t \<le> length s \<and> drop (length s - length t) s = t"

lemma hasPrefix_iff: "hasPrefix s t \<longleftrightarrow> (\<exists>u. s = t @ u)"
  unfolding hasPrefix_def by (metis append_eq_conv_conj append_take_drop_id)

lemma hasPrefix_Nil [simp]: "hasPrefix s []"
  by (simp add: hasPrefix_def)

lemma hasPrefix_length: "hasPrefix s t \<Longrightarrow> length t \<le> length s"
  by (auto simp: hasPrefix_iff)

lemma hasSuffix_iff: "hasSuffix s t \<longleftrightarrow> (\<exists>u. s = u @ t)"
proof
  assume "hasSuffix s t"
  then have "s = take (length s - length t) s @ t"
    unfolding hasSuffix_def by (metis append_take_drop_id)
  then show "\<exists>u. s = u @ t" ..
next
  assume "\<exists>u. s = u @ t"
  then show "hasSuffix s t" by (auto simp: hasSuffix_def)
qed

text \<open>\<open>strings.Index\<close> and \<open>strings.IndexByte\<close>; a negative result is \<open>None\<close>.\<close>

fun indexOf :: "'a list \<Rightarrow> 'a list \<Rightarrow> nat option" where
  "indexOf [] t = (if t = [] then Some 0 else None)"
| "indexOf (x # xs) t = (if hasPrefix (x # xs) t then Some 0 else map_option Suc (indexOf xs t))"

fun indexByte :: "'a list \<Rightarrow> 'a \<Rightarrow> nat option" where
  "indexByte [] c = None"
| "indexByte (x # xs) c = (if x = c then Some 0 else map_option Suc (indexByte xs c))"

definition contains :: "'a list \<Rightarrow> 'a list \<Rightarrow> bool" where
  "contains s t \<longleftrightarrow> indexOf s t \<noteq> None"

definition containsAny :: "string \<Rightarrow> string \<Rightarrow> bool" where
  "containsAny s chars \<longleftrightarrow> list_ex (\<lambda>c. c \<in> set chars) s"

lemma indexOf_Some: "indexOf s t = Some i \<Longrightarrow> i + length t \<le> length s \<and> hasPrefix (drop i s) t"
proof (induction s t arbitrary: i rule: indexOf.induct)
  case (2 x xs t)
  show ?case
  proof (cases "hasPrefix (x # xs) t")
    case True
    with 2(2) show ?thesis by (auto dest: hasPrefix_length)
  next
    case False
    with 2(2) obtain j where "indexOf xs t = Some j" and "i = Suc j" by auto
    with 2(1) [OF False] show ?thesis by auto
  qed
qed (auto split: if_splits)

lemma indexOf_Some_first: "indexOf s t = Some i \<Longrightarrow> j < i \<Longrightarrow> \<not> hasPrefix (drop j s) t"
proof (induction s t arbitrary: i j rule: indexOf.induct)
  case (2 x xs t)
  show ?case
  proof (cases "hasPrefix (x # xs) t")
    case False
    with 2(2) obtain k where "indexOf xs t = Some k" and "i = Suc k" by auto
    with 2 False show ?thesis by (cases j) auto
  qed (use 2 in simp)
qed (auto split: if_splits)

lemma indexOf_None: "indexOf s t = None \<Longrightarrow> \<not> hasPrefix (drop j s) t"
proof (induction s t arbitrary: j rule: indexOf.induct)
  case (2 x xs t)
  then show ?case by (cases j) (auto split: if_splits)
qed (auto simp: hasPrefix_def split: if_splits)

lemma indexByte_Some:
  "indexByte s c = Some i \<longleftrightarrow> i < length s \<and> s ! i = c \<and> (\<forall>j < i. s ! j \<noteq> c)"
proof (induction s arbitrary: i)
  case (Cons x xs)
  show ?case
    by (cases i) (auto simp: Cons.IH less_Suc_eq_0_disj)
qed simp

lemma indexByte_None: "indexByte s c = None \<longleftrightarrow> c \<notin> set s"
  by (induction s) auto

text \<open>\<open>strings.Split\<close> with a nonempty separator (the only kind the sources use).\<close>

function splitOn :: "'a list \<Rightarrow> 'a list \<Rightarrow> 'a list list" where
  "splitOn sep s =
     (case indexOf s sep of
        None \<Rightarrow> [s]
      | Some i \<Rightarrow> if sep = [] then [s] else take i s # splitOn sep (drop (i + length sep) s))"
  by pat_completeness auto
termination
proof (relation "measure (\<lambda>(sep, s). length s)")
  fix sep s :: "'a list" and i
  assume "indexOf s sep = Some i" and "sep \<noteq> []"
  then have "i + length sep \<le> length s" and "0 < length sep"
    by (auto dest: indexOf_Some)
  then show "((sep, drop (i + length sep) s), (sep, s)) \<in> measure (\<lambda>(sep, s). length s)"
    by (simp del: length_greater_0_conv)
qed simp

declare splitOn.simps [simp del]

fun joinWith :: "'a list \<Rightarrow> 'a list list \<Rightarrow> 'a list" where
  "joinWith sep [] = []"
| "joinWith sep [s] = s"
| "joinWith sep (s # t # ts) = s @ sep @ joinWith sep (t # ts)"

lemma splitOn_nonempty: "splitOn sep s \<noteq> []"
  by (subst splitOn.simps) (auto split: option.splits)

lemma joinWith_Cons: "ts \<noteq> [] \<Longrightarrow> joinWith sep (s # ts) = s @ sep @ joinWith sep ts"
  by (cases ts) simp_all

text \<open>Splitting and joining with the same separator gives the string back.\<close>

lemma joinWith_splitOn: "joinWith sep (splitOn sep s) = s"
proof (induction sep s rule: splitOn.induct)
  case (1 sep s)
  show ?case
  proof (cases "indexOf s sep")
    case None
    then show ?thesis by (simp add: splitOn.simps [of sep s])
  next
    case (Some i)
    show ?thesis
    proof (cases "sep = []")
      case True
      with Some show ?thesis by (simp add: splitOn.simps [of "[]" s])
    next
      case False
      from indexOf_Some [OF Some]
      have "take i s @ sep @ drop (i + length sep) s = s"
        by (metis add.commute append_take_drop_id drop_drop hasPrefix_def)
      with Some False 1 [OF Some False] show ?thesis
        by (simp add: splitOn.simps [of sep s] joinWith_Cons splitOn_nonempty)
    qed
  qed
qed

text \<open>The scanning loop \<open>for i < len(s) && p(s[i]) { i++ }\<close>: where it stops.\<close>

definition scanWhile :: "('a \<Rightarrow> bool) \<Rightarrow> 'a list \<Rightarrow> nat \<Rightarrow> nat" where
  "scanWhile p s i = i + length (takeWhile p (drop i s))"

lemma scanWhile_step:
  "scanWhile p s i = (if i < length s \<and> p (s ! i) then scanWhile p s (i + 1) else i)"
  by (cases "i < length s") (simp_all add: scanWhile_def drop_eq_Cons_nth)

lemma scanWhile_ge: "i \<le> scanWhile p s i"
  by (simp add: scanWhile_def)

lemma scanWhile_le: "i \<le> length s \<Longrightarrow> scanWhile p s i \<le> length s"
  using length_takeWhile_le [of p "drop i s"] by (simp add: scanWhile_def)

lemma scanWhile_stop: "scanWhile p s i < length s \<Longrightarrow> \<not> p (s ! scanWhile p s i)"
  using nth_length_takeWhile [of p "drop i s"] by (simp add: scanWhile_def less_diff_conv add.commute)

lemma drop_scanWhile: "drop (scanWhile p s i) s = dropWhile p (drop i s)"
  by (simp add: scanWhile_def dropWhile_eq_drop add.commute)

definition trimCutset :: "string \<Rightarrow> string \<Rightarrow> string" where
  "trimCutset s chars =
     (let p = (\<lambda>c. c \<in> set chars) in rev (dropWhile p (rev (dropWhile p s))))"

section \<open>UTF-8\<close>

text \<open>
  \<open>utf8.EncodeRune\<close> (what \<open>WriteRune\<close> and \<open>string([]rune)\<close> append) and the decoding a
  \<open>range\<close> loop over a string performs: one code point per well-formed sequence, and U+FFFD with
  width one for every byte that does not start one.
\<close>

definition runeError :: nat where
  "runeError = 0xFFFD"

definition encodeRune :: "nat \<Rightarrow> string" where
  "encodeRune r =
     (if r < 0x80 then [char_of r]
      else if r < 0x800 then [char_of (0xC0 + r div 64), char_of (0x80 + r mod 64)]
      else if 0x10FFFF < r \<or> 0xD800 \<le> r \<and> r \<le> 0xDFFF then
        [CHR 0xEF, CHR 0xBF, CHR 0xBD]
      else if r < 0x10000 then
        [char_of (0xE0 + r div 4096), char_of (0x80 + r div 64 mod 64), char_of (0x80 + r mod 64)]
      else
        [char_of (0xF0 + r div 262144), char_of (0x80 + r div 4096 mod 64),
         char_of (0x80 + r div 64 mod 64), char_of (0x80 + r mod 64)])"

definition cont :: "nat \<Rightarrow> bool" where
  "cont b \<longleftrightarrow> 0x80 \<le> b \<and> b \<le> 0xBF"

fun decodeRune :: "nat list \<Rightarrow> nat \<times> nat" where
  "decodeRune [] = (runeError, 0)"
| "decodeRune (b0 # bs) =
     (if b0 < 0x80 then (b0, 1)
      else if 0xC2 \<le> b0 \<and> b0 \<le> 0xDF then
        (case bs of
           b1 # _ \<Rightarrow> if cont b1 then ((b0 - 0xC0) * 64 + (b1 - 0x80), 2) else (runeError, 1)
         | _ \<Rightarrow> (runeError, 1))
      else if 0xE0 \<le> b0 \<and> b0 \<le> 0xEF then
        (case bs of
           b1 # b2 # _ \<Rightarrow>
             if cont b1 \<and> cont b2 \<and> (b0 = 0xE0 \<longrightarrow> 0xA0 \<le> b1) \<and> (b0 = 0xED \<longrightarrow> b1 \<le> 0x9F)
             then ((b0 - 0xE0) * 4096 + (b1 - 0x80) * 64 + (b2 - 0x80), 3)
             else (runeError, 1)
         | _ \<Rightarrow> (runeError, 1))
      else if 0xF0 \<le> b0 \<and> b0 \<le> 0xF4 then
        (case bs of
           b1 # b2 # b3 # _ \<Rightarrow>
             if cont b1 \<and> cont b2 \<and> cont b3 \<and> (b0 = 0xF0 \<longrightarrow> 0x90 \<le> b1) \<and> (b0 = 0xF4 \<longrightarrow> b1 \<le> 0x8F)
             then ((b0 - 0xF0) * 262144 + (b1 - 0x80) * 4096 + (b2 - 0x80) * 64 + (b3 - 0x80), 4)
             else (runeError, 1)
         | _ \<Rightarrow> (runeError, 1))
      else (runeError, 1))"

lemma decodeRune_width: "bs \<noteq> [] \<Longrightarrow> 0 < snd (decodeRune bs) \<and> snd (decodeRune bs) \<le> length bs"
  by (cases bs) (auto split: list.splits)

function runesOf :: "nat list \<Rightarrow> nat list" where
  "runesOf bs =
     (if bs = [] then [] else (let (r, w) = decodeRune bs in r # runesOf (drop w bs)))"
  by pat_completeness auto
termination
proof (relation "measure length")
  fix bs :: "nat list" and p r w
  assume "bs \<noteq> []" and "p = decodeRune bs" and "(r, w) = p"
  with decodeRune_width [of bs] show "(drop w bs, bs) \<in> measure length"
    by (metis in_measure diff_less length_drop length_greater_0_conv snd_conv)
qed simp

declare runesOf.simps [simp del]

definition runes :: "string \<Rightarrow> nat list" where
  "runes s = runesOf (map of_char s)"

definition isAsciiByte :: "char \<Rightarrow> bool" where
  "isAsciiByte c \<longleftrightarrow> c < CHR 0x80"

lemma isAsciiByte_nat: "isAsciiByte c \<longleftrightarrow> of_char c < (128::nat)"
  by (simp add: isAsciiByte_def less_char_def)

lemma runesOf_ascii: "list_all (\<lambda>b. b < 128) bs \<Longrightarrow> runesOf bs = bs"
proof (induction bs)
  case (Cons b bs)
  then show ?case by (simp add: runesOf.simps [of "b # bs"])
qed (simp add: runesOf.simps)

lemma runes_ascii: "list_all isAsciiByte s \<Longrightarrow> runes s = map of_char s"
  unfolding runes_def by (rule runesOf_ascii) (simp add: list_all_iff isAsciiByte_nat)

lemma encodeRune_ascii: "isAsciiByte c \<Longrightarrow> encodeRune (of_char c) = [c]"
  by (simp add: isAsciiByte_nat encodeRune_def)

section \<open>The environment: code outside the repository\<close>

record go_env =
  uni_lower :: "nat \<Rightarrow> nat"
    \<comment> \<open>\<open>unicode.ToLower\<close> on code points above 127\<close>
  uni_title :: "nat \<Rightarrow> nat"
    \<comment> \<open>\<open>unicode.ToTitle\<close> on code points above 127\<close>
  cs_reader :: "string \<Rightarrow> (string \<Rightarrow> string option) option"
    \<comment> \<open>\<open>charset.NewReader(cs, r)\<close> and reading it to the end: \<open>None\<close> for an unknown character
        set; otherwise the decoder, which may fail\<close>
  cs_writer :: "string \<Rightarrow> (string \<Rightarrow> string \<times> bool) option"
    \<comment> \<open>\<open>charset.NewWriter(cs, buf)\<close> and one \<open>Write\<close>: what reached \<open>buf\<close> and whether the write
        reported an error\<close>
  cs_info :: "string \<Rightarrow> string option"
    \<comment> \<open>\<open>charset.Info(cs)\<close>: the canonical name of a known character set\<close>
  local_time :: "string \<Rightarrow> gotime \<Rightarrow> gotime option"
    \<comment> \<open>the abbreviations of \<open>time.Local\<close>: the time that reads like the given one in the zone of that name\<close>
  time_Now :: gotime
    \<comment> \<open>\<open>time.Now()\<close>\<close>
  max_strings :: nat
    \<comment> \<open>the length up to which the run-time system makes a slice of strings; \<open>make\<close> panics beyond it\<close>

text \<open>
  A concrete environment, for evaluating the model on examples: no case mapping above 127, and two character
  sets whose conversion to UTF-8 is the identity.
\<close>

definition plainEnv :: go_env where
  "plainEnv = \<lparr> uni_lower = (\<lambda>r. r), uni_title = (\<lambda>r. r),
     cs_reader = (\<lambda>cs. if cs \<in> {''us-ascii'', ''utf-8''} then Some Some else None),
     cs_writer = (\<lambda>cs. if cs \<in> {''us-ascii'', ''utf-8''} then Some (\<lambda>s. (s, False)) else None),
     cs_info = (\<lambda>cs. if cs \<in> {''us-ascii'', ''utf-8''} then Some cs else None),
     local_time = (\<lambda>_ _. None),
     time_Now = \<lparr> t_year = 2024, t_month = 2, t_day = 29, t_hour = 12, t_min = 30, t_sec = 0, t_nsec = 0, t_offset = 3600 \<rparr>,
     max_strings = 100 \<rparr>"

section \<open>Case mapping\<close>

definition lowerByte :: "char \<Rightarrow> char" where
  "lowerByte c = (if isUpper c then of_byte (byte_of c + 32) else c)"

definition upperByte :: "char \<Rightarrow> char" where
  "upperByte c = (if isLower c then of_byte (byte_of c - 32) else c)"

text \<open>
  \<open>strings.ToLower\<close> and \<open>strings.ToTitle\<close>: byte-wise on ASCII strings, otherwise rune by rune, where
  an ill-formed byte becomes U+FFFD.
\<close>

definition lowerRune :: "go_env \<Rightarrow> nat \<Rightarrow> nat" where
  "lowerRune E r = (if r < 128 then of_char (lowerByte (char_of r)) else uni_lower E r)"

definition titleRune :: "go_env \<Rightarrow> nat \<Rightarrow> nat" where
  "titleRune E r = (if r < 128 then of_char (upperByte (char_of r)) else uni_title E r)"

definition toLower :: "go_env \<Rightarrow> string \<Rightarrow> string" where
  "toLower E s =
     (if list_all isAsciiByte s then map lowerByte s
      else concat (map (\<lambda>r. encodeRune (lowerRune E r)) (runes s)))"

definition toTitle :: "go_env \<Rightarrow> string \<Rightarrow> string" where
  "toTitle E s = concat (map (\<lambda>r. encodeRune (titleRune E r)) (runes s))"

lemma toLower_ascii: "list_all isAsciiByte s \<Longrightarrow> toLower E s = map lowerByte s"
  by (simp add: toLower_def)

section \<open>Numbers\<close>

text \<open>\<open>strconv.ParseUint(s, 16, 8)\<close> on two characters: both have to be hexadecimal digits.\<close>

definition hexVal :: "char \<Rightarrow> nat option" where
  "hexVal c =
     (if isDigit c then Some (of_char c - 48)
      else if CHR ''a'' \<le> c \<and> c \<le> CHR ''f'' then Some (of_char c - 87)
      else if CHR ''A'' \<le> c \<and> c \<le> CHR ''F'' then Some (of_char c - 55)
      else None)"

definition parseHex2 :: "char \<Rightarrow> char \<Rightarrow> char option" where
  "parseHex2 a b =
     (case (hexVal a, hexVal b) of
        (Some x, Some y) \<Rightarrow> Some (char_of (16 * x + y))
      | _ \<Rightarrow> None)"

text \<open>\<open>strconv.Itoa\<close> on numbers that are not negative.\<close>

function itoa :: "nat \<Rightarrow> string" where
  "itoa n = (if n < 10 then [char_of (48 + n)] else itoa (n div 10) @ [char_of (48 + n mod 10)])"
  by pat_completeness auto
termination by (relation "measure id") auto

declare itoa.simps [simp del]

definition digitsVal :: "string \<Rightarrow> nat" where
  "digitsVal s = foldl (\<lambda>n c. 10 * n + (of_char c - 48)) 0 s"

text \<open>\<open>strconv.Atoi\<close>: an optional sign and digits, in the range of a 64-bit integer.\<close>

definition atoi :: "string \<Rightarrow> int option" where
  "atoi s =
     (let neg = (s \<noteq> [] \<and> hd s = CHR ''-'');
          d = (if s \<noteq> [] \<and> (hd s = CHR ''-'' \<or> hd s = CHR ''+'') then tl s else s);
          n = (if neg then - numVal d else numVal d)
      in if d \<noteq> [] \<and> list_all isDigit d \<and> - (2 ^ 63) \<le> n \<and> n < 2 ^ 63 then Some n else None)"

text \<open>The result of an operation on Go's \<open>int\<close>, which has 64 bits and wraps around.\<close>

definition int64 :: "int \<Rightarrow> int" where
  "int64 x = (x + 2 ^ 63) mod 2 ^ 64 - 2 ^ 63"

lemma int64_range: "- (2 ^ 63) \<le> int64 x \<and> int64 x < 2 ^ 63"
  by (simp add: int64_def)

lemma int64_id: "- (2 ^ 63) \<le> x \<Longrightarrow> x < 2 ^ 63 \<Longrightarrow> int64 x = x"
  by (simp add: int64_def)

text \<open>\<open>strconv.FormatInt(c, 16)\<close> on a byte that needs two digits.\<close>

definition hexDigit :: "nat \<Rightarrow> char" where
  "hexDigit n = ''0123456789abcdef'' ! (n mod 16)"

definition formatHex2 :: "char \<Rightarrow> string" where
  "formatHex2 c = [hexDigit (of_char c div 16), hexDigit (of_char c)]"

text \<open>
  \<open>net.ParseIP\<close> on a string of digits and dots: four decimal numbers up to 255, without leading zeros. The
  result prints as the same numbers.
\<close>

definition ipField :: "string \<Rightarrow> bool" where
  "ipField f \<longleftrightarrow> f \<noteq> [] \<and> length f \<le> 3 \<and> list_all isDigit f \<and>
     (length f > 1 \<longrightarrow> hd f \<noteq> CHR ''0'') \<and> digitsVal f \<le> 255"

definition parseIPv4 :: "string \<Rightarrow> nat list option" where
  "parseIPv4 s =
     (let fs = splitOn ''.'' s
      in if length fs = 4 \<and> list_all ipField fs then Some (map digitsVal fs) else None)"

definition ipv4String :: "nat list \<Rightarrow> string" where
  "ipv4String ns = joinWith ''.'' (map itoa ns)"

section \<open>Scanning loops that read through an index\<close>

text \<open>
  The loops \<open>for i >= lo && p(s[i]) { i-- }\<close> and \<open>for i < hi && p(s[i]) { i++ }\<close>; with \<open>lo = -1\<close> the
  first is the loop without a bound, which panics at the start of the string.
\<close>

function scanBack :: "int \<Rightarrow> ('a \<Rightarrow> bool) \<Rightarrow> 'a list \<Rightarrow> int \<Rightarrow> int go" where
  "scanBack lo p s i =
     (if lo \<le> i then go_bind (idxi s i) (\<lambda>c. if p c then scanBack lo p s (i - 1) else Inr i)
      else Inr i)"
  by pat_completeness auto
termination by (relation "measure (\<lambda>(lo, p, s, i). nat (i + 1 - lo))") auto

function scanFwd :: "int \<Rightarrow> ('a \<Rightarrow> bool) \<Rightarrow> 'a list \<Rightarrow> int \<Rightarrow> int go" where
  "scanFwd hi p s i =
     (if i < hi then go_bind (idxi s i) (\<lambda>c. if p c then scanFwd hi p s (i + 1) else Inr i)
      else Inr i)"
  by pat_completeness auto
termination by (relation "measure (\<lambda>(hi, p, s, i). nat (hi - i))") auto

declare scanBack.simps [simp del] scanFwd.simps [simp del]

lemma idxi_eq_Inr: "idxi s i = Inr c \<longleftrightarrow> 0 \<le> i \<and> i < int (length s) \<and> c = s ! nat i"
  by (auto simp: idxi_def)

lemma scanBack_le: "scanBack lo p s i = Inr k \<Longrightarrow> k \<le> i"
proof (induction lo p s i rule: scanBack.induct)
  case (1 lo p s i)
  show ?case
    using 1(2) by (subst (asm) scanBack.simps) (fastforce simp: go_bind_eq_Inr dest: 1(1) split: if_splits)
qed

lemma scanFwd_ge: "scanFwd hi p s i = Inr k \<Longrightarrow> i \<le> k"
proof (induction hi p s i rule: scanFwd.induct)
  case (1 hi p s i)
  show ?case
    using 1(2) by (subst (asm) scanFwd.simps) (fastforce simp: go_bind_eq_Inr dest: 1(1) split: if_splits)
qed

end
