(* ===== verification/Whitespace.thy ===== *)
theory Whitespace
  imports GoLib
begin

text \<open>
  White space and line ends (\<open>strings.go\<close>: \<open>simplify\<close>, \<open>trim\<close>, \<open>stripCRLF\<close>, \<open>toCRLF\<close>).
\<close>

section \<open>simplify\<close>

text \<open>The loop that looks for the first non-blank byte; its state is \<open>(i, first)\<close>.\<close>

function simplify_lead :: "string \<Rightarrow> nat \<Rightarrow> nat \<Rightarrow> nat \<times> nat" where
  "simplify_lead str i first =
     (if i < length str \<and> first = i
      then simplify_lead str (i + 1) (if isWsp (str ! i) then first + 1 else first)
      else (i, first))"
  by pat_completeness auto
termination
  by (relation "measure (\<lambda>(str, i, first). length str - i)") auto

text \<open>
  The loop that looks for the last non-blank byte, and stops as soon as two blanks stand between two
  other bytes; it returns \<open>identity\<close> and \<open>last\<close>.
\<close>

function simplify_scan :: "string \<Rightarrow> nat \<Rightarrow> nat \<Rightarrow> nat \<Rightarrow> bool \<times> nat" where
  "simplify_scan str i lastp spaces =
     (if i < length str
      then if isWsp (str ! i) then simplify_scan str (i + 1) lastp (spaces + 1)
           else if 1 < spaces then (False, i)
           else simplify_scan str (i + 1) i 0
      else (True, lastp))"
  by pat_completeness auto
termination
  by (relation "measure (\<lambda>(str, i, lastp, spaces). length str - i)") auto

declare simplify_lead.simps [simp del] simplify_scan.simps [simp del]

text \<open>The rewriting loop; \<open>result\<close> is a slice of code points, one per byte that is kept.\<close>

fun simplify_squeeze :: "string \<Rightarrow> nat \<Rightarrow> nat list \<Rightarrow> nat list" where
  "simplify_squeeze [] spaces result = result"
| "simplify_squeeze (c # cs) spaces result =
     (if isWsp c then simplify_squeeze cs (spaces + 1) result
      else simplify_squeeze cs 0
             ((if 0 < spaces \<and> 0 < length result then result @ [32] else result) @ [of_char c]))"

definition simplify :: "string \<Rightarrow> string go" where
  "simplify str =
     (if str = [] then Inr []
      else
        (let (i, first) = simplify_lead str 0 0;
             (identity, lastp) = simplify_scan str i first 0
         in if identity then substr str first (lastp + 1)
            else Inr (concat (map encodeRune (simplify_squeeze str 0 [])))))"

section \<open>trim and stripCRLF\<close>

definition trim :: "string \<Rightarrow> string" where
  "trim str = trimCutset str [CHR 0x09, CR, LF, CHR '' '']"

definition stripCRLF :: "string \<Rightarrow> string" where
  "stripCRLF s =
     (let n = (if hasSuffix s crlf then 2 else if hasSuffix s [LF] then 1 else 0)
      in take (length s - n) s)"

section \<open>toCRLF\<close>

text \<open>
  The check that a copy will do, which runs when the string ends in CR LF: the position of the first
  line end that is not CR LF, if there is one. The string ends in LF, so a CR always has a successor.
\<close>

function toCRLF_check :: "string \<Rightarrow> nat \<Rightarrow> bool \<times> nat" where
  "toCRLF_check s i =
     (if i < length s
      then if s ! i = CR \<and> s ! (i + 1) = LF then toCRLF_check s (i + 2)
           else if s ! i = CR \<or> s ! i = LF then (False, i)
           else toCRLF_check s (i + 1)
      else (True, i))"
  by pat_completeness auto
termination
  by (relation "measure (\<lambda>(s, i). length s - i)") auto

declare toCRLF_check.simps [simp del]

text \<open>The rewriting loop over the bytes from \<open>i\<close> on; the flag is \<open>lf\<close> of the last round.\<close>

fun toCRLF_loop :: "string \<Rightarrow> bool \<Rightarrow> string" where
  "toCRLF_loop [] lf = (if lf then [] else crlf)"
| "toCRLF_loop (c # cs) lf =
     (if c = LF then crlf @ toCRLF_loop cs True
      else if c = CR then
        crlf @ toCRLF_loop
          (if hasPrefix cs [LF] then drop 1 cs
           else if hasPrefix cs [CR, LF] then drop 2 cs
           else cs) True
      else c # toCRLF_loop cs False)"

definition toCRLF :: "string \<Rightarrow> string" where
  "toCRLF s =
     (let useCopy = \<not> (length s < 2 \<or> s ! (length s - 1) \<noteq> LF \<or> s ! (length s - 2) \<noteq> CR);
          (useCopy, i) = (if useCopy then toCRLF_check s 0 else (False, 0))
      in if useCopy then s else take i s @ toCRLF_loop (drop i s) False)"

section \<open>Reference functions\<close>

abbreviation isText :: "char \<Rightarrow> bool" where "isText c \<equiv> \<not> isWsp c"

definition rtrim :: "string \<Rightarrow> string" where
  "rtrim s = rev (dropWhile isWsp (rev s))"

text \<open>The maximal runs of non-blank bytes, in order.\<close>

function wordsOf :: "string \<Rightarrow> string list" where
  "wordsOf s =
     (case dropWhile isWsp s of
        [] \<Rightarrow> []
      | c # cs \<Rightarrow> takeWhile isText (c # cs) # wordsOf (dropWhile isText (c # cs)))"
  by pat_completeness auto
termination
proof (relation "measure length")
  fix s c cs
  assume s: "dropWhile isWsp s = c # cs"
  then have "\<not> isWsp c" by (metis hd_dropWhile list.distinct(1) list.sel(1))
  then have "length (dropWhile isText (c # cs)) \<le> length cs"
    by (simp add: length_dropWhile_le)
  also have "\<dots> < length s"
    using length_dropWhile_le [of isWsp s] s by simp
  finally show "(dropWhile isText (c # cs), s) \<in> measure length" by simp
qed simp

declare wordsOf.simps [simp del]

fun doubleBlank :: "string \<Rightarrow> bool" where
  "doubleBlank (x # y # zs) = (isWsp x \<and> isWsp y \<or> doubleBlank (y # zs))"
| "doubleBlank _ = False"

lemma wordsOf_Cons_blank [simp]: "isWsp c \<Longrightarrow> wordsOf (c # cs) = wordsOf cs"
  by (subst (1 2) wordsOf.simps) simp

lemma wordsOf_Cons_text:
  "isText c \<Longrightarrow> wordsOf (c # cs) = (c # takeWhile isText cs) # wordsOf (dropWhile isText cs)"
  by (subst wordsOf.simps) simp

lemma wordsOf_Nil [simp]: "wordsOf [] = []"
  by (subst wordsOf.simps) simp

lemma rtrim_Nil [simp]: "rtrim [] = []"
  by (simp add: rtrim_def)

lemma rtrim_eq_Nil: "rtrim s = [] \<longleftrightarrow> list_all isWsp s"
  by (simp add: rtrim_def takeWhile_all_drop list_all_iff)

lemma rtrim_Cons: "rtrim (c # s) = (if isWsp c \<and> rtrim s = [] then [] else c # rtrim s)"
proof (cases "list_all isWsp s")
  case True
  then have "rtrim s = []"
    by (simp add: rtrim_eq_Nil)
  moreover have "rtrim (c # s) = rev (dropWhile isWsp [c])"
    using True dropWhile_append2 [of "rev s" isWsp "[c]"] by (simp add: rtrim_def list_all_iff)
  ultimately show ?thesis by simp
next
  case False
  then have "\<exists>x \<in> set (rev s). \<not> isWsp x"
    by (auto simp: list_all_iff)
  then have "dropWhile isWsp (rev s @ [c]) = dropWhile isWsp (rev s) @ [c]"
    by (metis dropWhile_append1)
  with False show ?thesis
    by (simp add: rtrim_def takeWhile_all_drop list_all_iff)
qed

lemma rtrim_split: "\<exists>w. s = rtrim s @ w \<and> list_all isWsp w"
proof
  have "rtrim s @ rev (takeWhile isWsp (rev s)) = rev (takeWhile isWsp (rev s) @ dropWhile isWsp (rev s))"
    by (simp only: rtrim_def rev_append)
  also have "\<dots> = s" by simp
  finally show "s = rtrim s @ rev (takeWhile isWsp (rev s)) \<and> list_all isWsp (rev (takeWhile isWsp (rev s)))"
    by (auto simp: list_all_iff dest: set_takeWhileD)
qed

lemma length_rtrim: "length (rtrim s) \<le> length s"
  using length_dropWhile_le [of isWsp "rev s"] by (simp add: rtrim_def)

lemma take_rtrim: "take (length (rtrim s)) s = rtrim s"
proof -
  obtain w where w: "rtrim s @ w = s" using rtrim_split [of s] by metis
  have "take (length (rtrim s)) (rtrim s @ w) = rtrim s" by simp
  then show ?thesis by (simp only: w)
qed

lemma trim_eq: "trim s = rtrim (dropWhile isWsp s)"
proof -
  have "(\<lambda>c. c \<in> set [CHR 0x09, CR, LF, CHR '' '']) = isWsp"
    by (auto simp: fun_eq_iff isWsp_def)
  then show ?thesis by (simp only: trim_def trimCutset_def rtrim_def Let_def)
qed

section \<open>What simplify computes\<close>

lemma simplify_lead_from:
  "i \<le> length str \<Longrightarrow>
   simplify_lead str i i =
     (let k = i + length (takeWhile isWsp (drop i str)) in if k < length str then (k + 1, k) else (k, k))"
proof (induction "length str - i" arbitrary: i)
  case 0
  then show ?case by (simp add: simplify_lead.simps)
next
  case (Suc n)
  then have i: "i < length str" by simp
  have d: "drop i str = str ! i # drop (Suc i) str" by (rule drop_eq_Cons_nth [OF i])
  show ?case
  proof (cases "isWsp (str ! i)")
    case True
    with Suc.hyps(1) [of "Suc i"] Suc.hyps(2) i show ?thesis
      by (subst simplify_lead.simps) (simp add: d)
  next
    case False
    with i show ?thesis
      by (subst simplify_lead.simps) (simp add: d, simp add: simplify_lead.simps)
  qed
qed

lemma simplify_lead_0:
  "simplify_lead str 0 0 =
     (let k = length (takeWhile isWsp str) in if k < length str then (k + 1, k) else (k, k))"
  using simplify_lead_from [of 0 str] by simp

text \<open>The scan over the rest, with \<open>k\<close> blanks pending before it.\<close>

lemma doubleBlank_Cons: "doubleBlank (x # xs) \<longleftrightarrow> (isWsp x \<and> xs \<noteq> [] \<and> isWsp (hd xs)) \<or> doubleBlank xs"
  by (cases xs) auto

definition pending :: "nat \<Rightarrow> string \<Rightarrow> bool" where
  "pending k v \<longleftrightarrow> (k > 0 \<and> v \<noteq> [] \<and> isWsp (hd v)) \<or> 1 < k \<or> doubleBlank v"

lemma simplify_scan_from:
  assumes "i \<le> length str"
  shows "(let v = rtrim (drop i str) in
           if v = [] then simplify_scan str i l k = (True, l)
           else if pending k v then fst (simplify_scan str i l k) = False
           else simplify_scan str i l k = (True, i + length v - 1))"
  using assms
proof (induction "length str - i" arbitrary: i l k)
  case 0
  then show ?case by (simp add: simplify_scan.simps)
next
  case (Suc n)
  then have i: "i < length str" by simp
  let ?c = "str ! i" and ?v = "rtrim (drop (Suc i) str)"
  have d: "drop i str = ?c # drop (Suc i) str" by (rule drop_eq_Cons_nth [OF i])
  have n: "n = length str - Suc i" using Suc.hyps(2) by simp
  note IH = Suc.hyps(1) [OF n, of _ _, simplified Let_def]
  show ?case
  proof (cases "isWsp ?c")
    case True
    have "simplify_scan str i l k = simplify_scan str (Suc i) l (Suc k)"
      using True i by (subst simplify_scan.simps) simp
    moreover have "rtrim (drop i str) = (if ?v = [] then [] else ?c # ?v)"
      using True by (simp add: d rtrim_Cons)
    ultimately show ?thesis
      using IH [of l "Suc k"] i True
      by (auto simp: Let_def pending_def doubleBlank_Cons split: if_splits)
  next
    case False
    have v: "rtrim (drop i str) = ?c # ?v"
      using False by (simp add: d rtrim_Cons)
    show ?thesis
    proof (cases "1 < k")
      case True
      with False i have "simplify_scan str i l k = (False, i)"
        by (subst simplify_scan.simps) simp
      with True v show ?thesis by (simp add: pending_def)
    next
      case k: False
      with False i have "simplify_scan str i l k = simplify_scan str (Suc i) i 0"
        by (subst simplify_scan.simps) simp
      with IH [of i 0] i False k v show ?thesis
        by (auto simp: Let_def pending_def doubleBlank_Cons split: if_splits)
    qed
  qed
qed

lemma simplify_squeeze_words:
  "simplify_squeeze cs 0 (r @ [x]) =
     r @ [x] @ map of_char (takeWhile isText cs) @
       concat (map (\<lambda>w. 32 # map of_char w) (wordsOf (dropWhile isText cs)))"
  "0 < k \<Longrightarrow> simplify_squeeze cs k (r @ [x]) =
     r @ [x] @ concat (map (\<lambda>w. 32 # map of_char w) (wordsOf cs))"
proof (induction cs arbitrary: r x k)
  case (Cons c cs)
  {
    case 1
    show ?case
      using Cons.IH(2) [of 1 r x] Cons.IH(1) [of "r @ [x]" "of_char c"] by auto
  next
    case 2
    then show ?case
      using Cons.IH(2) [of "Suc k" r x] Cons.IH(1) [of "r @ [x, 32]" "of_char c"]
      by (auto simp: wordsOf_Cons_text)
  }
qed simp_all

lemma joinWith_map: "joinWith (map f sep) (map (map f) ws) = map f (joinWith sep ws)"
  by (induction sep ws rule: joinWith.induct) simp_all

lemma joinWith_concat: "joinWith sep (w # ws) = w @ concat (map (\<lambda>v. sep @ v) ws)"
  by (induction ws arbitrary: w) simp_all

lemma simplify_squeeze_eq:
  "simplify_squeeze cs k [] = map of_char (joinWith '' '' (wordsOf cs))"
proof (induction cs arbitrary: k)
  case (Cons c cs)
  show ?case
  proof (cases "isWsp c")
    case True
    with Cons show ?thesis by simp
  next
    case False
    with simplify_squeeze_words(1) [of cs "[]" "of_char c"] show ?thesis
      by (simp add: wordsOf_Cons_text joinWith_concat map_concat comp_def)
  qed
qed simp

text \<open>
  The text that replaces the original when it is not kept: the words separated by single spaces,
  where every byte is written as the UTF-8 form of the code point of the same number.
\<close>

definition squeezed :: "string \<Rightarrow> string" where
  "squeezed s = concat (map (\<lambda>c. encodeRune (of_char c)) (joinWith '' '' (wordsOf s)))"

lemma simplify_all_blank:
  assumes "s \<noteq> []" and "list_all isWsp s"
  shows "simplify s = Inl SliceOutOfRange"
proof -
  have t: "length (takeWhile isWsp s) = length s"
    using assms(2) by (metis takeWhile_eq_all_conv list_all_iff)
  have "simplify_scan s (length s) (length s) 0 = (True, length s)"
    by (simp add: simplify_scan.simps)
  with t assms show ?thesis
    by (simp add: simplify_def simplify_lead_0 Let_def substr_def)
qed

lemma simplify_not_blank:
  assumes "\<not> list_all isWsp s"
  shows "simplify s = Inr (if doubleBlank (trim s) then squeezed s else trim s)"
proof -
  define b where "b = takeWhile isWsp s"
  obtain c cs where dw: "dropWhile isWsp s = c # cs" and c: "isText c"
    using assms by (metis hd_dropWhile list.exhaust list.sel(1) takeWhile_all_drop)
  have s_eq: "s = b @ c # cs"
    unfolding b_def using dw by (metis takeWhile_dropWhile_id)
  define k where "k = length b"
  have k: "k < length s" and dk: "drop k s = c # cs" and dk': "drop (Suc k) s = cs"
    by (simp_all add: s_eq k_def)
  have tr: "trim s = c # rtrim cs"
    using c by (simp add: trim_eq dw rtrim_Cons)
  have lead: "simplify_lead s 0 0 = (Suc k, k)"
    using k by (simp add: simplify_lead_0 k_def b_def Let_def)
  have s: "s \<noteq> []" using assms by auto
  note scan = simplify_scan_from [of "Suc k" s k 0, unfolded dk']
  show ?thesis
  proof (cases "doubleBlank (trim s)")
    case True
    then have "rtrim cs \<noteq> []" and "pending 0 (rtrim cs)"
      using c by (auto simp: tr pending_def doubleBlank_Cons)
    with scan k have "fst (simplify_scan s (Suc k) k 0) = False"
      by (simp add: Let_def)
    with True s lead show ?thesis
      by (auto simp: simplify_def simplify_squeeze_eq squeezed_def comp_def split: prod.split)
  next
    case False
    then have "\<not> pending 0 (rtrim cs)"
      using c by (auto simp: tr pending_def doubleBlank_Cons)
    with scan k have r: "simplify_scan s (Suc k) k 0 = (True, k + length (rtrim cs))"
      by (auto simp: Let_def split: if_splits)
    have len: "length (rtrim cs) \<le> length cs"
      by (rule length_rtrim)
    have "take (length (rtrim cs)) cs = rtrim cs"
      by (rule take_rtrim)
    moreover have "k + length (rtrim cs) + 1 \<le> length s"
      using len by (simp add: s_eq k_def)
    ultimately show ?thesis
      using False s lead r by (simp add: simplify_def tr dk)
  qed
qed

text \<open>
  C31. \<open>simplify\<close> panics (a slice out of range) exactly on the nonempty strings that hold nothing but
  white space.
\<close>

theorem simplify_panics_iff:
  "simplify s = Inl e \<longleftrightarrow> e = SliceOutOfRange \<and> s \<noteq> [] \<and> list_all isWsp s"
proof (cases "s \<noteq> [] \<and> list_all isWsp s")
  case True
  then show ?thesis by (auto simp: simplify_all_blank)
next
  case False
  then show ?thesis
    by (cases "s = []") (auto simp: simplify_not_blank, simp add: simplify_def)
qed

text \<open>
  C29. On every other nonempty string \<open>simplify\<close> returns the string without its surrounding blanks,
  unless two blanks stand next to each other inside; then it returns the words with one space between
  them, each byte re-encoded as UTF-8.
\<close>

theorem simplify_spec:
  "\<not> list_all isWsp s \<Longrightarrow>
   simplify s = Inr (if doubleBlank (trim s) then squeezed s else trim s)"
  by (rule simplify_not_blank)

theorem simplify_spec_witness:
  "\<not> list_all isWsp '' a  b '' \<and>
   simplify '' a  b '' = Inr (if doubleBlank (trim '' a  b '') then squeezed '' a  b '' else trim '' a  b '')"
proof -
  have h: "\<not> list_all isWsp '' a  b ''" by code_simp
  show ?thesis using h simplify_spec [OF h] by blast
qed

section \<open>Simplified strings stay as they are\<close>

definition tidy :: "string \<Rightarrow> bool" where
  "tidy t \<longleftrightarrow> t = [] \<or> isText (hd t) \<and> isText (last t) \<and> \<not> doubleBlank t"

lemma rtrim_last: "s \<noteq> [] \<Longrightarrow> isText (last s) \<Longrightarrow> rtrim s = s"
proof -
  assume "s \<noteq> []" and "isText (last s)"
  then have "dropWhile isWsp (rev s) = rev s" by (simp add: dropWhile_eq_self_iff hd_rev)
  then show ?thesis by (simp add: rtrim_def)
qed

lemma last_rtrim: "rtrim s \<noteq> [] \<Longrightarrow> isText (last (rtrim s))"
proof -
  assume "rtrim s \<noteq> []"
  then have "dropWhile isWsp (rev s) \<noteq> []" by (simp add: rtrim_def)
  then have "isText (hd (dropWhile isWsp (rev s)))" by (rule hd_dropWhile)
  then show ?thesis by (simp add: rtrim_def last_rev)
qed

lemma simplify_tidy: "tidy t \<Longrightarrow> simplify t = Inr t"
proof (cases t)
  case (Cons c cs)
  assume "tidy t"
  with Cons have c: "isText c" and l: "isText (last t)" and d: "\<not> doubleBlank t"
    by (simp_all add: tidy_def)
  with Cons have "trim t = t" by (simp add: trim_eq rtrim_last)
  with c d Cons show ?thesis by (simp add: simplify_not_blank)
qed (simp add: simplify_def)

lemma tidy_trim:
  assumes "\<not> doubleBlank (trim s)"
  shows "tidy (trim s)"
proof (cases "dropWhile isWsp s")
  case (Cons c cs)
  then have "isText c" by (metis hd_dropWhile list.distinct(1) list.sel(1))
  with Cons have "trim s = c # rtrim cs" by (simp add: trim_eq rtrim_Cons)
  with \<open>isText c\<close> assms show ?thesis
    using last_rtrim [of "dropWhile isWsp s"] by (simp add: tidy_def trim_eq)
next
  case Nil
  then show ?thesis by (simp only: trim_eq tidy_def rtrim_Nil) simp
qed

lemma doubleBlank_text_append: "list_all isText w \<Longrightarrow> doubleBlank (w @ t) = doubleBlank t"
  by (induction w) (auto simp: doubleBlank_Cons)

lemma tidy_joinWith:
  "list_all (\<lambda>w. w \<noteq> [] \<and> list_all isText w) ws \<Longrightarrow> tidy (joinWith '' '' ws)"
proof (induction ws)
  case step: (Cons s ws)
  then have s: "s \<noteq> []" "list_all isText s" by simp_all
  have hs: "isText (hd s)" and ls: "isText (last s)"
    using s by (auto simp: list_all_iff)
  show ?case
  proof (cases ws)
    case Nil
    with s hs ls show ?thesis
      using doubleBlank_text_append [OF s(2), of "[]"] by (simp add: tidy_def)
  next
    case (Cons t ts)
    let ?r = "joinWith '' '' ws"
    have "tidy ?r" using step by simp
    moreover have r: "?r \<noteq> []"
      using step.prems Cons by (cases ts) auto
    ultimately have "isText (hd ?r)" and "isText (last ?r)" and "\<not> doubleBlank ?r"
      by (simp_all add: tidy_def)
    moreover have "joinWith '' '' (s # ws) = s @ CHR '' '' # ?r"
      using Cons by simp
    ultimately show ?thesis
      using s hs r by (simp add: tidy_def doubleBlank_text_append doubleBlank_Cons)
  qed
qed (simp add: tidy_def)

lemma wordsOf_text: "list_all (\<lambda>w. w \<noteq> [] \<and> list_all isText w) (wordsOf s)"
proof (induction s rule: wordsOf.induct)
  case (1 s)
  show ?case
  proof (cases "dropWhile isWsp s")
    case (Cons c cs)
    then have "isText c" by (metis hd_dropWhile list.distinct(1) list.sel(1))
    moreover have "list_all isText (takeWhile isText (c # cs))"
      by (auto simp: list_all_iff dest: set_takeWhileD)
    ultimately show ?thesis
      using 1 [OF Cons] Cons by (simp add: wordsOf.simps [of s])
  qed (simp only: wordsOf.simps [of s], simp)
qed

lemma isWsp_ascii: "isWsp c \<Longrightarrow> of_char c < (128::nat)"
  by (auto simp: isWsp_def)

lemma encodeByte_text:
  assumes "isText c"
  shows "encodeRune (of_char c) \<noteq> [] \<and> list_all isText (encodeRune (of_char c))"
proof (cases "of_char c < (128::nat)")
  case True
  with assms show ?thesis by (simp add: encodeRune_def)
next
  case False
  let ?r = "of_char c :: nat"
  have r: "?r < 256" by simp
  then have "?r div 64 < 4" by (simp add: less_mult_imp_div_less)
  then have "(192 + ?r div 64) mod 256 = 192 + ?r div 64" by simp
  moreover have "(128 + ?r mod 64) mod 256 = 128 + ?r mod 64"
    using mod_less_divisor [of 64 ?r] by simp
  ultimately have "isText (char_of (192 + ?r div 64))" and "isText (char_of (128 + ?r mod 64))"
    using isWsp_ascii [of "char_of (192 + ?r div 64)"] isWsp_ascii [of "char_of (128 + ?r mod 64)"]
    by auto
  moreover have "?r < 2048" using r by linarith
  ultimately show ?thesis using False by (simp add: encodeRune_def)
qed

lemma squeezed_words:
  "squeezed s = joinWith '' '' (map (\<lambda>w. concat (map (\<lambda>c. encodeRune (of_char c)) w)) (wordsOf s))"
proof -
  have "concat (map (\<lambda>c. encodeRune (of_char c)) (joinWith '' '' ws)) =
    joinWith '' '' (map (\<lambda>w. concat (map (\<lambda>c. encodeRune (of_char c)) w)) ws)" for ws
    by (induction "'' ''" ws rule: joinWith.induct) (simp_all add: encodeRune_def char_of_eval)
  then show ?thesis by (simp add: squeezed_def)
qed

lemma tidy_squeezed: "tidy (squeezed s)"
  unfolding squeezed_words
proof (rule tidy_joinWith)
  have "concat (map (\<lambda>c. encodeRune (of_char c)) v) \<noteq> [] \<and>
      list_all isText (concat (map (\<lambda>c. encodeRune (of_char c)) v))"
    if "v \<noteq> []" and "list_all isText v" for v
    using that encodeByte_text by (cases v) (auto simp: list_all_iff)
  then show "list_all (\<lambda>w. w \<noteq> [] \<and> list_all isText w)
      (map (\<lambda>w. concat (map (\<lambda>c. encodeRune (of_char c)) w)) (wordsOf s))"
    using wordsOf_text [of s] by (auto simp only: list_all_iff set_map)
qed

text \<open>
  C32. What \<open>simplify\<close> returns has no blank at either end and no two adjacent blanks, and
  simplifying it again changes nothing.
\<close>

theorem simplify_idempotent:
  assumes "simplify s = Inr t"
  shows "tidy t \<and> simplify t = Inr t"
proof -
  have "tidy t"
  proof (cases "s = []")
    case True
    with assms show ?thesis by (simp add: simplify_def tidy_def)
  next
    case False
    with assms have "\<not> list_all isWsp s" by (auto simp: simplify_all_blank)
    with assms show ?thesis
      by (auto simp: simplify_not_blank tidy_trim tidy_squeezed split: if_splits)
  qed
  then show ?thesis by (simp add: simplify_tidy)
qed

theorem simplify_idempotent_witness:
  "simplify '' a  b '' = Inr ''a b'' \<and> tidy ''a b'' \<and> simplify ''a b'' = Inr ''a b''"
proof -
  have h: "simplify '' a  b '' = Inr ''a b''" by code_simp
  show ?thesis using h simplify_idempotent [OF h] by simp
qed

section \<open>Line ends\<close>

text \<open>Text in which CR and LF occur only together, as CR LF.\<close>

fun crlfText :: "string \<Rightarrow> bool" where
  "crlfText [] = True"
| "crlfText (c # cs) =
     (if c = CR then (case cs of [] \<Rightarrow> False | d # ds \<Rightarrow> d = LF \<and> crlfText ds)
      else c \<noteq> LF \<and> crlfText cs)"

abbreviation noEol :: "char \<Rightarrow> bool" where
  "noEol c \<equiv> c \<noteq> CR \<and> c \<noteq> LF"

lemma crlfText_append: "crlfText u \<Longrightarrow> crlfText v \<Longrightarrow> crlfText (u @ v)"
proof (induction u rule: crlfText.induct)
  case (2 c cs)
  then show ?case by (cases cs) (auto split: if_splits)
qed simp

lemma hasSuffix_crlf_append: "hasSuffix v crlf \<Longrightarrow> hasSuffix (u @ v) crlf"
  by (metis append_assoc hasSuffix_iff)

lemma toCRLF_loop_text: "crlfText (toCRLF_loop s lf)"
  by (induction s lf rule: toCRLF_loop.induct) auto

lemma toCRLF_loop_suffix: "\<not> lf \<or> s \<noteq> [] \<Longrightarrow> hasSuffix (toCRLF_loop s lf) crlf"
proof (induction s lf rule: toCRLF_loop.induct)
  case (1 lf)
  then show ?case by (simp add: hasSuffix_def)
next
  case (2 c cs lf)
  have tail: "hasSuffix (crlf @ toCRLF_loop t True) crlf"
    if "t \<noteq> [] \<Longrightarrow> hasSuffix (toCRLF_loop t True) crlf" for t
    using that hasSuffix_crlf_append [of "toCRLF_loop t True" crlf]
    by (cases "t = []") (simp_all add: hasSuffix_def)
  consider "c = LF" | "c \<noteq> LF" "c = CR" | "c \<noteq> LF" "c \<noteq> CR" by blast
  then show ?case
  proof cases
    case 1
    with 2(1) tail [of cs] show ?thesis by simp
  next
    case b: 2
    with 2(2) tail show ?thesis by simp
  next
    case 3
    with 2(3) hasSuffix_crlf_append [of "toCRLF_loop cs False" "[c]"] show ?thesis by simp
  qed
qed

text \<open>The check agrees with \<open>crlfText\<close>; what precedes the position it returns is well formed.\<close>

lemma toCRLF_check_from:
  assumes "i \<le> length s" and "hasSuffix s [LF]" and "toCRLF_check s i = (ok, j)"
  shows "ok = crlfText (drop i s) \<and> i \<le> j \<and> j \<le> length s \<and> (ok \<longrightarrow> j = length s) \<and>
         crlfText (take (j - i) (drop i s)) \<and> (\<not> ok \<longrightarrow> drop j s \<noteq> [])"
  using assms
proof (induction "length s - i" arbitrary: i rule: less_induct)
  case less
  show ?case
  proof (cases "i < length s")
    case False
    with less.prems show ?thesis by (simp add: toCRLF_check.simps)
  next
    case i: True
    have d: "drop i s = s ! i # drop (Suc i) s" by (rule drop_eq_Cons_nth [OF i])
    show ?thesis
    proof (cases "s ! i = CR")
      case cr: True
      have i': "Suc i < length s"
      proof (rule ccontr)
        assume "\<not> ?thesis"
        with i have "Suc i = length s" by simp
        with less.prems(2) have "s ! i = LF"
          by (metis append_is_Nil_conv diff_Suc_1 hasSuffix_iff last_conv_nth last_snoc length_0_conv not_Cons_self2 list.size(3) nat.distinct(1))
        with cr show False by simp
      qed
      have d': "drop (Suc i) s = s ! Suc i # drop (Suc (Suc i)) s"
        by (rule drop_eq_Cons_nth [OF i'])
      show ?thesis
      proof (cases "s ! Suc i = LF")
        case True
        with less.prems(3) cr i have "toCRLF_check s (Suc (Suc i)) = (ok, j)"
          by (subst (asm) toCRLF_check.simps) simp
        with less.hyps [of "Suc (Suc i)"] less.prems(2) i'
        have "ok = crlfText (drop (Suc (Suc i)) s) \<and> Suc (Suc i) \<le> j \<and> j \<le> length s \<and>
          (ok \<longrightarrow> j = length s) \<and> crlfText (take (j - Suc (Suc i)) (drop (Suc (Suc i)) s)) \<and>
          (\<not> ok \<longrightarrow> drop j s \<noteq> [])"
          by simp
        moreover from this have "j - i = Suc (Suc (j - Suc (Suc i)))" by arith
        ultimately show ?thesis using cr True by (simp add: d d')
      next
        case False
        with cr i have "toCRLF_check s i = (False, i)"
          by (subst toCRLF_check.simps) simp
        with less.prems(3) have "\<not> ok" and "j = i" by auto
        with i cr False show ?thesis by (simp add: d d')
      qed
    next
      case ncr: False
      show ?thesis
      proof (cases "s ! i = LF")
        case True
        with ncr i have "toCRLF_check s i = (False, i)"
          by (subst toCRLF_check.simps) simp
        with less.prems(3) have "\<not> ok" and "j = i" by auto
        with i ncr True show ?thesis by (simp add: d)
      next
        case False
        with less.prems(3) ncr i have "toCRLF_check s (Suc i) = (ok, j)"
          by (subst (asm) toCRLF_check.simps) simp
        with less.hyps [of "Suc i"] less.prems(2) i
        have "ok = crlfText (drop (Suc i) s) \<and> Suc i \<le> j \<and> j \<le> length s \<and>
          (ok \<longrightarrow> j = length s) \<and> crlfText (take (j - Suc i) (drop (Suc i) s)) \<and>
          (\<not> ok \<longrightarrow> drop j s \<noteq> [])"
          by simp
        moreover from this have "j - i = Suc (j - Suc i)" by arith
        ultimately show ?thesis using ncr False by (simp add: d)
      qed
    qed
  qed
qed

lemma toCRLF_cases:
  "toCRLF s =
     (if hasSuffix s crlf then
        (case toCRLF_check s 0 of
           (True, _) \<Rightarrow> s
         | (False, i) \<Rightarrow> take i s @ toCRLF_loop (drop i s) False)
      else toCRLF_loop s False)"
proof -
  have "hasSuffix s crlf \<longleftrightarrow> \<not> (length s < 2 \<or> s ! (length s - 1) \<noteq> LF \<or> s ! (length s - 2) \<noteq> CR)"
  proof (cases "length s < 2")
    case False
    then have "drop (length s - 2) s = [s ! (length s - 2), s ! (length s - 1)]"
      using drop_eq_Cons_nth [of "length s - 2" s] drop_eq_Cons_nth [of "length s - 1" s]
      by (simp add: Suc_diff_Suc numeral_2_eq_2)
    with False show ?thesis by (auto simp: hasSuffix_def numeral_2_eq_2)
  qed (simp add: hasSuffix_def)
  then show ?thesis
    by (auto simp: toCRLF_def Let_def split: prod.split bool.split)
qed

lemma hasSuffix_crlf_LF: "hasSuffix s crlf \<Longrightarrow> hasSuffix s [LF]"
  by (auto simp: hasSuffix_iff)

text \<open>Text that is in order already goes through the loop unchanged.\<close>

lemma toCRLF_loop_flag: "s \<noteq> [] \<Longrightarrow> toCRLF_loop s lf = toCRLF_loop s lf'"
  by (cases s) simp_all

lemma toCRLF_loop_prefix:
  "crlfText u \<Longrightarrow> v \<noteq> [] \<Longrightarrow> toCRLF_loop (u @ v) lf = u @ toCRLF_loop v lf'"
proof (induction u arbitrary: lf rule: crlfText.induct)
  case 1
  then show ?case by (simp add: toCRLF_loop_flag [of v lf lf'])
next
  case (2 c cs)
  show ?case
  proof (cases "c = CR")
    case True
    with 2(3) obtain ds where cs: "cs = LF # ds" "crlfText ds" by (auto split: list.splits)
    with 2(1) [OF True cs(1), of True] 2(4) True show ?thesis by (simp add: hasPrefix_def)
  next
    case False
    with 2(3) have "c \<noteq> LF" "crlfText cs" by simp_all
    with 2(2) [OF False, of False] 2(4) False show ?thesis by simp
  qed
qed

lemma toCRLF_loop_whole: "crlfText s \<Longrightarrow> hasSuffix s crlf \<Longrightarrow> toCRLF_loop s lf = s"
proof -
  assume "crlfText s" and "hasSuffix s crlf"
  then obtain u where s: "s = u @ crlf" by (auto simp: hasSuffix_iff)
  have "crlfText u" using \<open>crlfText s\<close> unfolding s
  proof (induction u rule: crlfText.induct)
    case (2 c cs)
    then show ?case by (cases cs) (auto split: if_splits)
  qed simp
  from toCRLF_loop_prefix [OF this, of crlf lf True] show ?thesis by (simp add: s hasPrefix_def)
qed

text \<open>The copy is only a shortcut: the loop alone computes the same result.\<close>

lemma toCRLF_eq_loop: "toCRLF s = toCRLF_loop s False"
proof (cases "hasSuffix s crlf")
  case False
  then show ?thesis by (simp add: toCRLF_cases)
next
  case suf: True
  obtain ok j where chk: "toCRLF_check s 0 = (ok, j)" by fastforce
  from toCRLF_check_from [OF _ hasSuffix_crlf_LF [OF suf] chk]
  have j: "ok = crlfText s" "crlfText (take j s)" "\<not> ok \<longrightarrow> drop j s \<noteq> []" by simp_all
  show ?thesis
  proof (cases ok)
    case True
    with suf chk j toCRLF_loop_whole show ?thesis by (simp add: toCRLF_cases)
  next
    case False
    with toCRLF_loop_prefix [OF j(2), of "drop j s" False False] j(3) suf chk show ?thesis by (simp add: toCRLF_cases)
  qed
qed

text \<open>
  The lines of a text. A line ends with LF, with CR LF, with CR CR LF or with a CR that neither of them follows; the last
  line may end with the text.
\<close>

fun linesOf :: "string \<Rightarrow> string list" where
  "linesOf [] = []"
| "linesOf (c # cs) =
     (if c = LF then [] # linesOf cs
      else if c = CR then
        [] # linesOf (if hasPrefix cs [LF] then drop 1 cs else if hasPrefix cs [CR, LF] then drop 2 cs else cs)
      else case linesOf cs of [] \<Rightarrow> [[c]] | l # ls \<Rightarrow> (c # l) # ls)"

lemma linesOf_nonempty: "s \<noteq> [] \<Longrightarrow> linesOf s \<noteq> []"
  by (cases s) (auto split: list.split)

lemma toCRLF_loop_lines:
  "toCRLF_loop s lf = (if s = [] then (if lf then [] else crlf) else concat (map (\<lambda>l. l @ crlf) (linesOf s)))"
proof (induction s lf rule: toCRLF_loop.induct)
  case (2 c cs lf)
  define t where "t = (if hasPrefix cs [LF] then drop 1 cs else if hasPrefix cs [CR, LF] then drop 2 cs else cs)"
  note step = 2(2) [folded t_def]
  consider "c = LF" | "c \<noteq> LF" "c = CR" | "c \<noteq> LF" "c \<noteq> CR" by blast
  then show ?case
  proof cases
    case 1
    with 2(1) show ?thesis by simp
  next
    case 2
    from 2 have "toCRLF_loop (c # cs) lf = crlf @ toCRLF_loop t True" "linesOf (c # cs) = [] # linesOf t"
      by (simp_all add: t_def)
    with step [OF 2] show ?thesis by simp
  next
    case 3
    with 2(3) linesOf_nonempty [of cs] show ?thesis by (cases cs; cases "linesOf cs") auto
  qed
qed simp

text \<open>The lines themselves have no line ends.\<close>

lemma linesOf_noEol: "list_all (list_all noEol) (linesOf s)"
  by (induction s rule: linesOf.induct) (auto split: list.split)

lemma toCRLF_id: "crlfText s \<Longrightarrow> hasSuffix s crlf \<Longrightarrow> toCRLF s = s"
  by (simp add: toCRLF_eq_loop toCRLF_loop_whole)

text \<open>
  C28. \<open>toCRLF\<close> returns the lines of its input, in their order and with nothing changed in them, each followed by CR
  LF; for the empty string that is one empty line. The result has no other line ends, and it is the input itself exactly
  when all line ends of the input are CR LF and the last two characters are one.
\<close>

theorem toCRLF_canonical:
  "toCRLF s = concat (map (\<lambda>l. l @ crlf) (if s = [] then [[]] else linesOf s)) \<and>
   list_all (list_all noEol) (linesOf s) \<and> crlfText (toCRLF s) \<and>
   (toCRLF s = s \<longleftrightarrow> crlfText s \<and> hasSuffix s crlf)"
proof -
  have "crlfText (toCRLF s)" "hasSuffix (toCRLF s) crlf"
    using toCRLF_loop_text [of s False] toCRLF_loop_suffix [of False s] by (simp_all add: toCRLF_eq_loop)
  then show ?thesis
    using toCRLF_id [of s] linesOf_noEol [of s] toCRLF_loop_lines [of s False] toCRLF_eq_loop [of s] by (cases "s = []") auto
qed

end
