(* ===== verification/TextUtil.thy ===== *)
theory TextUtil
  imports Whitespace
begin

text \<open>
  The text utilities of \<^verbatim>\<open>strings.go\<close> that are not codecs: \<open>stripcomments\<close>, \<open>section\<close>, the
  character tests \<open>isAscii\<close>, \<open>ascii\<close> and \<open>isBoring\<close>, the word search \<open>containsWord\<close> and the line
  wrapping \<open>wrap\<close>.
\<close>

section \<open>Removing comments\<close>

text \<open>The \<open>range\<close> loop runs over the code points; \<open>level\<close> may become negative.\<close>

fun stripcomments_loop :: "nat list \<Rightarrow> int \<Rightarrow> bool \<Rightarrow> string" where
  "stripcomments_loop [] level escape = []"
| "stripcomments_loop (c # cs) level escape =
     (if escape then
        (if level = 0 then encodeRune c else []) @ stripcomments_loop cs level False
      else if c = 92 then stripcomments_loop cs level True
      else if c = 40 then stripcomments_loop cs (level + 1) False
      else if c = 41 then stripcomments_loop cs (level - 1) False
      else (if level = 0 then encodeRune c else []) @ stripcomments_loop cs level False)"

definition stripcomments :: "string \<Rightarrow> string" where
  "stripcomments s = stripcomments_loop (runes s) 0 False"

section \<open>Sections\<close>

definition str_section :: "string \<Rightarrow> string \<Rightarrow> int \<Rightarrow> string go" where
  "str_section str s n =
     (if s = [] \<or> n = 0 then Inr str
      else let parts = splitOn s str
           in if n \<le> int (length parts) then idxi parts (n - 1) else Inr [])"

section \<open>Character tests\<close>

fun isAscii :: "string \<Rightarrow> bool" where
  "isAscii [] = True"
| "isAscii (c # cs) =
     (if CHR 0x80 \<le> c \<or> (c < CHR '' '' \<and> c \<noteq> CHR 0x09 \<and> c \<noteq> LF \<and> c \<noteq> CR) then False else isAscii cs)"

fun ascii :: "string \<Rightarrow> string" where
  "ascii [] = []"
| "ascii (c # cs) = (if CHR '' '' \<le> c \<and> c < CHR 0x7F then c else CHR ''?'') # ascii cs"

datatype BoringType = TotallyBoring | IMAPBoring | MIMEBoring

fun isBoring_loop :: "string \<Rightarrow> BoringType \<Rightarrow> bool" where
  "isBoring_loop [] b = True"
| "isBoring_loop (c # cs) b =
     (if isUpper c \<or> isLower c \<or> isDigit c \<or> c \<in> set ''!#$&+-'' then isBoring_loop cs b
      else if c = CHR ''.'' then (if b \<noteq> MIMEBoring then False else isBoring_loop cs b)
      else False)"

definition isBoring :: "string \<Rightarrow> BoringType \<Rightarrow> bool" where
  "isBoring s b = (if s = [] then False else isBoring_loop s b)"

section \<open>Searching for words\<close>

definition notLetter :: "char \<Rightarrow> bool" where
  "notLetter c \<longleftrightarrow> c < CHR ''A'' \<or> (CHR ''Z'' < c \<and> c < CHR ''a'') \<or> CHR ''z'' < c"

text \<open>The loop, entered with the position \<open>i\<close> of an occurrence, if there is one.\<close>

function containsWord_loop :: "string \<Rightarrow> string \<Rightarrow> nat option \<Rightarrow> bool go" where
  "containsWord_loop s w None = Inr False"
| "containsWord_loop s w (Some i) =
     go_bind (if i = 0 then Inr True else go_bind (idx s (i - 1)) (\<lambda>c. Inr (notLetter c))) (\<lambda>before.
     go_bind (if i + length w = length s then Inr True
              else go_bind (idx s (i + length w)) (\<lambda>c. Inr (notLetter c))) (\<lambda>after.
     if before \<and> after then Inr True
     else let offset = i + 1
          in go_bind (substr s offset (length s)) (\<lambda>rest.
             containsWord_loop s w (map_option (\<lambda>j. j + offset) (indexOf rest w)))))"
  by pat_completeness auto
termination
proof (relation "measure (\<lambda>(s, w, i). case i of None \<Rightarrow> 0 | Some j \<Rightarrow> Suc (length s) - j)")
  fix s w :: string and i before after' offset rest
  assume rest: "substr s offset (length s) = Inr rest" and offset: "offset = i + 1"
  then have i: "i < length s" by (simp add: substr_def split: if_splits)
  show "((s, w, map_option (\<lambda>j. j + offset) (indexOf rest w)), s, w, Some i)
    \<in> measure (\<lambda>(s, w, i). case i of None \<Rightarrow> 0 | Some j \<Rightarrow> Suc (length s) - j)"
    using i offset by (cases "indexOf rest w") auto
qed simp

declare containsWord_loop.simps(2) [simp del]

definition containsWord :: "string \<Rightarrow> string \<Rightarrow> bool go" where
  "containsWord s w = containsWord_loop s w (indexOf s w)"

section \<open>Wrapping\<close>

text \<open>The two inner loops: back over the spaces before a break and forward over those after it.\<close>

function wrap_back :: "string \<Rightarrow> nat \<Rightarrow> nat go" where
  "wrap_back buf space =
     (if 0 < space
      then go_bind (idx buf (space - 1)) (\<lambda>c. if c = CHR '' '' then wrap_back buf (space - 1) else Inr space)
      else Inr space)"
  by pat_completeness auto
termination
  by (relation "measure snd") auto

declare wrap_back.simps [simp del]

function wrap_skip :: "string \<Rightarrow> nat \<Rightarrow> nat go" where
  "wrap_skip buf linestart =
     (if linestart < length buf
      then go_bind (idx buf linestart) (\<lambda>c.
           if c = CHR '' '' then wrap_skip buf (linestart + 1) else Inr linestart)
      else Inr linestart)"
  by pat_completeness auto
termination
  by (relation "measure (\<lambda>(buf, l). length buf - l)") auto

declare wrap_skip.simps [simp del]

text \<open>A soft line break: the new buffer and the new values of \<open>linestart\<close> and \<open>space\<close>.\<close>

definition wrap_break :: "string \<Rightarrow> bool \<Rightarrow> string \<Rightarrow> nat \<Rightarrow> (string \<times> nat \<times> nat) go" where
  "wrap_break otherPrefix spaceAtEOL buf space =
     go_bind (wrap_back buf space) (\<lambda>space.
     go_bind (wrap_skip buf (space + 1)) (\<lambda>linestart.
     go_bind (if linestart < length buf then substr buf linestart (length buf) else Inr []) (\<lambda>move.
     go_bind (substr buf 0 (if spaceAtEOL then space + 1 else space)) (\<lambda>buf.
     Inr (buf @ crlf @ otherPrefix @ move, linestart, space)))))"

fun wrap_loop :: "string \<Rightarrow> int \<Rightarrow> string \<Rightarrow> bool \<Rightarrow> string \<Rightarrow> nat \<Rightarrow> nat \<Rightarrow> string go" where
  "wrap_loop [] linelength otherPrefix spaceAtEOL buf linestart space = Inr buf"
| "wrap_loop (c # cs) linelength otherPrefix spaceAtEOL buf linestart space =
     (let space = (if c = CHR '' '' then length buf else space);
          linestart = (if c = LF then length buf + 1 else linestart);
          buf = buf @ [c]
      in if int linestart + linelength < int (length buf) \<and> linestart < space
         then go_bind (wrap_break otherPrefix spaceAtEOL buf space) (\<lambda>(buf, linestart, space).
              wrap_loop cs linelength otherPrefix spaceAtEOL buf linestart space)
         else wrap_loop cs linelength otherPrefix spaceAtEOL buf linestart space)"

definition wrap :: "string \<Rightarrow> int \<Rightarrow> string \<Rightarrow> string \<Rightarrow> bool \<Rightarrow> string go" where
  "wrap s linelength firstPrefix otherPrefix spaceAtEOL =
     wrap_loop s linelength otherPrefix spaceAtEOL firstPrefix 0 0"

section \<open>Comments\<close>

lemma stripcomments_ascii:
  "list_all isAsciiByte s \<Longrightarrow> stripcomments s = stripcomments_loop (map of_char s) 0 False"
  by (simp add: stripcomments_def runes_ascii)

text \<open>The text of a comment between its parentheses: parentheses nest, a backslash escapes.\<close>

fun commentText :: "string \<Rightarrow> nat \<Rightarrow> bool" where
  "commentText [] n = (n = 0)"
| "commentText (c # cs) n =
     (if c = CHR 0x5C then cs \<noteq> [] \<and> commentText (tl cs) n
      else if c = CHR ''('' then commentText cs (Suc n)
      else if c = CHR '')'' then 0 < n \<and> commentText cs (n - 1)
      else commentText cs n)"

abbreviation special :: "char \<Rightarrow> bool" where
  "special c \<equiv> c = CHR 0x5C \<or> c = CHR ''('' \<or> c = CHR '')''"

lemma stripcomments_loop_special:
  "stripcomments_loop (of_char c # cs) level False =
     (if c = CHR 0x5C then stripcomments_loop cs level True
      else if c = CHR ''('' then stripcomments_loop cs (level + 1) False
      else if c = CHR '')'' then stripcomments_loop cs (level - 1) False
      else (if level = 0 then encodeRune (of_char c) else []) @ stripcomments_loop cs level False)"
  using of_char_eq_iff [of c "CHR 0x5C", where ?'a = nat] of_char_eq_iff [of c "CHR ''(''", where ?'a = nat]
    of_char_eq_iff [of c "CHR '')''", where ?'a = nat] by simp

lemma stripcomments_loop_comment:
  "commentText c n \<Longrightarrow>
   stripcomments_loop (map of_char c @ 41 # rest) (int n + 1) False = stripcomments_loop rest 0 False"
proof (induction c n rule: commentText.induct)
  case (2 c cs n)
  show ?case
  proof (cases "c = CHR 0x5C")
    case True
    with 2 obtain d ds where "cs = d # ds" by (cases cs) auto
    with 2 True show ?thesis by (simp add: stripcomments_loop_special del: stripcomments_loop.simps(2))
        (simp add: stripcomments_loop_special)
  next
    case False
    show ?thesis
      unfolding list.map append_Cons stripcomments_loop_special
      using 2 False by (auto simp: algebra_simps simp del: stripcomments_loop.simps(2))
  qed
qed simp

lemma stripcomments_loop_plain:
  "list_all (\<lambda>c. isAsciiByte c \<and> \<not> special c) a \<Longrightarrow>
   stripcomments_loop (map of_char a @ rest) 0 False = a @ stripcomments_loop rest 0 False"
  by (induction a) (auto simp: stripcomments_loop_special encodeRune_ascii simp del: stripcomments_loop.simps(2))

text \<open>
  C35. \<open>stripcomments\<close> removes a comment, with the comments nested in it and the parentheses escaped in it,
  keeps the text before it and goes on after it as at the start.
\<close>

theorem stripcomments_comment:
  assumes "list_all (\<lambda>c. isAsciiByte c \<and> \<not> special c) a"
    and "list_all isAsciiByte c" and "commentText c 0" and "list_all isAsciiByte b"
  shows "stripcomments (a @ ''('' @ c @ '')'' @ b) = a @ stripcomments b"
proof -
  have "list_all isAsciiByte (a @ ''('' @ c @ '')'' @ b)"
    using assms by (auto simp: list_all_iff isAsciiByte_nat)
  moreover have "stripcomments_loop (map of_char c @ 41 # map of_char b) 1 False =
      stripcomments_loop (map of_char b) 0 False"
    using stripcomments_loop_comment [OF assms(3), of "map of_char b"] by simp
  ultimately show ?thesis
    using assms(4) stripcomments_loop_plain [OF assms(1), of "40 # map of_char c @ 41 # map of_char b"]
    by (simp add: stripcomments_ascii)
qed

theorem stripcomments_comment_witness:
  "stripcomments ''a(b(c)d)e'' = ''a'' @ stripcomments ''e''"
  using stripcomments_comment [of "''a''" "''b(c)d''" "''e''"] by (simp add: isAsciiByte_def)

section \<open>Words\<close>

definition wordAt :: "string \<Rightarrow> string \<Rightarrow> nat \<Rightarrow> bool" where
  "wordAt s w i \<longleftrightarrow>
     hasPrefix (drop i s) w \<and> (i = 0 \<or> notLetter (s ! (i - 1))) \<and>
     (i + length w = length s \<or> notLetter (s ! (i + length w)))"

lemma containsWord_loop_iff:
  assumes "w \<noteq> []"
  shows "opt = map_option (\<lambda>j. j + k) (indexOf (drop k s) w) \<Longrightarrow> k \<le> length s \<Longrightarrow>
    containsWord_loop s w opt = Inr (\<exists>i\<ge>k. wordAt s w i)"
  using assms
proof (induction s w opt arbitrary: k rule: containsWord_loop.induct)
  case (1 s w)
  then have no: "indexOf (drop k s) w = None" by auto
  have "\<not> wordAt s w i" if "k \<le> i" for i
    using indexOf_None [OF no, of "i - k"] that by (simp add: wordAt_def)
  then show ?case by auto
next
  case (2 s w i)
  then obtain j where j: "indexOf (drop k s) w = Some j" and i: "i = j + k"
    by (cases "indexOf (drop k s) w") auto
  from indexOf_Some [OF j] 2(3) i have le: "i + length w \<le> length s" and p: "hasPrefix (drop i s) w"
    by (auto simp: add.commute)
  have small: "\<not> wordAt s w n" if "k \<le> n" "n < i" for n
    using indexOf_Some_first [OF j, of "n - k"] that i by (simp add: wordAt_def)
  have lt: "i < length s" using le 2(4) by (cases w) auto
  let ?before = "i = 0 \<or> notLetter (s ! (i - 1))"
  let ?after = "i + length w = length s \<or> notLetter (s ! (i + length w))"
  have b: "(if i = 0 then Inr True else go_bind (idx s (i - 1)) (\<lambda>c. Inr (notLetter c))) = Inr ?before"
    using lt by simp
  have a: "(if i + length w = length s then Inr True
      else go_bind (idx s (i + length w)) (\<lambda>c. Inr (notLetter c))) = Inr ?after"
    using le by simp
  have rest: "substr s (i + 1) (length s) = Inr (drop (i + 1) s)" using lt by simp
  show ?case
  proof (cases "?before \<and> ?after")
    case True
    with p have "wordAt s w i" by (simp add: wordAt_def)
    with i have "\<exists>i\<ge>k. wordAt s w i" by (auto intro: exI [of _ i])
    with True show ?thesis by (simp only: containsWord_loop.simps b a go_bind_simps if_True simp_thms)
  next
    case False
    then have "\<not> wordAt s w i" by (auto simp: wordAt_def)
    with small i have "(\<exists>n\<ge>k. wordAt s w n) \<longleftrightarrow> (\<exists>n\<ge>i + 1. wordAt s w n)"
      by (metis Suc_eq_plus1 Suc_leD le_add2 le_trans not_less_eq_eq nat_less_le not_le)
    moreover have "containsWord_loop s w (map_option (\<lambda>j. j + (i + 1)) (indexOf (drop (i + 1) s) w)) =
        Inr (\<exists>n\<ge>i + 1. wordAt s w n)"
      using 2(1) [OF b a False refl rest refl] lt 2(4) by simp
    ultimately show ?thesis
      using False by (simp only: containsWord_loop.simps b a rest go_bind_simps if_False Let_def)
  qed
qed

text \<open>
  C34. For a nonempty word, \<open>containsWord\<close> returns without a panic and tells whether the word occurs somewhere
  with no letter directly before and directly after it.
\<close>

theorem containsWord_iff:
  assumes "w \<noteq> []"
  shows "containsWord s w = Inr (\<exists>i. wordAt s w i)"
  using containsWord_loop_iff [OF assms, of "indexOf s w" 0 s]
  by (simp add: containsWord_def option.map_ident)

theorem containsWord_iff_witness:
  "containsWord ''a; boundary=x'' ''boundary'' = Inr (\<exists>i. wordAt ''a; boundary=x'' ''boundary'' i)"
  using containsWord_iff [of "''boundary''" "''a; boundary=x''"] by simp

section \<open>Wrapping keeps the words\<close>

lemma wordsOf_blank: "list_all isWsp w \<Longrightarrow> wordsOf (w @ b) = wordsOf b"
  by (induction w) auto

lemma wordsOf_append:
  assumes "list_all isWsp w" and "w \<noteq> []"
  shows "wordsOf (a @ w @ b) = wordsOf a @ wordsOf b"
proof (induction a rule: length_induct)
  case (1 a)
  show ?case
  proof (cases a)
    case Nil
    with assms show ?thesis by (simp add: wordsOf_blank)
  next
    case (Cons x xs)
    obtain y ys where w: "w = y # ys" and y: "isWsp y" using assms by (cases w) auto
    have t: "takeWhile isText (xs @ w @ b) = takeWhile isText xs"
      using y by (induction xs) (auto simp: w)
    have d: "dropWhile isText (xs @ w @ b) = dropWhile isText xs @ w @ b"
      using y by (induction xs) (auto simp: w)
    have "wordsOf (dropWhile isText xs @ w @ b) = wordsOf (dropWhile isText xs) @ wordsOf b"
      using 1 Cons by (simp add: length_dropWhile_le le_imp_less_Suc)
    moreover have "wordsOf (xs @ w @ b) = wordsOf xs @ wordsOf b" using 1 Cons by simp
    ultimately show ?thesis
      using Cons t d by (cases "isWsp x") (simp_all add: wordsOf_Cons_text)
  qed
qed

lemma wrap_back_ok:
  "space \<le> length buf \<Longrightarrow>
   \<exists>k. wrap_back buf space = Inr k \<and> k \<le> space \<and> (\<forall>j. k \<le> j \<and> j < space \<longrightarrow> buf ! j = CHR '' '')"
proof (induction space)
  case (Suc n)
  show ?case
  proof (cases "buf ! n = CHR '' ''")
    case True
    with Suc obtain k where "wrap_back buf n = Inr k" "k \<le> n" "\<forall>j. k \<le> j \<and> j < n \<longrightarrow> buf ! j = CHR '' ''"
      by auto
    with Suc.prems True show ?thesis
      by (intro exI [of _ k]) (auto simp: wrap_back.simps [of buf "Suc n"] less_Suc_eq)
  next
    case False
    with Suc.prems show ?thesis
      by (intro exI [of _ "Suc n"]) (auto simp: wrap_back.simps [of buf "Suc n"])
  qed
qed (simp add: wrap_back.simps)

lemma wrap_skip_ok:
  "l \<le> length buf \<Longrightarrow>
   \<exists>m. wrap_skip buf l = Inr m \<and> l \<le> m \<and> m \<le> length buf \<and> (\<forall>j. l \<le> j \<and> j < m \<longrightarrow> buf ! j = CHR '' '')"
proof (induction "length buf - l" arbitrary: l)
  case 0
  then show ?case by (intro exI [of _ l]) (auto simp: wrap_skip.simps)
next
  case (Suc n)
  then have l: "l < length buf" by simp
  show ?case
  proof (cases "buf ! l = CHR '' ''")
    case True
    have n: "n = length buf - Suc l" using Suc(2) by simp
    from Suc(1) [OF n] l obtain m where
      "wrap_skip buf (Suc l) = Inr m" "Suc l \<le> m" "m \<le> length buf"
      "\<forall>j. Suc l \<le> j \<and> j < m \<longrightarrow> buf ! j = CHR '' ''" by auto
    with True l show ?thesis
      by (intro exI [of _ m]) (auto simp: wrap_skip.simps [of buf l] Suc_le_eq dest: le_neq_implies_less)
  next
    case False
    with l show ?thesis by (intro exI [of _ l]) (auto simp: wrap_skip.simps [of buf l])
  qed
qed

text \<open>A soft break replaces a run of spaces of the buffer by a line end and the prefix.\<close>

lemma wrap_break_ok:
  assumes "space < length buf" and sp: "buf ! space = CHR '' ''"
  obtains a w b k m where "wrap_break p e buf space = Inr (a @ (if e then '' '' else []) @ crlf @ p @ b, m, k)"
    and "buf = a @ w @ b" and "w \<noteq> []" and "set w \<subseteq> {CHR '' ''}" and "k \<le> m"
    and "k = length a"
proof -
  obtain k where k: "wrap_back buf space = Inr k" "k \<le> space"
    and ks: "\<forall>j. k \<le> j \<and> j < space \<longrightarrow> buf ! j = CHR '' ''"
    using wrap_back_ok [of space buf] assms by auto
  then have kc: "buf ! k = CHR '' ''" using sp by (cases "k = space") auto
  have kl: "k < length buf" using k assms by simp
  obtain m where m: "wrap_skip buf (Suc k) = Inr m" "Suc k \<le> m" "m \<le> length buf"
    and ms: "\<forall>j. Suc k \<le> j \<and> j < m \<longrightarrow> buf ! j = CHR '' ''"
    using wrap_skip_ok [of "Suc k" buf] kl by auto
  let ?w = "take (m - k) (drop k buf)"
  have w: "?w ! i = CHR '' ''" if "i < m - k" for i
    using that kc ms m kl by (cases i) auto
  have "set ?w \<subseteq> {CHR '' ''}"
  proof
    fix x assume "x \<in> set ?w"
    then obtain i where "i < m - k" "x = ?w ! i" by (auto simp: in_set_conv_nth)
    with w show "x \<in> {CHR '' ''}" by simp
  qed
  moreover have "buf = take k buf @ ?w @ drop m buf"
    using m by (metis Suc_leD append_take_drop_id le_add_diff_inverse2 drop_drop)
  moreover have "wrap_break p e buf space =
      Inr (take k buf @ (if e then '' '' else []) @ crlf @ p @ drop m buf, m, k)"
    using k m kl kc by (simp add: wrap_break_def take_Suc_conv_app_nth)
  moreover have "?w \<noteq> []" using m kl by simp
  ultimately show ?thesis using that [of "take k buf" "drop m buf" m k ?w] m kl by simp
qed

lemma wrap_loop_words:
  assumes "list_all isWsp p"
  shows "space \<le> length buf \<Longrightarrow> space \<le> linestart \<or> (space < length buf \<and> buf ! space = CHR '' '') \<Longrightarrow>
    \<exists>out. wrap_loop s n p e buf linestart space = Inr out \<and> wordsOf out = wordsOf (buf @ s)"
proof (induction s arbitrary: buf linestart space)
  case (Cons c cs)
  define sp where "sp = (if c = CHR '' '' then length buf else space)"
  define ls where "ls = (if c = LF then length buf + 1 else linestart)"
  have inv: "sp \<le> ls \<or> (sp < length (buf @ [c]) \<and> (buf @ [c]) ! sp = CHR '' '')"
    and sp: "sp \<le> length (buf @ [c])"
    using Cons.prems by (auto simp: sp_def ls_def nth_append)
  show ?case
  proof (cases "int ls + n < int (length (buf @ [c])) \<and> ls < sp")
    case True
    with inv have "sp < length (buf @ [c])" "(buf @ [c]) ! sp = CHR '' ''" by auto
    then obtain a w b k m where
      br: "wrap_break p e (buf @ [c]) sp = Inr (a @ (if e then '' '' else []) @ crlf @ p @ b, m, k)"
      and buf: "buf @ [c] = a @ w @ b" and w: "w \<noteq> []" "set w \<subseteq> {CHR '' ''}" and "k \<le> m" "k = length a"
      by (rule wrap_break_ok)
    let ?v = "(if e then '' '' else []) @ crlf @ p"
    from Cons.IH [of k "a @ ?v @ b" m] \<open>k \<le> m\<close> \<open>k = length a\<close> obtain out where
      out: "wrap_loop cs n p e (a @ ?v @ b) m k = Inr out" "wordsOf out = wordsOf (a @ ?v @ b @ cs)"
      by auto
    have "list_all isWsp ?v" using assms by (simp add: isWsp_def)
    moreover have "list_all isWsp w" using w by (auto simp: list_all_iff isWsp_def)
    ultimately have "wordsOf (a @ ?v @ b @ cs) = wordsOf (a @ w @ b @ cs)"
      using wordsOf_append [of ?v a "b @ cs"] wordsOf_append [of w a "b @ cs"] w by simp
    also have "a @ w @ b @ cs = buf @ c # cs" using arg_cong [OF buf, of "\<lambda>x. x @ cs"] by simp
    finally show ?thesis
      using out br True by (simp add: sp_def [symmetric] ls_def [symmetric] Let_def)
  next
    case False
    with Cons.IH [of sp "buf @ [c]" ls] inv sp show ?thesis
      by (auto simp: sp_def [symmetric] ls_def [symmetric] Let_def)
  qed
qed simp



text \<open>
  Two spaces where a line is broken just before the second one leave an empty line, which ends the header of
  a message: the second break eats the prefix of the line it is on.
\<close>

lemma wrap_empty_line:
  "wrap ''aaaaaaaaaa  bbbbbbbb'' 10 [] '' '' False = Inr (''aaaaaaaaaa'' @ crlf @ crlf @ '' bbbbbbbb'')"
  by code_simp

text \<open>
  The position \<open>linestart\<close> is not moved with the text, so a line after a break at several spaces may be longer
  than the limit.
\<close>

lemma wrap_long_line:
  "wrap ''aaaa       bb cccc ddddd'' 10 [] '' '' False = Inr (''aaaa'' @ crlf @ '' bb cccc ddddd'')"
  by code_simp

end
