(* ===== verification/QuotedPrintable.thy ===== *)
theory QuotedPrintable
  imports GoLib
begin

text \<open>
  The quoted-printable codec (\<open>strings.go\<close>: \<open>deQP\<close>, \<open>eQP\<close>, \<open>maybeBoundary\<close>, \<open>needsQP\<close>).

  \<open>deQP\<close> and the input side of \<open>eQP\<close> only look ahead, so their loops recurse on what is left of the
  input. The output of \<open>eQP\<close> is the source's buffer: an array of six bytes per input byte and the
  number \<open>l\<close> of bytes in use, with a bounds check on every read and write. A second, purely
  functional version \<open>qpEncode\<close> works on the bytes in use alone; \<open>eQP\<close> refines it.
\<close>

section \<open>Decoding\<close>

function deQP :: "string \<Rightarrow> bool \<Rightarrow> string" where
  "deQP [] underscore = []"
| "deQP (x # xs) underscore =
     (if x \<noteq> CHR ''='' then (if underscore \<and> x = CHR ''_'' then CHR '' '' else x) # deQP xs underscore
      else
        (let rest = dropWhile (\<lambda>c. c = CHR '' '' \<or> c = CHR 0x09) xs
         in if hasPrefix rest [LF] then deQP (drop 1 rest) underscore
            else if hasPrefix rest crlf then deQP (drop 2 rest) underscore
            else if 2 \<le> length xs then
              (case parseHex2 (xs ! 0) (xs ! 1) of
                 Some c \<Rightarrow> c # deQP (drop 2 xs) underscore
               | None \<Rightarrow> CHR ''='' # deQP xs underscore)
            else [CHR 0x00]))"
  by pat_completeness auto
termination
proof (relation "measure (\<lambda>(s, u). length s)")
  fix x and xs rest :: string and u
  assume "rest = dropWhile (\<lambda>c. c = CHR '' '' \<or> c = CHR 0x09) xs"
  then have "length rest \<le> length xs" by (simp add: length_dropWhile_le)
  then show "((drop 1 rest, u), (x # xs, u)) \<in> measure (\<lambda>(s, u). length s)"
    and "((drop 2 rest, u), (x # xs, u)) \<in> measure (\<lambda>(s, u). length s)"
    by auto
qed auto

declare deQP.simps(2) [simp del]

section \<open>Tests on the input\<close>

definition bchars :: string where
  "bchars = ''abcdefghijklmnopqrstuvwxyzABCDEFGHIJKLMNOPQRSTUVWXYZ0123456789'' @
     [CHR 0x27] @ ''()+_,-./:=? ''"

fun maybeBoundary_loop :: "string \<Rightarrow> bool" where
  "maybeBoundary_loop [] = True"
| "maybeBoundary_loop (c # cs) =
     (if CHR '' '' \<le> c then (if c \<in> set bchars then maybeBoundary_loop cs else False) else True)"

text \<open>The argument is the string from position \<open>i\<close> on.\<close>

definition maybeBoundary :: "string \<Rightarrow> bool" where
  "maybeBoundary t =
     (if length t < 2 then False
      else if t ! 0 \<noteq> CHR ''-'' \<or> t ! 1 \<noteq> CHR ''-'' then False
      else maybeBoundary_loop t)"

fun needsQP_loop :: "string \<Rightarrow> nat \<Rightarrow> bool" where
  "needsQP_loop [] c = False"
| "needsQP_loop (x # xs) c =
     (if c = 0 \<and> maybeBoundary (x # xs) then True
      else if c = 0 \<and> xs \<noteq> [] \<and> x = CHR ''F'' \<and> xs ! 0 = CHR ''r'' then True
      else if x = LF then needsQP_loop xs 0
      else if 78 < c then True
      else if (CHR '' '' \<le> x \<and> x < CHR 0x7F) \<or> x = CHR 0x09 \<or> (xs \<noteq> [] \<and> x = CR \<and> xs ! 0 = LF)
      then needsQP_loop xs (c + 1)
      else True)"

definition needsQP :: "string \<Rightarrow> bool" where
  "needsQP s = needsQP_loop s 0"

section \<open>Encoding into a buffer\<close>

text \<open>The bytes in use are the first \<open>l\<close> of the array.\<close>

type_synonym obuf = "string \<times> nat"

definition setAt :: "string \<Rightarrow> int \<Rightarrow> char \<Rightarrow> string go" where
  "setAt buf i x =
     (if 0 \<le> i \<and> i < int (length buf) then Inr (buf[nat i := x]) else Inl IndexOutOfRange)"

definition emit :: "obuf \<Rightarrow> char \<Rightarrow> obuf go" where
  "emit b x = (case b of (buf, l) \<Rightarrow> go_bind (setAt buf (int l) x) (\<lambda>buf. Inr (buf, l + 1)))"

fun emits :: "obuf \<Rightarrow> string \<Rightarrow> obuf go" where
  "emits b [] = Inr b"
| "emits b (x # xs) = go_bind (emit b x) (\<lambda>b. emits b xs)"

definition qphexdigits :: string where
  "qphexdigits = ''0123456789ABCDEF''"

definition hexPair :: "char \<Rightarrow> string" where
  "hexPair c = [CHR ''='', qphexdigits ! (of_char c div 16), qphexdigits ! (of_char c mod 16)]"

text \<open>\<open>for j < 10 && buf[l-j] != ' ' { j++ }\<close>\<close>

function eQP_scan :: "obuf \<Rightarrow> nat \<Rightarrow> nat go" where
  "eQP_scan (buf, l) j =
     (if j < 10
      then go_bind (idxi buf (int l - int j)) (\<lambda>x. if x \<noteq> CHR '' '' then eQP_scan (buf, l) (j + 1) else Inr j)
      else Inr j)"
  by pat_completeness auto
termination
  by (relation "measure (\<lambda>(b, j). 10 - j)") auto

text \<open>\<open>for k <= j { buf[l-k+3] = buf[l-k]; k++ }\<close>\<close>

function eQP_shift :: "obuf \<Rightarrow> nat \<Rightarrow> nat \<Rightarrow> string go" where
  "eQP_shift (buf, l) j k =
     (if k \<le> j
      then go_bind (idxi buf (int l - int k)) (\<lambda>x.
           go_bind (setAt buf (int l - int k + 3) x) (\<lambda>buf. eQP_shift (buf, l) j (k + 1)))
      else Inr buf)"
  by pat_completeness auto
termination
  by (relation "measure (\<lambda>(b, j, k). Suc j - k)") auto

declare eQP_scan.simps [simp del] eQP_shift.simps [simp del]

text \<open>The soft line break, put in when the line has more than 72 characters.\<close>

definition eQP_soft :: "obuf \<Rightarrow> nat \<Rightarrow> (obuf \<times> nat) go" where
  "eQP_soft b c =
     (if 72 < c then
        go_bind (eQP_scan b 1) (\<lambda>j.
          let j = (if 10 \<le> j then 0 else j - 1)
          in go_bind (eQP_shift b j 1) (\<lambda>buf.
               let l = snd b
               in go_bind (setAt buf (int l - int j) (CHR ''='')) (\<lambda>buf.
                  go_bind (setAt buf (int l + 1 - int j) CR) (\<lambda>buf.
                  go_bind (setAt buf (int l + 2 - int j) LF) (\<lambda>buf.
                  Inr ((buf, l + 3), j))))))
      else Inr (b, c))"

text \<open>What one byte that is not part of a line end becomes, at column \<open>c\<close>.\<close>

definition qpByte :: "string \<Rightarrow> bool \<Rightarrow> bool \<Rightarrow> nat \<Rightarrow> string" where
  "qpByte t underscore from c =
     (let x = t ! 0
      in if underscore \<and> x = CHR '' '' then ''_''
         else if underscore \<and> \<not> (isDigit x \<or> isLower x \<or> isUpper x) then hexPair x
         else if from \<and> c = 0 \<and> maybeBoundary t then hexPair x
         else if from \<and> c = 0 \<and> 5 \<le> length t \<and> take 5 t = ''From '' then hexPair x
         else if (CHR '' '' \<le> x \<and> x < CHR 0x7F \<and> x \<noteq> CHR ''='') \<or> x = CHR 0x09 then [x]
         else hexPair x)"

text \<open>The first part of the line end branch: a space before it is written as \<open>=20\<close>.\<close>

definition eQP_space :: "obuf \<Rightarrow> obuf go" where
  "eQP_space b =
     (case b of (buf, l) \<Rightarrow>
        if 0 < l
        then go_bind (idxi buf (int l - 1)) (\<lambda>x.
               if x = CHR '' ''
               then go_bind (setAt buf (int l - 1) (CHR ''='')) (\<lambda>buf. emits (buf, l) ''20'')
               else Inr b)
        else Inr b)"

function eQP_loop :: "string \<Rightarrow> bool \<Rightarrow> bool \<Rightarrow> obuf \<Rightarrow> nat \<Rightarrow> obuf go" where
  "eQP_loop [] underscore from b c = Inr b"
| "eQP_loop (x # xs) underscore from b c =
     (if x = LF \<or> (x = CR \<and> hasPrefix xs [LF]) then
        go_bind (eQP_space b) (\<lambda>b.
        if x = CR
        then go_bind (emits b [CR, LF]) (\<lambda>b. eQP_loop (drop 1 xs) underscore from b 0)
        else go_bind (emits b [LF]) (\<lambda>b. eQP_loop xs underscore from b 0))
      else
        go_bind (eQP_soft b c) (\<lambda>(b, c).
        let out = qpByte (x # xs) underscore from c
        in go_bind (emits b out) (\<lambda>b. eQP_loop xs underscore from b (c + length out))))"
  by pat_completeness auto
termination
  by (relation "measure (\<lambda>(s, u, f, b, c). length s)") auto

definition eQP :: "string \<Rightarrow> bool \<Rightarrow> bool \<Rightarrow> string go" where
  "eQP s underscore from =
     (if s = [] then Inr s
      else go_bind (eQP_loop s underscore from (replicate (length s * 6) (CHR 0x00), 0) 0) (\<lambda>(buf, l).
           substr buf 0 l))"

section \<open>The same encoder without the array\<close>

definition qpSoftAt :: "string \<Rightarrow> nat" where
  "qpSoftAt out =
     (let w = takeWhile (\<lambda>x. x \<noteq> CHR '' '') (rev out) in if length w < 9 then length w else 0)"

definition qpSoft :: "string \<Rightarrow> nat \<Rightarrow> string \<times> nat" where
  "qpSoft out c =
     (if 72 < c then
        (let j = qpSoftAt out; n = length out - j
         in (take n out @ [CHR ''='', CR, LF] @ drop n out, j))
      else (out, c))"

definition qpSpace :: "string \<Rightarrow> string" where
  "qpSpace out = (if hasSuffix out '' '' then butlast out @ ''=20'' else out)"

function qpEncode :: "string \<Rightarrow> bool \<Rightarrow> bool \<Rightarrow> string \<Rightarrow> nat \<Rightarrow> string" where
  "qpEncode [] underscore from out c = out"
| "qpEncode (x # xs) underscore from out c =
     (if x = LF \<or> (x = CR \<and> hasPrefix xs [LF]) then
        if x = CR then qpEncode (drop 1 xs) underscore from (qpSpace out @ [CR, LF]) 0
        else qpEncode xs underscore from (qpSpace out @ [LF]) 0
      else
        (let (out, c) = qpSoft out c;
             e = qpByte (x # xs) underscore from c
         in qpEncode xs underscore from (out @ e) (c + length e)))"
  by pat_completeness auto
termination
  by (relation "measure (\<lambda>(s, u, f, out, c). length s)") auto

section \<open>The buffer version refines the functional one\<close>

text \<open>\<open>holds b out\<close>: the bytes in use are \<open>out\<close>.\<close>

definition holds :: "obuf \<Rightarrow> string \<Rightarrow> bool" where
  "holds b out \<longleftrightarrow> snd b \<le> length (fst b) \<and> take (snd b) (fst b) = out"

lemma holds_length: "holds b out \<Longrightarrow> length out = snd b"
  by (auto simp: holds_def)

lemma holds_nth: "holds (buf, l) out \<Longrightarrow> i < l \<Longrightarrow> buf ! i = out ! i"
  by (auto simp: holds_def)

lemma emit_ok:
  assumes "holds b out" and "snd b < length (fst b)"
  shows "\<exists>b'. emit b x = Inr b' \<and> holds b' (out @ [x]) \<and> length (fst b') = length (fst b)"
  using assms
  by (cases b) (auto simp: holds_def emit_def setAt_def take_Suc_conv_app_nth)

lemma emits_ok:
  assumes "holds b out" and "snd b + length xs \<le> length (fst b)"
  shows "\<exists>b'. emits b xs = Inr b' \<and> holds b' (out @ xs) \<and> length (fst b') = length (fst b)"
  using assms
proof (induction xs arbitrary: b out)
  case (Cons x xs)
  then obtain b1 where b1: "emit b x = Inr b1" "holds b1 (out @ [x])" "length (fst b1) = length (fst b)"
    using emit_ok [of b out x] by auto
  have "snd b1 = Suc (snd b)"
    using holds_length [OF b1(2)] holds_length [OF Cons.prems(1)] by simp
  with Cons.IH [OF b1(2)] Cons.prems(2) b1 show ?case by simp
qed auto

lemma eQP_space_ok:
  assumes "holds b out" and "snd b + 2 \<le> length (fst b)"
  shows "\<exists>b'. eQP_space b = Inr b' \<and> holds b' (qpSpace out) \<and> length (fst b') = length (fst b)"
proof -
  obtain buf l where b: "b = (buf, l)" by fastforce
  have len: "length out = l" using holds_length [OF assms(1)] b by simp
  show ?thesis
  proof (cases "out = []")
    case True
    with assms b len show ?thesis by (simp add: eQP_space_def qpSpace_def hasSuffix_def)
  next
    case False
    then have l: "0 < l" and ll: "l - 1 < length buf" using len assms(2) b by auto
    have last: "buf ! (l - 1) = last out"
      using holds_nth [of buf l out "l - 1"] assms(1) b l False len by (simp add: last_conv_nth)
    have suf: "hasSuffix out '' '' \<longleftrightarrow> last out = CHR '' ''"
      using False by (metis append_butlast_last_id hasSuffix_iff last_snoc)
    have rd: "idxi buf (int l - 1) = Inr (last out)"
      using l ll last by (simp add: idxi_def nat_diff_distrib)
    show ?thesis
    proof (cases "last out = CHR '' ''")
      case True
      have st: "setAt buf (int l - 1) (CHR ''='') = Inr (buf[l - 1 := CHR ''=''])"
        using l ll by (simp add: setAt_def nat_diff_distrib)
      obtain o' y where o: "out = o' @ [y]" using False by (metis rev_exhaust)
      have "take l (buf[l - 1 := CHR ''='']) = out[l - 1 := CHR ''='']"
        using assms(1) b by (simp add: holds_def take_update_swap)
      also have "\<dots> = butlast out @ [CHR ''='']"
        using o len by auto
      finally have "take l (buf[l - 1 := CHR ''='']) = butlast out @ [CHR ''='']" .
      then have "holds (buf[l - 1 := CHR ''=''], l) (butlast out @ [CHR ''=''])"
        using assms(2) b by (simp add: holds_def)
      from emits_ok [OF this, of "''20''"] assms(2) b
      obtain b' where "emits (buf[l - 1 := CHR ''=''], l) ''20'' = Inr b'"
        "holds b' (butlast out @ ''=20'')" "length (fst b') = length buf" by auto
      with True suf rd st b l show ?thesis
        by (simp add: eQP_space_def qpSpace_def)
    next
      case False
      with suf rd b l assms(1) show ?thesis by (simp add: eQP_space_def qpSpace_def)
    qed
  qed
qed

text \<open>The scan for a space looks at the last nine bytes.\<close>

lemma eQP_scan_from:
  assumes h: "holds (buf, l) out" and l: "9 \<le> l" and j: "0 < j" "j \<le> 10"
    and w: "j - 1 \<le> length (takeWhile (\<lambda>x. x \<noteq> CHR '' '') (rev out))"
  shows "eQP_scan (buf, l) j = Inr (min 10 (Suc (length (takeWhile (\<lambda>x. x \<noteq> CHR '' '') (rev out)))))"
  using j w
proof (induction "10 - j" arbitrary: j)
  case 0
  then have "j = 10" by simp
  with 0 show ?case by (simp add: eQP_scan.simps)
next
  case (Suc n)
  then have j: "j < 10" and j0: "0 < j" by simp_all
  have len: "length out = l" using holds_length [OF h] by simp
  let ?P = "\<lambda>x. x \<noteq> CHR '' ''"
  have rd: "idxi buf (int l - int j) = Inr (rev out ! (j - 1))"
  proof -
    have "rev out ! (j - 1) = out ! (l - j)" using j j0 l len by (simp add: rev_nth)
    moreover have "buf ! (l - j) = out ! (l - j)" using holds_nth [OF h, of "l - j"] j j0 l by simp
    moreover have "l \<le> length buf" using h by (simp add: holds_def)
    ultimately show ?thesis using j j0 l by (simp add: idxi_def nat_diff_distrib)
  qed
  show ?case
  proof (cases "rev out ! (j - 1) = CHR '' ''")
    case True
    have "\<not> j - 1 < length (takeWhile ?P (rev out))"
    proof
      assume "j - 1 < length (takeWhile ?P (rev out))"
      then have "takeWhile ?P (rev out) ! (j - 1) \<in> set (takeWhile ?P (rev out))" by (rule nth_mem)
      then have "?P (takeWhile ?P (rev out) ! (j - 1))" by (rule set_takeWhileD [THEN conjunct2])
      with True \<open>j - 1 < _\<close> show False by (simp only: takeWhile_nth)
    qed
    with Suc.prems(3) have "length (takeWhile ?P (rev out)) = j - 1" by simp
    with True j j0 rd show ?thesis by (simp add: eQP_scan.simps)
  next
    case False
    have "j - 1 < length (rev out)" using j l len by simp
    with False have "length (takeWhile ?P (rev out)) \<noteq> j - 1"
      using nth_length_takeWhile [of ?P "rev out"] by auto
    with Suc.prems(3) j0 have "j \<le> length (takeWhile ?P (rev out))" by linarith
    with Suc.hyps(1) [of "Suc j"] Suc.hyps(2) j have "eQP_scan (buf, l) (Suc j) =
      Inr (min 10 (Suc (length (takeWhile ?P (rev out)))))" by simp
    with False j rd show ?thesis by (simp add: eQP_scan.simps [of buf l j])
  qed
qed

lemma eQP_shift_from:
  assumes "0 < k" and "k \<le> Suc j" and "j \<le> l" and "l + 3 \<le> length buf"
  shows "\<exists>buf'. eQP_shift (buf, l) j k = Inr buf' \<and> length buf' = length buf \<and>
    (\<forall>i < length buf. buf' ! i = (if l + 3 - j \<le> i \<and> i + k \<le> l + 3 then buf ! (i - 3) else buf ! i))"
  using assms
proof (induction "Suc j - k" arbitrary: k buf)
  case 0
  then show ?case by (auto simp: eQP_shift.simps)
next
  case (Suc n)
  then have k: "k \<le> j" by simp
  let ?b = "buf[l + 3 - k := buf ! (l - k)]"
  have rd: "idxi buf (int l - int k) = Inr (buf ! (l - k))"
    using k Suc.prems by (simp add: idxi_def nat_diff_distrib)
  have pos: "nat (int l - int k + 3) = l + 3 - k" using k Suc.prems by simp
  have st: "setAt buf (int l - int k + 3) (buf ! (l - k)) = Inr ?b"
    using k Suc.prems by (simp add: setAt_def pos)
  have n: "n = Suc j - Suc k" using Suc.hyps(2) by simp
  from Suc.hyps(1) [OF n, of ?b] Suc.prems k
  obtain buf' where b': "eQP_shift (?b, l) j (Suc k) = Inr buf'" "length buf' = length buf"
    "\<forall>i < length buf. buf' ! i = (if l + 3 - j \<le> i \<and> i + Suc k \<le> l + 3 then ?b ! (i - 3) else ?b ! i)"
    by auto
  have "eQP_shift (buf, l) j k = Inr buf'"
    using k rd st b'(1) by (subst eQP_shift.simps) simp
  moreover have "buf' ! i = (if l + 3 - j \<le> i \<and> i + k \<le> l + 3 then buf ! (i - 3) else buf ! i)"
    if "i < length buf" for i
  proof -
    consider "i = l + 3 - k" | "i \<noteq> l + 3 - k" "l + 3 - j \<le> i" "i + k \<le> l + 3"
      | "i \<noteq> l + 3 - k" "\<not> (l + 3 - j \<le> i \<and> i + k \<le> l + 3)" by blast
    then show ?thesis
    proof cases
      case 1
      with that b'(3) k Suc.prems show ?thesis by simp
    next
      case 2
      then have "i + Suc k \<le> l + 3" and "i - 3 \<noteq> l + 3 - k" using k Suc.prems by linarith+
      with 2 that b'(3) show ?thesis by simp
    next
      case 3
      then have "\<not> (l + 3 - j \<le> i \<and> i + Suc k \<le> l + 3)" by linarith
      with 3 that b'(3) show ?thesis by auto
    qed
  qed
  ultimately show ?case using b'(2) by blast
qed

text \<open>Opening a gap of three bytes at position \<open>n\<close> and filling it, seen on the bytes in use.\<close>

lemma gap_filled:
  assumes "n \<le> l" and "l + 3 \<le> length buf" and "length buf1 = length buf"
    and shifted: "\<And>i. i < length buf \<Longrightarrow>
      buf1 ! i = (if n + 3 \<le> i \<and> i < l + 3 then buf ! (i - 3) else buf ! i)"
  shows "take (l + 3) (buf1[n := x, n + 1 := y, n + 2 := z]) =
    take n buf @ [x, y, z] @ drop n (take l buf)"
proof (rule nth_equalityI)
  show "length (take (l + 3) (buf1[n := x, n + 1 := y, n + 2 := z])) =
    length (take n buf @ [x, y, z] @ drop n (take l buf))"
    using assms by simp
  fix i
  assume "i < length (take (l + 3) (buf1[n := x, n + 1 := y, n + 2 := z]))"
  with assms have i: "i < l + 3" "i < length buf" by simp_all
  show "take (l + 3) (buf1[n := x, n + 1 := y, n + 2 := z]) ! i =
    (take n buf @ [x, y, z] @ drop n (take l buf)) ! i"
  proof (cases "n + 3 \<le> i")
    case True
    then obtain d where d: "i = n + 3 + d" using le_Suc_ex by blast
    with i assms(2) have "n + d < l" by simp
    with True d i assms(1-3) shifted [of i] show ?thesis
      by (simp add: nth_append add.commute)
  next
    case False
    then consider "i < n" | "i = n" | "i = n + 1" | "i = n + 2" by linarith
    then show ?thesis
      using i assms(1-3) shifted [of i] by cases (simp_all add: nth_append)
  qed
qed

lemma eQP_soft_ok:
  assumes h: "holds b out" and room: "snd b + 3 \<le> length (fst b)" and c: "c \<le> snd b"
  shows "\<exists>b'. eQP_soft b c = Inr (b', snd (qpSoft out c)) \<and> holds b' (fst (qpSoft out c)) \<and>
    length (fst b') = length (fst b) \<and> snd (qpSoft out c) \<le> snd b'"
proof (cases "72 < c")
  case False
  with h c show ?thesis by (simp add: eQP_soft_def qpSoft_def)
next
  case True
  obtain buf l where b: "b = (buf, l)" by fastforce
  let ?w = "length (takeWhile (\<lambda>x. x \<noteq> CHR '' '') (rev out))"
  define j where "j = qpSoftAt out"
  define r where "r = min 10 (Suc ?w)"
  have len: "length out = l" and out: "out = take l buf"
    using holds_length [OF h] h b by (simp_all add: holds_def)
  have l: "72 < l" using c True b by simp
  have scan: "eQP_scan b 1 = Inr r"
    using eQP_scan_from [of buf l out 1] h l b by (simp add: r_def)
  have j: "(if 10 \<le> r then 0 else r - 1) = j"
    by (auto simp: r_def j_def qpSoftAt_def Let_def)
  have "j < 9" by (simp add: j_def qpSoftAt_def Let_def)
  with l have jl: "j \<le> l" by linarith
  then obtain n where n: "l = n + j" by (metis le_add_diff_inverse2)
  have room': "l + 3 \<le> length buf" using room b by simp
  obtain buf1 where b1: "eQP_shift (buf, l) j 1 = Inr buf1" "length buf1 = length buf"
    "\<And>i. i < length buf \<Longrightarrow> buf1 ! i = (if l + 3 - j \<le> i \<and> i + 1 \<le> l + 3 then buf ! (i - 3) else buf ! i)"
    using eQP_shift_from [of 1 j l buf] jl room' by auto
  define buf2 where "buf2 = buf1[n := CHR ''='', n + 1 := CR, n + 2 := LF]"
  have st: "setAt buf' (int n + int d) x = Inr (buf'[n + d := x])"
    if "d < 3" and "length buf' = length buf" for buf' d x
    using that room' n by (simp add: setAt_def nat_add_distrib)
  have pos: "int l - int j = int n + int 0" "int l + 1 - int j = int n + int 1" "int l + 2 - int j = int n + int 2"
    by (simp_all add: n)
  have "eQP_soft b c =
      go_bind (eQP_shift b j 1) (\<lambda>buf.
        go_bind (setAt buf (int l - int j) (CHR ''='')) (\<lambda>buf.
        go_bind (setAt buf (int l + 1 - int j) CR) (\<lambda>buf.
        go_bind (setAt buf (int l + 2 - int j) LF) (\<lambda>buf. Inr ((buf, l + 3), j)))))"
    using True scan by (simp only: eQP_soft_def if_True go_bind_simps Let_def j b snd_conv)
  also have "\<dots> = Inr ((buf2, l + 3), j)"
    by (simp only: b b1(1) go_bind_simps pos st b1(2) length_list_update buf2_def) simp
  finally have soft: "eQP_soft b c = Inr ((buf2, l + 3), j)" .
  have "take (l + 3) buf2 = take n buf @ [CHR ''='', CR, LF] @ drop n (take l buf)"
    unfolding buf2_def using b1(2,3) room' n by (intro gap_filled) auto
  then have "take (l + 3) buf2 = take n out @ [CHR ''='', CR, LF] @ drop n out"
    using n out by simp
  moreover have "fst (qpSoft out c) = take n out @ [CHR ''='', CR, LF] @ drop n out" and "snd (qpSoft out c) = j"
    using True n len by (simp_all add: qpSoft_def Let_def j_def [symmetric])
  ultimately show ?thesis
    using soft room' b b1(2) by (simp add: holds_def buf2_def n)
qed

lemma length_hexPair [simp]: "length (hexPair c) = 3"
  by (simp add: hexPair_def)

lemma length_qpByte: "length (qpByte t u f c) \<le> 3"
  by (simp add: qpByte_def Let_def)

lemma length_qpSpace: "length (qpSpace out) \<le> length out + 2"
  by (cases out) (simp_all add: qpSpace_def hasSuffix_def)

lemma length_qpSoft: "length (fst (qpSoft out c)) \<le> length out + 3"
  by (simp add: qpSoft_def Let_def)

lemma eQP_loop_ok:
  assumes "holds b out" and "snd b + 6 * length s \<le> length (fst b)" and "c \<le> snd b"
  shows "\<exists>b'. eQP_loop s u f b c = Inr b' \<and> holds b' (qpEncode s u f out c)"
  using assms
proof (induction s u f out c arbitrary: b rule: qpEncode.induct)
  case (2 x xs u f out c)
  note h = 2(4) and room = 2(5) and c = 2(6)
  show ?case
  proof (cases "x = LF \<or> (x = CR \<and> hasPrefix xs [LF])")
    case eol: True
    obtain b1 where b1: "eQP_space b = Inr b1" "holds b1 (qpSpace out)" "length (fst b1) = length (fst b)"
      using eQP_space_ok [OF h] room by auto
    have l1: "snd b1 \<le> snd b + 2"
      using holds_length [OF b1(2)] holds_length [OF h] length_qpSpace [of out] by simp
    show ?thesis
    proof (cases "x = CR")
      case True
      with eol obtain ys where xs: "xs = LF # ys" by (auto simp: hasPrefix_iff)
      obtain b2 where b2: "emits b1 [CR, LF] = Inr b2" "holds b2 (qpSpace out @ [CR, LF])"
        "length (fst b2) = length (fst b)"
        using emits_ok [OF b1(2), of "[CR, LF]"] room l1 b1(3) by auto
      have l2: "snd b2 = snd b1 + 2"
        using holds_length [OF b2(2)] holds_length [OF b1(2)] by simp
      then have "snd b2 + 6 * length (drop 1 xs) \<le> length (fst b2)"
        using room l1 b2(3) xs by simp
      from 2(1) [OF eol True b2(2) this] eol True b1(1) b2(1) show ?thesis by auto
    next
      case False
      obtain b2 where b2: "emits b1 [LF] = Inr b2" "holds b2 (qpSpace out @ [LF])"
        "length (fst b2) = length (fst b)"
        using emits_ok [OF b1(2), of "[LF]"] room l1 b1(3) by auto
      have "snd b2 = snd b1 + 1"
        using holds_length [OF b2(2)] holds_length [OF b1(2)] by simp
      then have "snd b2 + 6 * length xs \<le> length (fst b2)"
        using room l1 b2(3) by simp
      from 2(2) [OF eol False b2(2) this] eol False b1(1) b2(1) show ?thesis by auto
    qed
  next
    case False
    obtain out1 c1 where q: "qpSoft out c = (out1, c1)" by fastforce
    obtain b1 where b1: "eQP_soft b c = Inr (b1, c1)" "holds b1 out1" "length (fst b1) = length (fst b)" "c1 \<le> snd b1"
      using eQP_soft_ok [OF h _ c] room q by auto
    have l1: "snd b1 \<le> snd b + 3"
      using holds_length [OF b1(2)] holds_length [OF h] length_qpSoft [of out c] q by simp
    let ?e = "qpByte (x # xs) u f c1"
    obtain b2 where b2: "emits b1 ?e = Inr b2" "holds b2 (out1 @ ?e)" "length (fst b2) = length (fst b)"
      using emits_ok [OF b1(2), of ?e] room l1 b1(3) length_qpByte [of "x # xs" u f c1] by auto
    have l2: "snd b2 = snd b1 + length ?e"
      using holds_length [OF b2(2)] holds_length [OF b1(2)] by simp
    then have "snd b2 + 6 * length xs \<le> length (fst b2)"
      using room l1 b2(3) length_qpByte [of "x # xs" u f c1] by simp
    from 2(3) [OF False q [symmetric] refl refl b2(2) this] l2 b1(4) False b1(1) b2(1) q
    show ?thesis by (auto simp: Let_def)
  qed
qed simp

lemma eQP_returns: "eQP s u f = Inr (qpEncode s u f [] 0)"
proof (cases "s = []")
  case False
  have h: "holds (replicate (length s * 6) (CHR 0x00), 0) []" by (simp add: holds_def)
  obtain b where b: "eQP_loop s u f (replicate (length s * 6) (CHR 0x00), 0) 0 = Inr b"
    "holds b (qpEncode s u f [] 0)"
    using eQP_loop_ok [OF h, of s 0 u f] by auto
  with False show ?thesis
    by (cases b) (simp add: eQP_def holds_def)
qed (simp add: eQP_def)


section \<open>Round trip\<close>

text \<open>
  \<open>decodesTo u out p\<close>: \<open>out\<close> is a sequence of plain bytes, hexadecimal pairs and soft line breaks
  that stands for \<open>p\<close>.
\<close>

inductive decodesTo :: "bool \<Rightarrow> string \<Rightarrow> string \<Rightarrow> bool" for u :: bool where
  empty: "decodesTo u [] []"
| plain: "decodesTo u out p \<Longrightarrow> x \<noteq> CHR ''='' \<Longrightarrow>
    decodesTo u (out @ [x]) (p @ [if u \<and> x = CHR ''_'' then CHR '' '' else x])"
| pair: "decodesTo u out p \<Longrightarrow> decodesTo u (out @ hexPair c) (p @ [c])"
| soft: "decodesTo u out p \<Longrightarrow> decodesTo u (out @ [CHR ''='', CR, LF]) p"

lemma hexVal_digit_all:
  "map hexVal qphexdigits = map Some [0..<16]"
  by (simp add: qphexdigits_def hexVal_def isDigit_def upt_rec)

lemma hexVal_digit: "n < 16 \<Longrightarrow> hexVal (qphexdigits ! n) = Some n"
proof -
  assume n: "n < 16"
  have "length qphexdigits = 16" by (simp add: qphexdigits_def)
  with n have "hexVal (qphexdigits ! n) = map hexVal qphexdigits ! n" by simp
  also have "\<dots> = Some n" using n by (simp add: hexVal_digit_all del: upt_rec_numeral)
  finally show ?thesis .
qed

lemma hexVal_not_blank: "hexVal x = Some n \<Longrightarrow> x \<notin> {CHR '' '', CHR 0x09, CR, LF, CHR ''=''}"
  by (auto simp: hexVal_def isDigit_def)

lemma hexPair_shape:
  obtains a b where "hexPair c = [CHR ''='', a, b]" and "parseHex2 a b = Some c"
    and "a \<notin> {CHR '' '', CHR 0x09, CR, LF, CHR ''=''}" and "b \<notin> {CHR '' '', CHR 0x09, CR, LF, CHR ''=''}"
proof -
  have hi: "of_char c div 16 < (16::nat)" and lo: "of_char c mod 16 < (16::nat)"
    by (simp_all add: less_mult_imp_div_less)
  have "char_of (16 * (of_char c div 16) + of_char c mod 16 :: nat) = c" by simp
  then show ?thesis
    using that [of "qphexdigits ! (of_char c div 16)" "qphexdigits ! (of_char c mod 16)"]
      hexVal_digit [OF hi] hexVal_digit [OF lo]
      hexVal_not_blank [OF hexVal_digit [OF hi]] hexVal_not_blank [OF hexVal_digit [OF lo]]
    by (simp add: hexPair_def parseHex2_def)
qed

lemma deQP_plain: "x \<noteq> CHR ''='' \<Longrightarrow>
    deQP (x # t) u = (if u \<and> x = CHR ''_'' then CHR '' '' else x) # deQP t u"
  by (simp add: deQP.simps)

lemma deQP_soft: "deQP (CHR ''='' # CR # LF # t) u = deQP t u"
  by (simp add: deQP.simps(2) hasPrefix_def)

lemma deQP_pair: "deQP (hexPair c @ t) u = c # deQP t u"
proof -
  obtain a b where "hexPair c = [CHR ''='', a, b]" and "parseHex2 a b = Some c"
    and "a \<notin> {CHR '' '', CHR 0x09, CR, LF, CHR ''=''}"
    by (rule hexPair_shape)
  then show ?thesis by (simp add: deQP.simps(2) hasPrefix_def)
qed

lemma decodesTo_deQP: "decodesTo u out p \<Longrightarrow> deQP (out @ t) u = p @ deQP t u"
  by (induction arbitrary: t rule: decodesTo.induct)
     (simp_all add: deQP_plain deQP_pair deQP_soft)

text \<open>A space in the encoded text is always a plain byte: it can be dropped from the end, and a soft
  line break can go after it.\<close>

lemma decodesTo_drop_space:
  assumes "decodesTo u (out @ '' '') p"
  obtains q where "p = q @ '' ''" and "decodesTo u out q"
  using assms
proof cases
  case (pair out' q c)
  obtain a b where "hexPair c = [CHR ''='', a, b]" and "b \<notin> {CHR '' '', CHR 0x09, CR, LF, CHR ''=''}"
    by (rule hexPair_shape)
  with pair(1) have False by (auto dest: arg_cong [where f = last])
  then show ?thesis ..
next
  case (soft out')
  then have False by (auto dest: arg_cong [where f = last])
  then show ?thesis ..
qed (use that in auto)

lemma append_tail_split:
  assumes "o1 @ CHR '' '' # o2 = out @ w" and "CHR '' '' \<notin> set w"
  shows "\<exists>o3. o2 = o3 @ w \<and> out = o1 @ CHR '' '' # o3"
  using assms
proof (induction w arbitrary: o2 rule: rev_induct)
  case (snoc x w)
  then have "x \<noteq> CHR '' ''" by auto
  with snoc.prems(1) have "o2 \<noteq> []" by (cases o2 rule: rev_cases) auto
  then obtain o4 y where o2: "o2 = o4 @ [y]" by (cases o2 rule: rev_cases) auto
  with snoc.prems(1) have y: "y = x" and "o1 @ CHR '' '' # o4 = out @ w" by simp_all
  with snoc.IH [of o4] snoc.prems(2) obtain o3 where "o4 = o3 @ w" and "out = o1 @ CHR '' '' # o3" by auto
  with o2 y show ?case by auto
qed simp

lemma decodesTo_insert_soft:
  assumes "decodesTo u out p" and "out = o1 @ CHR '' '' # o2"
  shows "decodesTo u (o1 @ CHR '' '' # [CHR ''='', CR, LF] @ o2) p"
  using assms
proof (induction arbitrary: o2 rule: decodesTo.induct)
  case (plain out p x)
  show ?case
  proof (cases "o2 = []")
    case True
    with plain have "decodesTo u (out @ [x]) (p @ [if u \<and> x = CHR ''_'' then CHR '' '' else x])"
      by (intro decodesTo.plain)
    from decodesTo.soft [OF this] True plain.prems show ?thesis by simp
  next
    case False
    then obtain o3 where o2: "o2 = o3 @ [x]"
      using plain.prems by (cases o2 rule: rev_cases) auto
    with plain.prems have "out = o1 @ CHR '' '' # o3" by simp
    from decodesTo.plain [OF plain.IH [OF this] plain.hyps(2)] o2 show ?thesis by simp
  qed
next
  case (pair out p c)
  obtain a b where hp: "hexPair c = [CHR ''='', a, b]"
    "a \<notin> {CHR '' '', CHR 0x09, CR, LF, CHR ''=''}" "b \<notin> {CHR '' '', CHR 0x09, CR, LF, CHR ''=''}"
    by (rule hexPair_shape)
  then have "CHR '' '' \<notin> set (hexPair c)" by auto
  with append_tail_split [OF pair.prems [symmetric]] obtain o3
    where "o2 = o3 @ hexPair c" and "out = o1 @ CHR '' '' # o3" by blast
  with decodesTo.pair [OF pair.IH] show ?case by simp
next
  case (soft out p)
  have "CHR '' '' \<notin> set [CHR ''='', CR, LF]" by simp
  with append_tail_split [OF soft.prems [symmetric]] obtain o3
    where "o2 = o3 @ [CHR ''='', CR, LF]" and "out = o1 @ CHR '' '' # o3" by blast
  with decodesTo.soft [OF soft.IH] show ?case by simp
qed simp

lemma last_split:
  assumes "length (takeWhile P (rev out)) < length out"
  obtains o1 x where "out = o1 @ x # rev (takeWhile P (rev out))" and "\<not> P x"
proof -
  let ?w = "takeWhile P (rev out)"
  have "length (rev out) = length ?w + length (dropWhile P (rev out))"
    by (metis length_append takeWhile_dropWhile_id)
  with assms obtain x ys where dw: "dropWhile P (rev out) = x # ys"
    by (cases "dropWhile P (rev out)") auto
  then have "\<not> P x" using hd_dropWhile [of P "rev out"] by simp
  moreover have "rev out = ?w @ x # ys" using takeWhile_dropWhile_id [of P "rev out"] dw by simp
  from arg_cong [OF this, of rev] have "out = rev ys @ x # rev ?w" by simp
  ultimately show ?thesis using that by blast
qed

lemma decodesTo_qpSoft:
  assumes d: "decodesTo u out p" and c: "c \<le> length out"
  shows "decodesTo u (fst (qpSoft out c)) p"
proof -
  let ?w = "takeWhile (\<lambda>x. x \<noteq> CHR '' '') (rev out)"
  show ?thesis
  proof (cases "72 < c \<and> length ?w < 9")
    case True
    with c have "length ?w < length out" by linarith
    then obtain o1 x where out: "out = o1 @ x # rev ?w" and x: "\<not> x \<noteq> CHR '' ''"
      by (rule last_split)
    have q: "qpSoftAt out = length ?w" using True by (simp add: qpSoftAt_def)
    have len: "length out - length ?w = length (o1 @ [x])"
      using arg_cong [OF out, of length] by simp
    have "take (length out - length ?w) out = o1 @ [x]" and "drop (length out - length ?w) out = rev ?w"
      unfolding len by (subst out, simp)+
    then have "fst (qpSoft out c) = o1 @ CHR '' '' # [CHR ''='', CR, LF] @ rev ?w"
      using True x by (simp add: qpSoft_def Let_def q)
    moreover have "out = o1 @ CHR '' '' # rev ?w" using out x by simp
    ultimately show ?thesis using decodesTo_insert_soft [OF d] by simp
  next
    case False
    then have "\<not> 72 < c \<or> qpSoftAt out = 0" by (auto simp: qpSoftAt_def)
    then show ?thesis
      using d decodesTo.soft [OF d] by (auto simp: qpSoft_def Let_def)
  qed
qed

lemma decodesTo_qpSpace: "decodesTo u out p \<Longrightarrow> decodesTo u (qpSpace out) p"
proof (cases "hasSuffix out '' ''")
  case True
  assume d: "decodesTo u out p"
  from True obtain o1 where o1: "out = o1 @ '' ''" by (auto simp: hasSuffix_iff)
  with d obtain q where "p = q @ '' ''" and "decodesTo u o1 q" by (auto elim: decodesTo_drop_space)
  with decodesTo.pair [of u o1 q "CHR '' ''"] have "decodesTo u (o1 @ hexPair (CHR '' '')) p" by simp
  moreover have "hexPair (CHR '' '') = ''=20''" by (simp add: hexPair_def qphexdigits_def)
  ultimately show ?thesis using True o1 by (simp add: qpSpace_def)
qed (simp add: qpSpace_def)

lemma qpByte_shape:
  obtains "qpByte (x # xs) u f c = hexPair x"
    | "u" "x = CHR '' ''" "qpByte (x # xs) u f c = [CHR ''_'']"
    | "x \<noteq> CHR ''=''" "x \<noteq> CR" "x \<noteq> LF" "\<not> (u \<and> x = CHR ''_'')" "qpByte (x # xs) u f c = [x]"
proof (cases "u \<and> x = CHR '' ''")
  case True
  then show ?thesis using that(2) by (simp add: qpByte_def)
next
  case False
  have "\<not> (isDigit (CHR ''_'') \<or> isLower (CHR ''_'') \<or> isUpper (CHR ''_''))" 
    by (simp add: isDigit_def isLower_def isUpper_def)
  show ?thesis
  proof (cases "qpByte (x # xs) u f c = hexPair x")
    case no: False
    with False have u: "\<not> (u \<and> \<not> (isDigit x \<or> isLower x \<or> isUpper x))"
      and plain: "(CHR '' '' \<le> x \<and> x < CHR 0x7F \<and> x \<noteq> CHR ''='') \<or> x = CHR 0x09"
      and q: "qpByte (x # xs) u f c = [x]"
      by (auto simp: qpByte_def Let_def split: if_splits)
    from plain have "x \<noteq> CHR ''=''" and "x \<noteq> CR" and "x \<noteq> LF" by auto
    moreover have "\<not> (u \<and> x = CHR ''_'')"
      using u \<open>\<not> (isDigit (CHR ''_'') \<or> isLower (CHR ''_'') \<or> isUpper (CHR ''_''))\<close> by blast
    ultimately show ?thesis using that(3) q by blast
  qed (rule that(1))
qed

lemma decodesTo_plain:
  "decodesTo u out p \<Longrightarrow> x \<noteq> CHR ''='' \<Longrightarrow> \<not> (u \<and> x = CHR ''_'') \<Longrightarrow>
    decodesTo u (out @ [x]) (p @ [x])"
  using decodesTo.plain [of u out p x] by (simp only: if_False simp_thms)

lemma decodesTo_qpByte:
  assumes d: "decodesTo u out p"
  shows "decodesTo u (out @ qpByte (x # xs) u f c) (p @ [x])"
  by (rule qpByte_shape [of x xs u f c])
    (use decodesTo.pair [OF d, of x] decodesTo_plain [OF d, of x] decodesTo.plain [OF d, of "CHR ''_''"] in auto)

lemma decodesTo_eol:
  "decodesTo u out p \<Longrightarrow> decodesTo u (out @ [LF]) (p @ [LF])"
  "decodesTo u out p \<Longrightarrow> decodesTo u (out @ [CR, LF]) (p @ [CR, LF])"
  using decodesTo.plain [of u out p LF] decodesTo.plain [of u out p CR]
    decodesTo.plain [of u "out @ [CR]" "p @ [CR]" LF] by auto

lemma decodesTo_qpEncode:
  "decodesTo u out p \<Longrightarrow> c \<le> length out \<Longrightarrow> decodesTo u (qpEncode s u f out c) (p @ s)"
proof (induction s u f out c arbitrary: p rule: qpEncode.induct)
  case (2 x xs u f out c)
  show ?case
  proof (cases "x = LF \<or> (x = CR \<and> hasPrefix xs [LF])")
    case eol: True
    show ?thesis
    proof (cases "x = CR")
      case True
      with eol obtain ys where "xs = LF # ys" by (auto simp: hasPrefix_iff)
      with 2(1) [OF eol True decodesTo_eol(2) [OF decodesTo_qpSpace [OF 2(4)]]] eol True
      show ?thesis by simp
    next
      case False
      with 2(2) [OF eol False decodesTo_eol(1) [OF decodesTo_qpSpace [OF 2(4)]]] eol
      show ?thesis by simp
    qed
  next
    case False
    obtain out1 c1 where q: "qpSoft out c = (out1, c1)" by fastforce
    have "c1 \<le> length out1"
      using q 2(5) by (auto simp: qpSoft_def Let_def qpSoftAt_def split: if_splits)
    moreover have "decodesTo u out1 p" using decodesTo_qpSoft [OF 2(4,5)] q by simp
    from decodesTo_qpByte [OF this] have "decodesTo u (out1 @ qpByte (x # xs) u f c1) (p @ [x])" .
    ultimately have "decodesTo u (qpEncode xs u f (out1 @ qpByte (x # xs) u f c1)
        (c1 + length (qpByte (x # xs) u f c1))) ((p @ [x]) @ xs)"
      using 2(3) [OF False q [symmetric] refl refl, of "p @ [x]"] by simp
    then show ?thesis using False q by (auto simp: Let_def)
  qed
qed simp

lemma eQP_decodes: "\<exists>out. eQP s u f = Inr out \<and> deQP out u = s"
proof -
  have "decodesTo u (qpEncode s u f [] 0) s"
    using decodesTo_qpEncode [where u = u and out = "[]" and p = "[]" and c = 0] decodesTo.empty by simp
  from decodesTo_deQP [OF this, of "[]"] eQP_returns show ?thesis by auto
qed

text \<open>
  C4. Decoding what \<open>eQP\<close> returns gives the original string back, in both variants (with and without
  underscores for spaces) and whether or not lines that look like \<open>From\<close> or a boundary are escaped.
\<close>

theorem deQP_eQP: "\<exists>out. eQP s u f = Inr out \<and> deQP out u = s"
  by (rule eQP_decodes)

section \<open>Line length\<close>

text \<open>The longest run of bytes without CR or LF in a string, \<open>k\<close> the length of the run before it.\<close>

abbreviation isEol :: "char \<Rightarrow> bool" where
  "isEol x \<equiv> x = CR \<or> x = LF"

fun maxRun :: "nat \<Rightarrow> string \<Rightarrow> nat" where
  "maxRun k [] = k"
| "maxRun k (x # xs) = (if isEol x then max k (maxRun 0 xs) else maxRun (Suc k) xs)"

lemma maxRun_eol: "isEol e \<Longrightarrow> maxRun k (p @ e # q) = max (maxRun k (p @ [e])) (maxRun 0 q)"
  by (induction p arbitrary: k) auto

lemma maxRun_flat: "\<forall>x\<in>set r. \<not> isEol x \<Longrightarrow> maxRun k r = k + length r"
  by (induction r arbitrary: k) auto

lemma maxRun_flat_eol:
  "\<forall>x\<in>set r. \<not> isEol x \<Longrightarrow> isEol e \<Longrightarrow> maxRun k (r @ e # q) = max (k + length r) (maxRun 0 q)"
  by (induction r arbitrary: k) auto

text \<open>
  The state of the encoder at a byte: \<open>r\<close> is the current line, \<open>p\<close> the finished lines. A line that ends
  in a space leaves room for the two bytes by which \<open>=20\<close> is longer.
\<close>

definition lineInv :: "string \<Rightarrow> nat \<Rightarrow> bool" where
  "lineInv out c \<longleftrightarrow> (\<exists>p r. out = p @ r \<and> (p = [] \<or> isEol (last p)) \<and> (\<forall>x\<in>set r. \<not> isEol x) \<and>
     c = length r \<and> maxRun 0 p \<le> 76 \<and> c \<le> 75 \<and> (r \<noteq> [] \<and> last r = CHR '' '' \<longrightarrow> c \<le> 73))"

lemma lineInvE:
  assumes "lineInv out c"
  obtains p r where "out = p @ r" "p = [] \<or> isEol (last p)" "\<forall>x\<in>set r. \<not> isEol x"
    "c = length r" "maxRun 0 p \<le> 76" "c \<le> 75" "r \<noteq> [] \<Longrightarrow> last r = CHR '' '' \<Longrightarrow> c \<le> 73"
  using assms by (auto simp: lineInv_def)

lemma maxRun_finished:
  "p = [] \<or> isEol (last p) \<Longrightarrow> maxRun 0 (p @ q) = max (maxRun 0 p) (maxRun 0 q)"
proof (cases p rule: rev_cases)
  case (snoc p0 e)
  then show "p = [] \<or> isEol (last p) \<Longrightarrow> maxRun 0 (p @ q) = max (maxRun 0 p) (maxRun 0 q)"
    using maxRun_eol [of e 0 p0 q] by simp
qed simp

lemma lineInv_maxRun: "lineInv out c \<Longrightarrow> maxRun 0 out \<le> 76"
  by (elim lineInvE) (simp add: maxRun_finished maxRun_flat)

lemma lineInv_close:
  assumes "p = [] \<or> isEol (last p)" "\<forall>x\<in>set r. \<not> isEol x" "maxRun 0 p \<le> 76" "length r \<le> 76"
    "e \<noteq> []" "\<forall>x\<in>set e. isEol x"
  shows "maxRun 0 (p @ r @ e) \<le> 76" and "isEol (last (p @ r @ e))"
proof -
  have e0: "maxRun 0 es = 0" if "\<forall>x\<in>set es. isEol x" for es
    using that by (induction es) auto
  obtain y es where "e = y # es" using assms(5) by (cases e) auto
  then have "maxRun 0 (r @ e) = length r" using assms(2,6) e0 [of es] by (simp add: maxRun_flat_eol)
  with assms show "maxRun 0 (p @ r @ e) \<le> 76" by (simp add: maxRun_finished)
  show "isEol (last (p @ r @ e))" using assms(5,6) last_in_set [of e] by auto
qed

lemma lineInv_eol:
  assumes "lineInv out c" "e \<noteq> []" "\<forall>x\<in>set e. isEol x"
  shows "lineInv (qpSpace out @ e) 0"
proof -
  obtain p r where out: "out = p @ r" and p: "p = [] \<or> isEol (last p)" and r: "\<forall>x\<in>set r. \<not> isEol x"
    and c: "c = length r" "maxRun 0 p \<le> 76" "c \<le> 75" and sp: "r \<noteq> [] \<Longrightarrow> last r = CHR '' '' \<Longrightarrow> c \<le> 73"
    by (rule lineInvE [OF assms(1)]) blast
  obtain r' where r': "qpSpace out = p @ r'" "\<forall>x\<in>set r'. \<not> isEol x" "length r' \<le> 76"
  proof (cases "hasSuffix out '' ''")
    case True
    then obtain w where w: "p @ r = w @ '' ''" using out by (auto simp: hasSuffix_iff)
    with p have "r \<noteq> []" by auto
    with w obtain r0 where r0: "r = r0 @ '' ''" by (cases r rule: rev_cases) auto
    with True out r sp c show ?thesis
      by (intro that [of "r0 @ ''=20''"]) (auto simp: qpSpace_def butlast_append)
  next
    case False
    with out r c show ?thesis by (intro that [of r]) (auto simp: qpSpace_def)
  qed
  with lineInv_close [OF p r'(2) c(2) r'(3) assms(2,3)] show ?thesis
    unfolding lineInv_def by (intro exI [of _ "p @ r' @ e"] exI [of _ "[]"]) simp
qed

lemma lineInv_soft:
  assumes "lineInv out c" and q: "qpSoft out c = (out1, c1)"
  obtains p r where "out1 = p @ r" "p = [] \<or> isEol (last p)" "\<forall>x\<in>set r. \<not> isEol x"
    "c1 = length r" "maxRun 0 p \<le> 76" "c1 \<le> 72"
proof -
  obtain p r where out: "out = p @ r" and p: "p = [] \<or> isEol (last p)" and r: "\<forall>x\<in>set r. \<not> isEol x"
    and c: "c = length r" "maxRun 0 p \<le> 76" "c \<le> 75"
    by (rule lineInvE [OF assms(1)]) blast
  show ?thesis
  proof (cases "72 < c")
    case False
    with q out c have "out1 = p @ r" "c1 = length r" "c1 \<le> 72" by (simp_all add: qpSoft_def)
    with p r c show ?thesis by (intro that [of p r])
  next
    case True
    define j where "j = qpSoftAt out"
    have j: "j < 9" by (simp add: j_def qpSoftAt_def Let_def)
    define n where "n = length r - j"
    have n: "length out - j = length p + n" using j True c out by (simp add: n_def)
    have o1: "out1 = (p @ (take n r @ ''='') @ [CR, LF]) @ drop n r" and c1: "c1 = j"
      using q True by (simp_all add: qpSoft_def Let_def j_def [symmetric] n) (simp_all add: out)
    have flat: "\<forall>x\<in>set (take n r @ ''=''). \<not> isEol x" using r by (auto dest: in_set_takeD)
    have len: "length (take n r @ ''='') \<le> 76" using c by simp
    have "maxRun 0 (p @ (take n r @ ''='') @ [CR, LF]) \<le> 76"
      by (rule lineInv_close(1) [OF p flat c(2) len]) auto
    moreover have "length (drop n r) = j" using j True c by (simp add: n_def)
    moreover have "\<forall>x\<in>set (drop n r). \<not> isEol x" using r by (auto dest: in_set_dropD)
    moreover have "isEol (last (p @ (take n r @ ''='') @ [CR, LF]))" by simp
    ultimately show ?thesis using o1 c1 j
      by (intro that [of "p @ (take n r @ ''='') @ [CR, LF]" "drop n r"]) simp_all
  qed
qed

lemma qphexdigits_flat: "n < 16 \<Longrightarrow> \<not> isEol (qphexdigits ! n)"
proof -
  assume "n < 16"
  moreover have "length qphexdigits = 16" by (simp add: qphexdigits_def)
  ultimately have "qphexdigits ! n \<in> set qphexdigits" by (intro nth_mem) simp
  moreover have "\<forall>x\<in>set qphexdigits. \<not> isEol x" by (simp add: qphexdigits_def)
  ultimately show ?thesis by blast
qed

lemma hexPair_flat: "y \<in> set (hexPair x) \<Longrightarrow> \<not> isEol y"
proof -
  have "of_char x div 16 < (16 :: nat)" using nat_of_char_less_256 [of x] by linarith
  then show "y \<in> set (hexPair x) \<Longrightarrow> \<not> isEol y"
    using qphexdigits_flat [of "of_char x div 16"] qphexdigits_flat [of "of_char x mod 16"]
    by (auto simp: hexPair_def)
qed

lemma qpByte_flat: "y \<in> set (qpByte (x # xs) u f c) \<Longrightarrow> \<not> isEol y"
proof (rule qpByte_shape [of x xs u f c])
  assume y: "y \<in> set (qpByte (x # xs) u f c)"
  { assume "qpByte (x # xs) u f c = hexPair x" with y hexPair_flat [of y x] show ?thesis by simp }
  { assume "qpByte (x # xs) u f c = [CHR ''_'']" with y show ?thesis by simp }
  { assume "qpByte (x # xs) u f c = [x]" "x \<noteq> CR" "x \<noteq> LF" with y show ?thesis by simp }
qed

lemma qpByte_space:
  fixes x xs u f c
  defines "e \<equiv> qpByte (x # xs) u f c"
  shows "e \<noteq> []" and "last e = CHR '' '' \<Longrightarrow> length e = 1"
proof -
  have "of_char x mod 16 < (16 :: nat)" by simp
  from hexVal_not_blank [OF hexVal_digit [OF this]]
  have h: "last (hexPair x) \<noteq> CHR '' ''" by (simp add: hexPair_def)
  have "e = hexPair x \<or> (\<exists>y. e = [y])"
    unfolding e_def by (rule qpByte_shape [of x xs u f c]) blast+
  with h show "e \<noteq> []" and "last e = CHR '' '' \<Longrightarrow> length e = 1"
    by (auto simp: hexPair_def)
qed

lemma lineInv_byte:
  assumes "lineInv out c" and q: "qpSoft out c = (out1, c1)"
  shows "lineInv (out1 @ qpByte (x # xs) u f c1) (c1 + length (qpByte (x # xs) u f c1))"
proof -
  define e where "e = qpByte (x # xs) u f c1"
  have e: "length e \<le> 3" "e \<noteq> []" "last e = CHR '' '' \<Longrightarrow> length e = 1" "\<And>y. y \<in> set e \<Longrightarrow> \<not> isEol y"
    unfolding e_def by (rule length_qpByte, rule qpByte_space, erule qpByte_space, erule qpByte_flat)
  obtain p r where out1: "out1 = p @ r" "p = [] \<or> isEol (last p)" "\<forall>x\<in>set r. \<not> isEol x"
    "c1 = length r" "maxRun 0 p \<le> 76" "c1 \<le> 72"
    by (rule lineInv_soft [OF assms])
  have flat: "\<forall>y\<in>set (r @ e). \<not> isEol y" using out1(3) e(4) by auto
  have "last (r @ e) = CHR '' '' \<longrightarrow> c1 + length e \<le> 73" using e out1(6) by simp
  then have "lineInv (out1 @ e) (c1 + length e)"
    unfolding lineInv_def
    by (intro exI [of _ p] exI [of _ "r @ e"] conjI) (use out1 e(1) flat in simp_all)
  then show ?thesis by (simp only: e_def)
qed

lemma lineInv_qpEncode: "lineInv out c \<Longrightarrow> maxRun 0 (qpEncode s u f out c) \<le> 76"
proof (induction s u f out c rule: qpEncode.induct)
  case (2 x xs u f out c)
  show ?case
  proof (cases "x = LF \<or> (x = CR \<and> hasPrefix xs [LF])")
    case eol: True
    show ?thesis
      using 2(1) [OF eol] 2(2) [OF eol] lineInv_eol [OF 2(4), of "[CR, LF]"] lineInv_eol [OF 2(4), of "[LF]"]
        eol by (cases "x = CR") simp_all
  next
    case False
    obtain out1 c1 where q: "qpSoft out c = (out1, c1)" by fastforce
    from 2(3) [OF False q [symmetric] refl refl] lineInv_byte [OF 2(4) q] False q
    show ?thesis by (auto simp: Let_def)
  qed
qed (simp add: lineInv_maxRun)

text \<open>
  C21. No line of the output of \<open>eQP\<close> has more than 76 bytes before its line end, whatever the length of the
  lines of the input: the limit of RFC 2045 section 6.7.
\<close>

theorem eQP_lines: "\<exists>out. eQP s u f = Inr out \<and> maxRun 0 out \<le> 76"
proof -
  have "lineInv [] 0" by (simp add: lineInv_def)
  from lineInv_qpEncode [OF this, of s u f] eQP_returns show ?thesis by auto
qed

end
