(* ===== verification/Base64.thy ===== *)
theory Base64
  imports GoLib
begin

unbundle bit_operations_syntax

text \<open>
  The base-64 codec (\<open>strings.go\<close>: \<open>from64\<close>, \<open>de64\<close>, \<open>to64\<close>, \<open>e64\<close>). Bytes are \<open>8 word\<close> values, with
  the shifts, masks and wrapping additions of the source.
\<close>

section \<open>Tables\<close>

definition from64 :: "8 word list" where
  "from64 = [
    64, 99, 99, 99, 99, 99, 99, 99,
    65, 99, 65, 99, 99, 65, 99, 99,
    99, 99, 99, 99, 99, 99, 99, 99,
    99, 99, 99, 99, 99, 99, 99, 99,

    99, 99, 99, 99, 99, 99, 99, 99,
    99, 99, 99, 62, 99, 99, 99, 63,
    52, 53, 54, 55, 56, 57, 58, 59,
    60, 61, 99, 99, 99, 64, 99, 99,

    99, 0, 1, 2, 3, 4, 5, 6,
    7, 8, 9, 10, 11, 12, 13, 14,
    15, 16, 17, 18, 19, 20, 21, 22,
    23, 24, 25, 99, 99, 99, 99, 99,

    99, 26, 27, 28, 29, 30, 31, 32,
    33, 34, 35, 36, 37, 38, 39, 40,
    41, 42, 43, 44, 45, 46, 47, 48,
    49, 50, 51, 99, 99, 99, 99, 99]"

definition to64 :: string where
  "to64 = ''ABCDEFGHIJKLMNOPQRSTUVWXYZabcdefghijklmnopqrstuvwxyz0123456789+/''"

section \<open>Decoding\<close>

text \<open>
  \<open>c = from64[c]\<close> for \<open>c <= 'z'\<close>; the table has 128 entries, so the read is in range. Larger bytes
  stay as they are.
\<close>

definition sextet :: "char \<Rightarrow> 8 word" where
  "sextet c = (if c \<le> CHR ''z'' then from64 ! of_char c else byte_of c)"

text \<open>The loop of \<open>de64\<close>, with its state \<open>decoded\<close> and \<open>m\<close>; \<open>done\<close> ends the recursion.\<close>

fun de64_loop :: "string \<Rightarrow> 8 word \<Rightarrow> nat \<Rightarrow> 8 word list" where
  "de64_loop [] decoded m = []"
| "de64_loop (x # xs) decoded m =
     (let c = sextet x
      in if c < 64 then
           (if m = 0 then de64_loop xs (push_bit 2 c) 1
            else if m = 1 then
              (decoded + drop_bit 4 (c AND 0xF0)) # de64_loop xs (push_bit 4 (c AND 15)) 2
            else if m = 2 then
              (decoded + drop_bit 2 (c AND 0xFC)) # de64_loop xs (push_bit 6 (c AND 3)) 3
            else
              (decoded + c) # de64_loop xs (decoded + c) 0)
         else if c = 64 then []
         else de64_loop xs decoded m)"

definition de64 :: "string \<Rightarrow> string" where
  "de64 s = map of_byte (de64_loop s 0 0)"

section \<open>Encoding\<close>

definition digit64 :: "8 word \<Rightarrow> char" where
  "digit64 w = to64 ! unat w"

text \<open>
  The main loop of \<open>e64\<close> takes three bytes at a time; \<open>c\<close> counts the characters of the current line.
  What is left at the end is the incomplete group.
\<close>

fun e64_loop :: "8 word list \<Rightarrow> nat \<Rightarrow> nat \<Rightarrow> string" where
  "e64_loop (a # b # d # rest) lineLength c =
     (let group = [digit64 (drop_bit 2 a AND 63),
                   digit64 ((push_bit 4 a AND 48) + (drop_bit 4 b AND 15)),
                   digit64 ((push_bit 2 b AND 60) + (drop_bit 6 d AND 3)),
                   digit64 (d AND 63)];
          c = c + 4
      in if 0 < lineLength \<and> lineLength \<le> c
         then group @ crlf @ e64_loop rest lineLength 0
         else group @ e64_loop rest lineLength c)"
| "e64_loop rest lineLength c =
     (if rest \<noteq> [] then
        (let i0 = rest ! 0;
             i1 = (if 1 < length rest then rest ! 1 else 0);
             i2 = (if 2 < length rest then rest ! 2 else 0)
         in [digit64 (drop_bit 2 i0 AND 63),
             digit64 ((push_bit 4 i0 AND 48) + (drop_bit 4 i1 AND 15)),
             (if 1 < length rest then digit64 ((push_bit 2 i1 AND 60) + (drop_bit 6 i2 AND 3))
              else CHR ''=''),
             (if 2 < length rest then digit64 (i2 AND 63) else CHR ''='')])
      else [])
     @ (if 0 < lineLength \<and> 0 < c then crlf else [])"

definition e64 :: "string \<Rightarrow> nat \<Rightarrow> string" where
  "e64 s lineLength = e64_loop (map byte_of s) lineLength 0"

section \<open>Round trip\<close>

text \<open>The digits of the alphabet stand for their positions in it.\<close>

lemma map_sextet_to64: "map sextet to64 = map word_of_nat [0..<64]"
  by (simp add: to64_def sextet_def from64_def upt_rec)

lemma sextet_digit64:
  assumes "unat w < 64"
  shows "sextet (digit64 w) = w"
proof -
  have "length to64 = 64" by (simp add: to64_def)
  then have "sextet (to64 ! unat w) = map sextet to64 ! unat w" using assms by simp
  also have "\<dots> = word_of_nat (unat w)" using assms by (simp add: map_sextet_to64)
  finally show ?thesis by (simp add: digit64_def)
qed

lemma sextet_special: "sextet CR = 65" "sextet LF = 65" "sextet (CHR ''='') = 64"
  by (simp_all add: sextet_def from64_def)

lemma de64_loop_crlf [simp]: "de64_loop (CR # LF # xs) decoded m = de64_loop xs decoded m"
  by (simp add: sextet_special)

lemma de64_loop_pad [simp]: "de64_loop (CHR ''='' # xs) decoded m = []"
  by (simp add: sextet_special)

lemma de64_loop_digit:
  assumes "w < 64"
  shows "de64_loop (digit64 w # xs) decoded m =
    (if m = 0 then de64_loop xs (push_bit 2 w) 1
     else if m = 1 then (decoded + drop_bit 4 (w AND 0xF0)) # de64_loop xs (push_bit 4 (w AND 15)) 2
     else if m = 2 then (decoded + drop_bit 2 (w AND 0xFC)) # de64_loop xs (push_bit 6 (w AND 3)) 3
     else (decoded + w) # de64_loop xs (decoded + w) 0)"
proof -
  have "sextet (digit64 w) = w"
    using assms by (intro sextet_digit64) (simp add: word_less_nat_alt)
  with assms show ?thesis by simp
qed

declare de64_loop.simps(2) [simp del]

text \<open>The masked shifts of the encoder are values below 64, and the decoder puts the bits back.\<close>

lemma masked_less: "(w :: 8 word) AND 63 = w \<Longrightarrow> w < 64"
  using word_and_le1 [of w 63] by (simp add: word_le_nat_alt word_less_nat_alt)

lemma e64_disjoint:
  "(push_bit 4 a AND 48) + (drop_bit 4 b AND 15) = push_bit 4 a AND 48 OR drop_bit 4 b AND (15 :: 8 word)"
  "(push_bit 2 b AND 60) + (drop_bit 6 d AND 3) = push_bit 2 b AND 60 OR drop_bit 6 d AND (3 :: 8 word)"
  by (rule disjunctive_add_eq_or, rule bit8_eqI, elim disjE; simp add: bit_simps)+

lemma e64_less:
  "drop_bit 2 a AND (63 :: 8 word) < 64"
  "push_bit 4 a AND 48 OR drop_bit 4 b AND (15 :: 8 word) < 64"
  "push_bit 2 b AND 60 OR drop_bit 6 d AND (3 :: 8 word) < 64"
  "d AND (63 :: 8 word) < 64"
  by (rule masked_less, rule bit8_eqI, elim disjE; simp add: bit_simps)+

lemma de64_bytes:
  "push_bit 2 (drop_bit 2 a AND 63) +
     drop_bit 4 ((push_bit 4 a AND 48 OR drop_bit 4 b AND 15) AND 0xF0) = (a :: 8 word)"
  "push_bit 4 ((push_bit 4 a AND 48 OR drop_bit 4 b AND 15) AND 15) +
     drop_bit 2 ((push_bit 2 b AND 60 OR drop_bit 6 d AND 3) AND 0xFC) = (b :: 8 word)"
  "push_bit 6 ((push_bit 2 b AND 60 OR drop_bit 6 d AND 3) AND 3) + (d AND 63) = (d :: 8 word)"
proof -
  have dis: "x AND y = 0 \<Longrightarrow> x OR y = z \<Longrightarrow> x + y = z" for x y z :: "8 word"
    by (simp add: disjunctive_add_eq_or)
  show "push_bit 2 (drop_bit 2 a AND 63) +
     drop_bit 4 ((push_bit 4 a AND 48 OR drop_bit 4 b AND 15) AND 0xF0) = a"
    by (rule dis; rule bit8_eqI; elim disjE; simp add: bit_simps)
  show "push_bit 4 ((push_bit 4 a AND 48 OR drop_bit 4 b AND 15) AND 15) +
     drop_bit 2 ((push_bit 2 b AND 60 OR drop_bit 6 d AND 3) AND 0xFC) = b"
    by (rule dis; rule bit8_eqI; elim disjE; simp add: bit_simps)
  show "push_bit 6 ((push_bit 2 b AND 60 OR drop_bit 6 d AND 3) AND 3) + (d AND 63) = d"
    by (rule dis; rule bit8_eqI; elim disjE; simp add: bit_simps)
qed

text \<open>Decoding one group of four digits, or the digits of an incomplete group.\<close>

lemma de64_loop_first:
  "de64_loop (digit64 (drop_bit 2 a AND 63) #
     digit64 ((push_bit 4 a AND 48) + (drop_bit 4 b AND 15)) # xs) decoded 0 =
   a # de64_loop xs (push_bit 4 ((push_bit 4 a AND 48 OR drop_bit 4 b AND 15) AND 15)) 2"
  by (simp only: e64_disjoint de64_loop_digit [OF e64_less(1)] de64_loop_digit [OF e64_less(2)]
      de64_bytes) simp

lemma de64_loop_second:
  "de64_loop (digit64 ((push_bit 2 b AND 60) + (drop_bit 6 d AND 3)) # xs)
     (push_bit 4 ((push_bit 4 a AND 48 OR drop_bit 4 b AND 15) AND 15)) 2 =
   b # de64_loop xs (push_bit 6 ((push_bit 2 b AND 60 OR drop_bit 6 d AND 3) AND 3)) 3"
  by (simp only: e64_disjoint de64_loop_digit [OF e64_less(3)] de64_bytes) simp

lemma de64_loop_third:
  "de64_loop (digit64 (d AND 63) # xs)
     (push_bit 6 ((push_bit 2 b AND 60 OR drop_bit 6 d AND 3) AND 3)) 3 = d # de64_loop xs d 0"
  by (simp only: e64_disjoint de64_loop_digit [OF e64_less(4)] de64_bytes) simp

lemmas de64_group = de64_loop_first de64_loop_second de64_loop_third

lemma de64_loop_end: "de64_loop (if p then crlf else []) decoded m = []"
  by simp

lemma de64_loop_e64_loop: "de64_loop (e64_loop bs lineLength c) decoded 0 = bs"
proof (induction bs lineLength c arbitrary: decoded rule: e64_loop.induct, goal_cases)
  case (1 a b d rest lineLength c)
  show ?case
  proof (cases "0 < lineLength \<and> lineLength \<le> c + 4")
    case True
    then show ?thesis
      using 1(1) [OF refl refl True]
      by (simp only: e64_loop.simps Let_def if_True append_Cons append_Nil de64_group de64_loop_crlf
          simp_thms)
  next
    case False
    then show ?thesis
      using 1(2) [OF refl refl False]
      by (simp only: e64_loop.simps Let_def if_False append_Cons append_Nil de64_group simp_thms)
  qed
next
  case (3 a lineLength c)
  show ?case
    using de64_loop_first [of a 0] by simp
next
  case (4 a b lineLength c)
  show ?case
    using de64_loop_first [of a b] de64_loop_second [of b 0 _ a] by simp
qed (simp add: de64_loop_end)

lemma e64_decodes: "de64 (e64 s lineLength) = s"
  by (simp add: de64_def e64_def de64_loop_e64_loop comp_def)

text \<open>
  C8. Decoding what \<open>e64\<close> produced gives the original bytes back, for every string and every line
  length: the line ends it inserts and the padding are skipped.
\<close>

theorem de64_e64: "de64 (e64 s lineLength) = s"
  by (rule e64_decodes)

end
