(* ===== verification/EncodedWord.thy ===== *)
theory EncodedWord
  imports TextUtil QuotedPrintable Base64
begin

text \<open>
  The RFC 2047 part of \<^verbatim>\<open>strings.go\<close>: \<open>decode\<close>, \<open>de2047\<close>, \<open>encodePhrase\<close>, \<open>encodeText\<close> and
  \<open>encodeWord\<close>. The conversion between character sets is the parameter \<open>cs_writer\<close> of the environment.
\<close>

section \<open>Decoding\<close>

text \<open>
  \<open>decode\<close>: \<open>None\<close> when the character set is unknown; otherwise the text and whether the conversion failed.
\<close>

definition decode :: "go_env \<Rightarrow> string \<Rightarrow> string \<Rightarrow> (string \<times> bool) option" where
  "decode E s enc = (case cs_writer E enc of None \<Rightarrow> None | Some w \<Rightarrow> Some (w s))"

text \<open>The value of \<open>strings.IndexByte\<close> as the Go integer.\<close>

definition indexByteInt :: "string \<Rightarrow> char \<Rightarrow> int" where
  "indexByteInt s c = (case indexByte s c of None \<Rightarrow> -1 | Some i \<Rightarrow> int i)"

text \<open>
  The second half of \<open>de2047\<close>: what the encoded text means, in the character set the word names. An unknown
  character set is taken for US-ASCII if that works; the panic is for an environment without US-ASCII.
\<close>

definition de2047_convert :: "go_env \<Rightarrow> string \<Rightarrow> string \<Rightarrow> string go" where
  "de2047_convert E enc decoded =
     (case cs_writer E enc of
        Some w \<Rightarrow> Inr (fst (w decoded))
      | None \<Rightarrow>
         (case decode E decoded ''us-ascii'' of
            None \<Rightarrow> Inr []
          | Some (_, failed) \<Rightarrow>
              if failed then Inr []
              else (case cs_writer E ''us-ascii'' of
                      None \<Rightarrow> Inl ExplicitPanic
                    | Some w \<Rightarrow> Inr (fst (w decoded)))))"

text \<open>The end \<open>ce\<close> of the character set's name in \<open>s\<close>, given the position \<open>es\<close> of the encoding letter.\<close>

definition de2047_ce :: "string \<Rightarrow> int \<Rightarrow> int" where
  "de2047_ce s es =
     (let ce = indexByteInt (drop 2 s) (CHR ''*'');
          ce = (if 0 \<le> ce then ce + 2 else ce);
          ce = (if ce < 2 then es else ce)
      in if es \<le> ce then es - 1 else ce)"

definition de2047 :: "go_env \<Rightarrow> string \<Rightarrow> string go" where
  "de2047 E s =
     (if \<not> hasPrefix s ''=?'' \<or> \<not> hasSuffix s ''?='' then Inr []
      else
        let es = indexByteInt (drop 2 s) (CHR ''?'') + 1;
            es = (if 1 \<le> es then es + 2 else es)
        in if es < 2 then Inr []
           else
             let ce = de2047_ce s es
             in go_bind (idxi s (es + 1)) (\<lambda>c.
                if c \<noteq> CHR ''?'' then Inr []
                else
                  go_bind (substri s (es + 2) (int (length s) - 2)) (\<lambda>encoded.
                  go_bind (idxi s es) (\<lambda>k.
                  if k = CHR ''Q'' \<or> k = CHR ''q'' then
                    go_bind (substri s 2 ce) (\<lambda>enc. de2047_convert E enc (deQP encoded True))
                  else if k = CHR ''B'' \<or> k = CHR ''b'' then
                    go_bind (substri s 2 ce) (\<lambda>enc. de2047_convert E enc (de64 encoded))
                  else Inr []))))"

section \<open>Encoding\<close>

definition encodeWord :: "string \<Rightarrow> string" where
  "encodeWord w = (if w = [] then [] else w)"

definition plainWord :: "string \<Rightarrow> bool" where
  "plainWord w \<longleftrightarrow> isAscii w \<and> isBoring (ascii w) TotallyBoring"

text \<open>The inner loop of \<open>encodePhrase\<close>: the index of the next word that needs no encoding.\<close>

function encodePhrase_skip :: "string list \<Rightarrow> nat \<Rightarrow> nat" where
  "encodePhrase_skip words i =
     (if i < length words \<and> \<not> plainWord (words ! i) then encodePhrase_skip words (i + 1) else i)"
  by pat_completeness auto
termination
  by (relation "measure (\<lambda>(words, i). length words - i)") auto

declare encodePhrase_skip.simps [simp del]

lemma encodePhrase_skip_le: "i \<le> encodePhrase_skip words i"
proof (induction words i rule: encodePhrase_skip.induct)
  case (1 words i)
  show ?case
    using 1 by (subst encodePhrase_skip.simps) (auto dest: Suc_leD)
qed

function encodePhrase_loop :: "string list \<Rightarrow> nat \<Rightarrow> string \<Rightarrow> string go" where
  "encodePhrase_loop words i buf =
     (if i < length words then
        let w = words ! i;
            buf = (if 0 < i then buf @ '' '' else buf)
        in if plainWord w then encodePhrase_loop words (i + 1) (buf @ ascii w)
           else let j = encodePhrase_skip words i
                in go_bind (idx words j) (\<lambda>v. encodePhrase_loop words (j + 1) (buf @ encodeWord v))
      else Inr buf)"
  by pat_completeness auto
termination
proof (relation "measure (\<lambda>(words, i, buf). length words - i)")
  fix words :: "string list" and i j :: nat and buf buf' w v
  assume "i < length words" and "j = encodePhrase_skip words i"
  with encodePhrase_skip_le [of i words]
  show "((words, j + 1, buf' @ encodeWord v), words, i, buf) \<in> measure (\<lambda>(words, i, buf). length words - i)"
    by auto
qed auto

declare encodePhrase_loop.simps [simp del]

definition encodePhrase :: "string \<Rightarrow> string go" where
  "encodePhrase s = go_bind (simplify s) (\<lambda>t. encodePhrase_loop (splitOn '' '' t) 0 [])"

text \<open>
  \<open>encodeText\<close> over the words that are left; the \<open>i++\<close> of the outer loop drops the word after each round.
\<close>

function encodeText_loop :: "string list \<Rightarrow> string list" where
  "encodeText_loop ws =
     (if ws = [] then []
      else
        let l = takeWhile (\<lambda>w. \<not> isAscii w) ws;
            rest = dropWhile (\<lambda>w. \<not> isAscii w) ws;
            a = takeWhile isAscii rest;
            rest = dropWhile isAscii rest
        in (if 0 < length l then [encodeWord (joinWith '' '' l)] else []) @ a @ encodeText_loop (drop 1 rest))"
  by pat_completeness auto
termination
proof (relation "measure length")
  fix ws :: "string list" and l rest a rest'
  assume ws: "ws \<noteq> []" and "rest = dropWhile (\<lambda>w. \<not> isAscii w) ws" and "rest' = dropWhile isAscii rest"
  then have "length rest' \<le> length ws"
    by (metis length_dropWhile_le order_trans)
  with ws show "(drop 1 rest', ws) \<in> measure length"
    by (cases ws) auto
qed simp

declare encodeText_loop.simps [simp del]

definition encodeText :: "string \<Rightarrow> string" where
  "encodeText s = joinWith '' '' (encodeText_loop (splitOn '' '' s))"

section \<open>What an encoded word means\<close>

lemma indexByte_append: "c \<notin> set a \<Longrightarrow> indexByte (a @ b) c = map_option (\<lambda>i. length a + i) (indexByte b c)"
  by (induction a; cases "indexByte b c") auto

lemma indexByte_take: "c \<in> set a \<Longrightarrow> indexByte (a @ b) c = Some (length (takeWhile (\<lambda>x. x \<noteq> c) a))"
  by (induction a) auto

lemma takeWhile_same: "c \<notin> set a \<Longrightarrow> takeWhile (\<lambda>x. x \<noteq> c) a = a"
  by (induction a) auto

lemma takeWhile_append_same:
  "c \<notin> set a \<Longrightarrow> takeWhile (\<lambda>x. x \<noteq> c) (a @ b) = a @ takeWhile (\<lambda>x. x \<noteq> c) b"
  by (induction a) auto

lemma takeWhile_shorter: "c \<in> set a \<Longrightarrow> length (takeWhile (\<lambda>x. x \<noteq> c) a) < length a"
  by (induction a) auto

text \<open>The header of an encoded word is the character set and, after an asterisk, a language.\<close>

abbreviation charsetOf :: "string \<Rightarrow> string" where
  "charsetOf h \<equiv> takeWhile (\<lambda>c. c \<noteq> CHR ''*'') h"

lemma de2047_ce_eq:
  assumes "es = int (length h) + 3"
  shows "de2047_ce (''=?'' @ h @ CHR ''?'' # t) es = int (length (charsetOf h)) + 2"
proof (cases "CHR ''*'' \<in> set h")
  case True
  then show ?thesis
    using takeWhile_shorter [OF True] assms by (simp add: de2047_ce_def indexByteInt_def indexByte_take)
next
  case False
  have "length (charsetOf h) = length h" by (simp only: takeWhile_same [OF False])
  with False show ?thesis
    using assms by (cases "indexByte t (CHR ''*'')") (simp_all add: de2047_ce_def indexByteInt_def indexByte_append)
qed

lemma de2047_shape:
  assumes h: "CHR ''?'' \<notin> set h"
  shows "de2047 E (''=?'' @ h @ CHR ''?'' # k # CHR ''?'' # encoded @ ''?='') =
    (if k = CHR ''Q'' \<or> k = CHR ''q'' then de2047_convert E (charsetOf h) (deQP encoded True)
     else if k = CHR ''B'' \<or> k = CHR ''b'' then de2047_convert E (charsetOf h) (de64 encoded)
     else Inr [])"
proof -
  define s where "s = ''=?'' @ h @ CHR ''?'' # k # CHR ''?'' # encoded @ ''?=''"
  define es where "es = int (length h) + 3"
  have pre: "hasPrefix s ''=?''" by (simp add: hasPrefix_def s_def)
  have suf: "hasSuffix s ''?=''"
    unfolding hasSuffix_iff s_def by (rule exI [of _ "''=?'' @ h @ CHR ''?'' # k # CHR ''?'' # encoded"]) simp
  have i: "indexByteInt (drop 2 s) (CHR ''?'') = int (length h)"
    using h by (simp add: indexByteInt_def indexByte_append s_def)
  have e: "(if 1 \<le> indexByteInt (drop 2 s) (CHR ''?'') + 1 then indexByteInt (drop 2 s) (CHR ''?'') + 1 + 2
      else indexByteInt (drop 2 s) (CHR ''?'') + 1) = es" and e2: "\<not> es < 2"
    by (simp_all add: i es_def)
  have at: "idxi s (es + 1) = Inr (CHR ''?'')" "idxi s es = Inr k"
    by (simp_all add: idxi_def nat_add_distrib nth_append s_def es_def)
  define a where "a = ''=?'' @ h @ [CHR ''?'', k, CHR ''?'']"
  have "s = a @ encoded @ ''?=''" and "nat (es + 2) = length a"
    by (simp_all add: a_def s_def es_def nat_add_distrib)
  then have "drop (nat (es + 2)) s = encoded @ ''?=''" by simp
  then have enc: "substri s (es + 2) (int (length s) - 2) = Inr encoded"
    by (simp add: substri_def) (simp add: s_def es_def)
  have ce: "de2047_ce s es = int (length (charsetOf h)) + 2"
    unfolding s_def by (rule de2047_ce_eq [OF es_def])
  have cs: "substri s 2 (int (length (charsetOf h)) + 2) = Inr (charsetOf h)"
    using length_takeWhile_le [of "\<lambda>c. c \<noteq> CHR ''*''" h] by (simp add: substri_def takeWhile_eq_take [symmetric] s_def)
  have "de2047 E s = (if k = CHR ''Q'' \<or> k = CHR ''q'' then de2047_convert E (charsetOf h) (deQP encoded True)
     else if k = CHR ''B'' \<or> k = CHR ''b'' then de2047_convert E (charsetOf h) (de64 encoded)
     else Inr [])"
    unfolding de2047_def Let_def e using e2 by (simp add: pre suf at enc ce cs)
  then show ?thesis by (simp only: s_def)
qed

text \<open>
  C23. \<open>de2047\<close> decodes an encoded word in either encoding to what the character set's converter makes of the
  original bytes, with or without a language after the character set's name.
\<close>

theorem de2047_encoded:
  assumes "CHR ''?'' \<notin> set cs" and "CHR ''*'' \<notin> set cs" and "cs_writer E cs = Some w"
    and "lang = [] \<or> (hd lang = CHR ''*'' \<and> CHR ''?'' \<notin> set lang)"
    and "eQP t True False = Inr q"
  shows "de2047 E (''=?'' @ (cs @ lang) @ ''?B?'' @ e64 t 0 @ ''?='') = Inr (fst (w t)) \<and>
    de2047 E (''=?'' @ (cs @ lang) @ ''?Q?'' @ q @ ''?='') = Inr (fst (w t))"
proof -
  have h: "CHR ''?'' \<notin> set (cs @ lang)" using assms by auto
  have c: "charsetOf (cs @ lang) = cs"
    using assms(4) by (cases lang) (auto simp: takeWhile_append_same [OF assms(2)] takeWhile_same [OF assms(2)])
  obtain q' where "eQP t True False = Inr q'" and "deQP q' True = t"
    using eQP_decodes by blast
  with assms(5) have "deQP q True = t" by simp
  then show ?thesis
    using de2047_shape [OF h, of E "CHR ''B''" "e64 t 0"] de2047_shape [OF h, of E "CHR ''Q''" q] c assms(3)
    by (simp add: de2047_convert_def e64_decodes)
qed

theorem de2047_encoded_witness:
  "de2047 plainEnv (''=?'' @ (''utf-8'' @ ''*en'') @ ''?B?'' @ e64 ''a b'' 0 @ ''?='') = Inr ''a b'' \<and>
   de2047 plainEnv (''=?'' @ (''utf-8'' @ ''*en'') @ ''?Q?'' @ ''a_b'' @ ''?='') = Inr ''a b''"
proof -
  have "eQP ''a b'' True False = Inr ''a_b''" by code_simp
  then show ?thesis
    using de2047_encoded [of "''utf-8''" plainEnv "\<lambda>s. (s, False)" "''*en''" "''a b''" "''a_b''"]
    by (simp add: plainEnv_def)
qed

section \<open>What the encoders do\<close>

lemma isAscii_iff:
  "isAscii s \<longleftrightarrow> list_all (\<lambda>c. c < CHR 0x80 \<and> (CHR '' '' \<le> c \<or> c = CHR 0x09 \<or> c = LF \<or> c = CR)) s"
  by (induction s) (auto simp: not_le not_less)

lemma isAscii_append [simp]: "isAscii (a @ b) \<longleftrightarrow> isAscii a \<and> isAscii b"
  by (simp add: isAscii_iff)

lemma isAscii_joinWith: "isAscii (joinWith sep ws) \<Longrightarrow> list_all isAscii ws"
  by (induction sep ws rule: joinWith.induct) auto

lemma isAscii_splitOn: "isAscii s \<Longrightarrow> list_all isAscii (splitOn sep s)"
  using isAscii_joinWith [of sep "splitOn sep s"] by (simp add: joinWith_splitOn)

lemma encodeText_loop_ascii: "list_all isAscii ws \<Longrightarrow> encodeText_loop ws = ws"
proof -
  assume ws: "list_all isAscii ws"
  show "encodeText_loop ws = ws"
  proof (cases ws)
    case Nil
    then show ?thesis by (simp add: encodeText_loop.simps)
  next
    case (Cons x xs)
    with ws have "takeWhile (\<lambda>w. \<not> isAscii w) ws = []" "dropWhile (\<lambda>w. \<not> isAscii w) ws = ws"
      "takeWhile isAscii ws = ws" "dropWhile isAscii ws = []"
      by (auto simp: list_all_iff)
    with Cons show ?thesis
      by (subst encodeText_loop.simps) (simp add: Let_def encodeText_loop.simps [of "[]"])
  qed
qed

text \<open>
  \<open>encodeText\<close> leaves ASCII text, with its spaces, as it is.
\<close>

theorem encodeText_ascii:
  assumes "isAscii s"
  shows "encodeText s = s"
  using isAscii_splitOn [OF assms, of "'' ''"]
  by (simp add: encodeText_def encodeText_loop_ascii joinWith_splitOn)

theorem encodeText_ascii_witness: "encodeText ''a  b'' = ''a  b''"
  using encodeText_ascii [of "''a  b''"] by simp

text \<open>The word after a run of ASCII words is lost when it is not ASCII.\<close>

lemma encodeText_loses: "encodeText (''a '' @ [CHR 0xC3, CHR 0xA9] @ '' b'') = ''a b''"
  by code_simp

lemma plainWord_ascii: "plainWord w \<Longrightarrow> ascii w = w"
proof -
  have "isBoring_loop (ascii w) b \<Longrightarrow> ascii w = w" for b
    by (induction w) (auto simp: char_class split: if_splits)
  then show "plainWord w \<Longrightarrow> ascii w = w" by (auto simp: plainWord_def isBoring_def split: if_splits)
qed

lemma encodePhrase_skip_eq:
  "i \<le> length words \<Longrightarrow>
   encodePhrase_skip words i = i + length (takeWhile (\<lambda>w. \<not> plainWord w) (drop i words))"
proof (induction words i rule: encodePhrase_skip.induct)
  case (1 words i)
  show ?case
  proof (cases "i < length words")
    case True
    with 1 show ?thesis
      by (subst encodePhrase_skip.simps) (simp add: drop_eq_Cons_nth [OF True])
  next
    case False
    with 1(2) show ?thesis by (subst encodePhrase_skip.simps) simp
  qed
qed

text \<open>Where the inner loop stops: at the end, or at a word that needs no encoding.\<close>

lemma encodePhrase_skip_stop:
  assumes "i < length words" and "j = encodePhrase_skip words i"
  obtains "j = length words" "\<forall>w\<in>set (drop i words). \<not> plainWord w"
  | run where "j < length words" "plainWord (words ! j)" "drop i words = run @ words ! j # drop (j + 1) words"
      "\<forall>w\<in>set run. \<not> plainWord w"
proof -
  let ?run = "takeWhile (\<lambda>w. \<not> plainWord w) (drop i words)"
  have j: "j = i + length ?run" using assms encodePhrase_skip_eq by simp
  have run: "\<forall>w\<in>set ?run. \<not> plainWord w" by (auto dest: set_takeWhileD)
  have split: "drop i words = ?run @ drop j words"
    using j takeWhile_dropWhile_id [of "\<lambda>w. \<not> plainWord w" "drop i words"]
    by (simp add: dropWhile_eq_drop add.commute)
  show ?thesis
  proof (cases "j < length words")
    case True
    then have "length ?run < length (drop i words)" using j by simp
    then have "plainWord (drop i words ! length ?run)" using nth_length_takeWhile by blast
    then have "plainWord (words ! j)" using j True by simp
    with True run split show ?thesis
      by (intro that(2) [of ?run]) (simp_all add: drop_eq_Cons_nth [OF True])
  next
    case False
    then have "j = length words" using j length_takeWhile_le [of "\<lambda>w. \<not> plainWord w" "drop i words"] assms by simp
    with split run show ?thesis by (intro that(1)) simp_all
  qed
qed

lemma last_drop_nonplain:
  "i < length words \<Longrightarrow> plainWord (last words) \<Longrightarrow> \<exists>w\<in>set (drop i words). plainWord w"
  by (metis drop_eq_Nil last_drop last_in_set not_le)

lemma encodePhrase_loop_plain:
  "i < length words \<Longrightarrow> plainWord (last words) \<Longrightarrow>
   encodePhrase_loop words i buf =
     Inr (buf @ (if 0 < i then '' '' else []) @ joinWith '' '' (filter plainWord (drop i words)))"
proof (induction words i buf rule: encodePhrase_loop.induct)
  case (1 words i buf)
  note i = 1(3) and last = 1(4)
  let ?buf = "if 0 < i then buf @ '' '' else buf"
  have rest: "encodePhrase_loop words (j + 1) (?buf @ v) =
      Inr (?buf @ joinWith '' '' (v # filter plainWord (drop (j + 1) words)))"
    if "j < length words" and IH: "j + 1 < length words \<Longrightarrow> encodePhrase_loop words (j + 1) (?buf @ v) =
      Inr ((?buf @ v) @ '' '' @ joinWith '' '' (filter plainWord (drop (j + 1) words)))" for j v
  proof (cases "j + 1 < length words")
    case True
    then have "filter plainWord (drop (j + 1) words) \<noteq> []"
      using last_drop_nonplain [OF True last] by (simp add: filter_empty_conv)
    with True IH show ?thesis by (simp add: joinWith_Cons)
  next
    case False
    with that(1) have "length words = j + 1" by simp
    then show ?thesis by (subst encodePhrase_loop.simps) simp
  qed
  show ?case
  proof (cases "plainWord (words ! i)")
    case True
    with rest [OF i, of "words ! i"] 1(1) [OF i refl refl True] last i show ?thesis
      by (subst encodePhrase_loop.simps) (simp add: Let_def plainWord_ascii drop_eq_Cons_nth [OF i])
  next
    case False
    define j where "j = encodePhrase_skip words i"
    from i j_def show ?thesis
    proof (cases rule: encodePhrase_skip_stop)
      case 1
      with last_drop_nonplain [OF i last] show ?thesis by blast
    next
      case (2 run)
      have "encodeWord (words ! j) = words ! j" by (simp add: encodeWord_def)
      moreover have "filter plainWord (drop i words) = words ! j # filter plainWord (drop (j + 1) words)"
        using 2 by (simp add: filter_empty_conv [symmetric])
      ultimately show ?thesis
        using rest [OF 2(1), of "words ! j"] "1.IH"(2) [OF i refl refl False refl, of "words ! j"] 2(1) last i False
        by (subst encodePhrase_loop.simps) (simp add: Let_def j_def [symmetric])
    qed
  qed
qed

lemma encodePhrase_loop_panic:
  "i < length words \<Longrightarrow> \<not> plainWord (last words) \<Longrightarrow> encodePhrase_loop words i buf = Inl IndexOutOfRange"
proof (induction words i buf rule: encodePhrase_loop.induct)
  case (1 words i buf)
  note i = 1(3) and last = 1(4)
  have more: "j + 1 < length words" if "j < length words" "plainWord (words ! j)" for j
  proof (rule ccontr)
    assume "\<not> j + 1 < length words"
    with that(1) have "j = length words - 1" and "words \<noteq> []" by auto
    with last that(2) show False by (simp add: last_conv_nth)
  qed
  show ?case
  proof (cases "plainWord (words ! i)")
    case True
    with 1(1) [OF i refl refl True] more [OF i True] last i show ?thesis
      by (subst encodePhrase_loop.simps) (simp add: Let_def)
  next
    case False
    define j where "j = encodePhrase_skip words i"
    from i j_def show ?thesis
    proof (cases rule: encodePhrase_skip_stop)
      case 1
      with i False show ?thesis by (subst encodePhrase_loop.simps) (simp add: Let_def j_def [symmetric])
    next
      case (2 run)
      with more [OF 2(1,2)] "1.IH"(2) [OF i refl refl False refl, of "words ! j"] last i False show ?thesis
        by (subst encodePhrase_loop.simps) (simp add: Let_def j_def [symmetric])
    qed
  qed
qed

text \<open>
  C33. \<open>encodePhrase\<close> returns the words that need no encoding, joined by single spaces, and drops all others;
  it panics exactly when the last word needs encoding (or \<open>simplify\<close> does).
\<close>

theorem encodePhrase_spec:
  "encodePhrase s =
     go_bind (simplify s) (\<lambda>t.
       let words = splitOn '' '' t
       in if plainWord (last words) then Inr (joinWith '' '' (filter plainWord words)) else Inl IndexOutOfRange)"
proof (cases "simplify s")
  case (Inr t)
  have "0 < length (splitOn '' '' t)" by (simp add: splitOn_nonempty)
  with Inr show ?thesis
    by (simp add: encodePhrase_def Let_def encodePhrase_loop_plain encodePhrase_loop_panic)
qed (simp add: encodePhrase_def)

end
