(* ===== verification/Quoting.thy ===== *)
theory Quoting
  imports GoLib
begin

text \<open>
  Quoting and unquoting of strings (\<open>strings.go\<close>, \<open>isQuoted\<close>, \<open>unquote\<close>, \<open>quote\<close>). The quote
  character \<open>c\<close> and the escape character \<open>q\<close> are arguments; they may be equal.
\<close>

section \<open>The operations\<close>

text \<open>The loop that skips pairs of escapes from the end; the positions read are below \<open>len(str)\<close>.\<close>

function isQuoted_skip :: "string \<Rightarrow> char \<Rightarrow> nat \<Rightarrow> nat" where
  "isQuoted_skip str q i =
     (if 1 < i \<and> str ! i = q \<and> str ! (i - 1) = q then isQuoted_skip str q (i - 2) else i)"
  by pat_completeness auto
termination
  by (relation "measure (\<lambda>(str, q, i). i)") auto

declare isQuoted_skip.simps [simp del]

definition isQuoted :: "string \<Rightarrow> char \<Rightarrow> char \<Rightarrow> bool" where
  "isQuoted str c q =
     (if length str < 2 \<or> str ! 0 \<noteq> c \<or> str ! (length str - 1) \<noteq> c then False
      else
        (let i = isQuoted_skip str q (length str - 2)
         in if i = 0 then True
            else if str ! i = q then False
            else True))"

text \<open>
  The loop of \<open>unquote\<close>. Its guard keeps \<open>i\<close> below the last position, so the byte after an escape
  exists.
\<close>

function unquote_loop :: "string \<Rightarrow> char \<Rightarrow> nat \<Rightarrow> string" where
  "unquote_loop str q i =
     (if i < length str - 1
      then (let j = (if str ! i = q then i + 1 else i) in str ! j # unquote_loop str q (j + 1))
      else [])"
  by pat_completeness auto
termination
  by (relation "measure (\<lambda>(str, q, i). length str - i)") (auto simp: Let_def)

declare unquote_loop.simps [simp del]

definition unquote :: "string \<Rightarrow> char \<Rightarrow> char \<Rightarrow> string" where
  "unquote str c q = (if \<not> isQuoted str c q then str else unquote_loop str q 1)"

fun quote_loop :: "string \<Rightarrow> char \<Rightarrow> char \<Rightarrow> string" where
  "quote_loop [] c q = []"
| "quote_loop (x # xs) c q = (if x = c \<or> x = q then [q, x] else [x]) @ quote_loop xs c q"

definition quote :: "string \<Rightarrow> char \<Rightarrow> char \<Rightarrow> string" where
  "quote str c q = [c] @ quote_loop str c q @ [c]"

section \<open>What the closing-quote test decides\<close>

text \<open>
  \<open>escapedEnd q s\<close>: the string ends in an odd number of escapes, so a quote that followed it would
  be an escaped one.
\<close>

fun oddRun :: "char \<Rightarrow> string \<Rightarrow> bool" where
  "oddRun q [] = False"
| "oddRun q (x # xs) = (x = q \<and> \<not> oddRun q xs)"

definition escapedEnd :: "char \<Rightarrow> string \<Rightarrow> bool" where
  "escapedEnd q s = oddRun q (rev s)"

lemma escapedEnd_simps [simp]:
  "escapedEnd q [] = False"
  "escapedEnd q [x] = (x = q)"
  "escapedEnd q (s @ [x]) = (x = q \<and> \<not> escapedEnd q s)"
  "escapedEnd q (s @ [x, y]) = (y = q \<and> (x = q \<longrightarrow> escapedEnd q s))"
  by (auto simp: escapedEnd_def)

text \<open>On \<open>c # body @ [c]\<close> the skip loop stops at the parity of the escapes that end the body.\<close>

lemma isQuoted_skip_body:
  "(let i = isQuoted_skip (c # body @ post) q (length body)
    in i = 0 \<or> (c # body @ post) ! i \<noteq> q) = (\<not> escapedEnd q body)"
proof (induction "length body" arbitrary: body post rule: less_induct)
  case less
  show ?case
  proof (cases "body = []")
    case True
    then show ?thesis by (simp add: isQuoted_skip.simps)
  next
    case False
    then obtain b x where body: "body = b @ [x]" by (metis rev_exhaust)
    show ?thesis
    proof (cases "b = []")
      case True
      with body show ?thesis by (auto simp: isQuoted_skip.simps)
    next
      case False
      then obtain b' y where b: "b = b' @ [y]" by (metis rev_exhaust)
      let ?s = "c # body @ post"
      have x: "?s ! length body = x" and y: "?s ! (length body - 1) = y"
        by (simp_all add: body b nth_append)
      show ?thesis
      proof (cases "x = q \<and> y = q")
        case True
        have step: "isQuoted_skip ?s q (length body) = isQuoted_skip ?s q (length b')"
          using True x y by (subst isQuoted_skip.simps) (simp add: body b)
        have "?s = c # b' @ ([y, x] @ post)"
          by (simp add: body b)
        with less [of b' "[y, x] @ post"] step True show ?thesis
          by (simp add: body b)
      next
        case False
        with x y have stop: "isQuoted_skip ?s q (length body) = length body"
          by (subst isQuoted_skip.simps) auto
        have "escapedEnd q body \<longleftrightarrow> x = q"
          using False by (auto simp: body b)
        with stop x body show ?thesis by (simp add: Let_def)
      qed
    qed
  qed
qed

lemma isQuoted_body: "isQuoted (c # body @ [c]) c q = (\<not> escapedEnd q body)"
  using isQuoted_skip_body [of c body "[c]" q]
  by (auto simp: isQuoted_def Let_def nth_append)

lemma isQuoted_shape:
  assumes "isQuoted str c q"
  obtains body where "str = c # body @ [c]"
proof -
  from assms have len: "2 \<le> length str" and "str ! 0 = c" and "str ! (length str - 1) = c"
    by (auto simp: isQuoted_def split: if_splits)
  moreover from len have "str = hd str # butlast (tl str) @ [last str]"
    by (cases str) auto
  moreover from len have "str \<noteq> []" by auto
  then have "hd str = str ! 0" and "last str = str ! (length str - 1)"
    by (simp_all add: hd_conv_nth last_conv_nth)
  ultimately show ?thesis using that by metis
qed

section \<open>The unquoting loop\<close>

text \<open>What \<open>unquote\<close> does to the text between the quotes: an escape stands for what follows it.\<close>

fun unescape :: "string \<Rightarrow> char \<Rightarrow> char \<Rightarrow> string" where
  "unescape [] c q = []"
| "unescape [x] c q = [if x = q then c else x]"
| "unescape (x # y # xs) c q = (if x = q then y # unescape xs c q else x # unescape (y # xs) c q)"

lemma unquote_loop_unescape:
  "unquote_loop (pre @ body @ [c]) q (length pre) = unescape body c q"
proof (induction body c q arbitrary: pre rule: unescape.induct)
  case (1 c q)
  then show ?case by (simp add: unquote_loop.simps)
next
  case (2 x c q)
  show ?case
    by (subst unquote_loop.simps) (simp add: nth_append unquote_loop.simps)
next
  case (3 x y xs c q)
  show ?case
  proof (cases "x = q")
    case True
    with 3(1) [of "pre @ [x, y]"] show ?thesis
      by (subst unquote_loop.simps) (simp add: nth_append)
  next
    case False
    with 3(2) [of "pre @ [x]"] show ?thesis
      by (subst unquote_loop.simps) (simp add: nth_append)
  qed
qed

lemma unquote_body:
  "unquote (c # body @ [c]) c q =
     (if escapedEnd q body then c # body @ [c] else unescape body c q)"
  using unquote_loop_unescape [of "[c]" body c q] by (simp add: unquote_def isQuoted_body)

section \<open>Round trip\<close>

lemma unescape_quote_loop: "unescape (quote_loop s c q) c q = s"
proof (induction s)
  case (Cons x xs)
  show ?case
  proof (cases "x = c \<or> x = q")
    case True
    with Cons show ?thesis by simp
  next
    case False
    with Cons show ?thesis by (cases "quote_loop xs c q") auto
  qed
qed simp

lemma quote_loop_append: "quote_loop (s @ t) c q = quote_loop s c q @ quote_loop t c q"
  by (induction s) auto

lemma escapedEnd_quote_loop: "\<not> escapedEnd q (quote_loop s c q)"
proof (induction s rule: rev_induct)
  case (snoc x xs)
  then show ?case by (auto simp: quote_loop_append)
qed simp

lemma unquote_quoted: "unquote (quote s c q) c q = s"
  by (simp add: quote_def unquote_body escapedEnd_quote_loop unescape_quote_loop)

text \<open>
  C37. Quoting a string and unquoting the result with the same quote and escape characters gives the
  string back, for every string and every choice of the two characters, equal ones included.
\<close>

theorem unquote_quote: "unquote (quote s c q) c q = s"
  by (rule unquote_quoted)

lemma quote_isQuoted: "isQuoted (quote s c q) c q"
  by (simp add: quote_def isQuoted_body escapedEnd_quote_loop)

end
