(* ===== verification/TransferEncoding.thy ===== *)
theory TransferEncoding
  imports QuotedPrintable Base64 Quoting
begin

unbundle bit_operations_syntax

text \<open>
  Content transfer encodings: \<open>deUue\<close>, \<open>encodeCTE\<close> and \<open>decodeCTE\<close> of \<^verbatim>\<open>strings.go\<close>, the enumeration
  \<open>EncodingType\<close> of \<^verbatim>\<open>parser.go\<close>, and the contract a pair of codecs has to satisfy.
\<close>

section \<open>Uudecoding\<close>

text \<open>One token of a group: \<open>63 & (s[i] - 32)\<close>.\<close>

definition uueToken :: "char \<Rightarrow> 8 word" where
  "uueToken c = 63 AND (byte_of c - 32)"

text \<open>
  The four tokens of a group at \<open>i\<close>. The third and the fourth are guarded by the condition of the second, so
  a group cut short after two or three tokens is read out of range.
\<close>

definition uueGroup :: "string \<Rightarrow> nat \<Rightarrow> (8 word \<times> 8 word \<times> 8 word \<times> 8 word) go" where
  "uueGroup s i =
     go_bind (if i < length s then go_bind (idx s i) (\<lambda>c. Inr (uueToken c)) else Inr 0) (\<lambda>c0.
     go_bind (if i + 1 < length s then go_bind (idx s (i + 1)) (\<lambda>c. Inr (uueToken c)) else Inr 0) (\<lambda>c1.
     go_bind (if i + 1 < length s then go_bind (idx s (i + 2)) (\<lambda>c. Inr (uueToken c)) else Inr 0) (\<lambda>c2.
     go_bind (if i + 1 < length s then go_bind (idx s (i + 3)) (\<lambda>c. Inr (uueToken c)) else Inr 0) (\<lambda>c3.
     Inr (c0, c1, c2, c3)))))"

text \<open>The three bytes of a group, before the line length cuts them.\<close>

fun uueBytes :: "8 word \<times> 8 word \<times> 8 word \<times> 8 word \<Rightarrow> string" where
  "uueBytes (c0, c1, c2, c3) =
     [of_byte ((push_bit 2 c0 OR drop_bit 4 c1) AND 255),
      of_byte ((push_bit 4 c1 OR drop_bit 2 c2) AND 255),
      of_byte ((push_bit 6 c2 OR c3) AND 255)]"

text \<open>Step 3, the data of a line: the position after it and the buffer.\<close>

function deUue_line :: "string \<Rightarrow> nat \<Rightarrow> nat \<Rightarrow> string \<Rightarrow> (nat \<times> string) go" where
  "deUue_line s i linelength buf =
     (if 0 < linelength \<and> i < length s then
        go_bind (uueGroup s i) (\<lambda>cs.
        deUue_line s (i + 4) (linelength - 3) (buf @ take linelength (uueBytes cs)))
      else Inr (i, buf))"
  by pat_completeness auto
termination
  by (relation "measure (\<lambda>(s, i, l, buf). l)") auto

declare deUue_line.simps [simp del]

lemma deUue_line_ge: "deUue_line s i l buf = Inr (j, buf') \<Longrightarrow> i \<le> j"
proof (induction s i l buf rule: deUue_line.induct)
  case (1 s i l buf)
  show ?case
  proof (cases "0 < l \<and> i < length s")
    case True
    with 1(2) obtain cs where cs: "uueGroup s i = Inr cs"
      and "deUue_line s (i + 4) (l - 3) (buf @ take l (uueBytes cs)) = Inr (j, buf')"
      by (auto simp: deUue_line.simps [of s i l] go_bind_eq_Inr)
    with 1(1) [OF True cs] show ?thesis by simp
  next
    case False
    with 1(2) show ?thesis by (simp add: deUue_line.simps [of s i l])
  qed
qed

definition isUueBlank :: "char \<Rightarrow> bool" where
  "isUueBlank c \<longleftrightarrow> c = CHR 0x09 \<or> c = LF \<or> c = CR \<or> c = CHR '' ''"

text \<open>The end line, in step 2.\<close>

definition isUueEnd :: "string \<Rightarrow> nat \<Rightarrow> bool" where
  "isUueEnd s i \<longleftrightarrow> s ! i = CHR ''e'' \<and> i + 2 < length s \<and> s ! (i + 1) = CHR ''n'' \<and> s ! (i + 2) = CHR ''d'' \<and>
     (i + 3 = length s \<or> isUueBlank (s ! (i + 3)))"

function deUue_loop :: "string \<Rightarrow> nat \<Rightarrow> string \<Rightarrow> string go" where
  "deUue_loop s i buf =
     (if i < length s then
        let i = scanWhile (\<lambda>c. c \<noteq> CR \<and> c \<noteq> LF) s i;
            i = scanWhile isUueBlank s i
        in if i < length s then
             let c = s ! i
             in if isUueEnd s i then Inr buf
                else if c < CHR 0x20 then Inr s
                else go_bind (deUue_line s (i + 1) (unat ((byte_of c - 32) AND 63)) buf) (\<lambda>(i, buf).
                     deUue_loop s i buf)
           else deUue_loop s i buf
      else Inr buf)"
  by pat_completeness auto
termination
proof (relation "measure (\<lambda>(s, i, buf). length s - i)")
  fix s buf buf' :: string and i i' i'' j :: nat and c r
  assume i: "i < length s" and i': "i' = scanWhile (\<lambda>c. c \<noteq> CR \<and> c \<noteq> LF) s i"
    and i'': "i'' = scanWhile isUueBlank s i'"
  have ge: "i \<le> i''" using scanWhile_ge le_trans unfolding i' i'' by blast
  show "((s, i'', buf), s, i, buf) \<in> measure (\<lambda>(s, i, buf). length s - i)" if "\<not> i'' < length s"
    using that i by simp
  assume "i'' < length s" and "deUue_line s (i'' + 1) (unat ((byte_of c - 32) AND 63)) buf = Inr r"
    and "(j, buf') = r"
  then have "i'' + 1 \<le> j" by (auto dest: deUue_line_ge)
  with ge i show "((s, j, buf'), s, i, buf) \<in> measure (\<lambda>(s, i, buf). length s - i)" by simp
qed simp

declare deUue_loop.simps [simp del]

definition deUue :: "string \<Rightarrow> string go" where
  "deUue s =
     (if s = [] then Inr s
      else if hasPrefix s ''begin'' then deUue_loop s 0 []
      else case (case indexOf s (LF # ''begin'') of
                   None \<Rightarrow> indexOf s (CR # ''begin'') | Some i \<Rightarrow> Some i) of
             None \<Rightarrow> Inr s
           | Some begin_at \<Rightarrow> deUue_loop s (begin_at + 1) [])"

section \<open>The encodings\<close>

datatype EncodingType = QPEncoding | Base64Encoding | UuencodeEncoding | BinaryEncoding

definition encodeCTE :: "string \<Rightarrow> EncodingType \<Rightarrow> int \<Rightarrow> string go" where
  "encodeCTE s e n =
     (if e = Base64Encoding then Inr (e64 s (nat n))
      else if e = QPEncoding then eQP s False (0 < n)
      else Inr s)"

definition decodeCTE :: "string \<Rightarrow> EncodingType \<Rightarrow> string go" where
  "decodeCTE s e =
     (if e = Base64Encoding then Inr (de64 s)
      else if e = QPEncoding then Inr (deQP s False)
      else if e = UuencodeEncoding then deUue s
      else Inr s)"

section \<open>The contract of a codec\<close>

text \<open>An encoder that always returns, and a decoder that undoes it.\<close>

locale codec =
  fixes enc :: "string \<Rightarrow> string go" and dec :: "string \<Rightarrow> string go"
  assumes enc_returns: "\<exists>t. enc s = Inr t"
    and dec_enc: "enc s = Inr t \<Longrightarrow> dec t = Inr s"
begin

lemma round_trip: "go_bind (enc s) dec = Inr s"
  using enc_returns [of s] dec_enc [of s] by auto

lemma enc_inject: "enc s = enc s' \<longleftrightarrow> s = s'"
proof
  assume "enc s = enc s'"
  then have "go_bind (enc s) dec = go_bind (enc s') dec" by simp
  then show "s = s'" by (simp add: round_trip)
qed simp

end

interpretation base64: codec "\<lambda>s. Inr (e64 s n)" "\<lambda>t. Inr (de64 t)" for n
  by unfold_locales (auto simp: e64_decodes)

interpretation qp: codec "\<lambda>s. eQP s u f" "\<lambda>t. Inr (deQP t u)" for u f
proof
  show "\<exists>t. eQP s u f = Inr t" for s using eQP_decodes [of s u f] by auto
  show "Inr (deQP t u) = Inr s" if "eQP s u f = Inr t" for s t
    using that eQP_decodes [of s u f] by auto
qed

interpretation quoted: codec "\<lambda>s. Inr (quote s c q)" "\<lambda>t. Inr (unquote t c q)" for c q
  by unfold_locales (auto simp: unquote_quoted)

interpretation cte64: codec "\<lambda>s. encodeCTE s Base64Encoding n" "\<lambda>t. decodeCTE t Base64Encoding" for n
  unfolding encodeCTE_def decodeCTE_def by (simp add: base64.codec_axioms)

interpretation cteQP: codec "\<lambda>s. encodeCTE s QPEncoding n" "\<lambda>t. decodeCTE t QPEncoding" for n
  unfolding encodeCTE_def decodeCTE_def by (simp add: qp.codec_axioms)

interpretation cteBinary: codec "\<lambda>s. encodeCTE s BinaryEncoding n" "\<lambda>t. decodeCTE t BinaryEncoding" for n
  by unfold_locales (auto simp: encodeCTE_def decodeCTE_def)



text \<open>
  A group of two tokens at the end of the input is read out of range.
\<close>

lemma deUue_panics: "deUue (''begin'' @ [LF] @ ''#!!'') = Inl IndexOutOfRange"
  by code_simp

end
