(* ===== verification/Parser.thy ===== *)
theory Parser
  imports EncodedWord TransferEncoding
begin

text \<open>
  The recursive-descent parser of \<^verbatim>\<open>parser.go\<close>, which the header fields use.

  The Go struct embeds a pointer to a linked list of \<open>parserState\<close> values: \<open>mark\<close> pushes a copy of the current
  one, \<open>restore\<close> pops back to an older one. Here \<open>parser\<close> extends the record of the current state by the list of
  the older ones. A loop that reads while a test holds of the next character is \<open>span\<close>; the lemma
  \<open>span_step\<close> is its unrolling.
\<close>

section \<open>State\<close>

datatype parse_error =
    Expected string string
  | TrailingDot
  | UnknownEncoding char
  | UnknownCharset string
  | CharsetFailure

record parserState =
  p_at :: nat
  p_err :: "parse_error option"
  p_mark :: nat

record parser = parserState +
  p_next :: "parserState list"
  p_str :: string
  p_mime :: bool
  p_lc :: string

definition newParser :: "string \<Rightarrow> parser" where
  "newParser s = \<lparr> p_at = 0, p_err = None, p_mark = 1, p_next = [], p_str = s, p_mime = False, p_lc = [] \<rparr>"

definition AtEnd :: "parser \<Rightarrow> bool" where
  "AtEnd p \<longleftrightarrow> length (p_str p) \<le> p_at p"

definition NextChar :: "parser \<Rightarrow> char" where
  "NextChar p = (if length (p_str p) \<le> p_at p then CHR 0x00 else p_str p ! p_at p)"

definition Step :: "nat \<Rightarrow> parser \<Rightarrow> parser" where
  "Step n p = p \<lparr> p_at := p_at p + n \<rparr>"

definition Valid :: "parser \<Rightarrow> bool" where
  "Valid p \<longleftrightarrow> p_err p = None"

definition setErr :: "parse_error \<Rightarrow> parser \<Rightarrow> parser" where
  "setErr e p = p \<lparr> p_err := Some e \<rparr>"

section \<open>Mark and restore\<close>

definition mark :: "parser \<Rightarrow> nat \<times> parser" where
  "mark p =
     (p_mark p, p \<lparr> p_err := None, p_mark := p_mark p + 1, p_next := parserState.truncate p # p_next p \<rparr>)"

fun restore_find :: "nat \<Rightarrow> parserState list \<Rightarrow> (parserState \<times> parserState list) option" where
  "restore_find m [] = None"
| "restore_find m (c # cs) = (if p_mark c = m then Some (c, cs) else restore_find m cs)"

definition restore :: "nat \<Rightarrow> parser \<Rightarrow> parser" where
  "restore m p =
     (case restore_find m (parserState.truncate p # p_next p) of
        None \<Rightarrow> p
      | Some (c, cs) \<Rightarrow> p \<lparr> p_at := p_at c, p_err := p_err c, p_mark := p_mark c, p_next := cs \<rparr>)"

section \<open>Reading\<close>

definition Present :: "go_env \<Rightarrow> string \<Rightarrow> parser \<Rightarrow> bool \<times> parser" where
  "Present E s p =
     (if s = [] then (True, p)
      else if length (p_str p) < p_at p + length s then (False, p)
      else if toLower E (take (length s) (drop (p_at p) (p_str p))) \<noteq> toLower E s then (False, p)
      else (True, Step (length s) p))"

definition following :: "parser \<Rightarrow> string go" where
  "following p =
     (if length (p_str p) \<le> p_at p then Inr []
      else let f = drop (p_at p) (p_str p)
           in simplify (if 15 < length f then take 15 f else f))"

definition require :: "go_env \<Rightarrow> string \<Rightarrow> parser \<Rightarrow> parser go" where
  "require E s p =
     (case Present E s p of
        (True, p) \<Rightarrow> Inr p
      | (False, p) \<Rightarrow> go_bind (following p) (\<lambda>f. Inr (setErr (Expected s f) p)))"

text \<open>\<open>for test(c) { buf.WriteByte(c); p.Step(1); c = p.NextChar() }\<close>, for a test that fails at the end.\<close>

definition span :: "(char \<Rightarrow> bool) \<Rightarrow> parser \<Rightarrow> string \<times> parser" where
  "span P p = (let w = takeWhile P (drop (p_at p) (p_str p)) in (w, Step (length w) p))"

definition isSpace :: "char \<Rightarrow> bool" where
  "isSpace c \<longleftrightarrow> c = CHR '' '' \<or> c = CHR 0x09 \<or> c = LF \<or> c = CR \<or> c = CHR 0xA0"

definition Whitespace :: "parser \<Rightarrow> string \<times> parser" where
  "Whitespace p = span isSpace p"

definition isAtext :: "char \<Rightarrow> bool" where
  "isAtext c \<longleftrightarrow>
     (if c < CHR 0x20 \<or> CHR 0x7F < c then False
      else if isLower c \<or> isUpper c \<or> isDigit c then True
      else c \<in> set ''!#$%&*+-/=?^_`{|}~'' \<or> c = CHR 0x27)"

section \<open>Comments and words\<close>

text \<open>The inner loop of \<open>Comment\<close>.\<close>

function comment_body :: "parser \<Rightarrow> nat \<Rightarrow> string \<Rightarrow> string \<times> parser" where
  "comment_body p commentLevel buf =
     (if 0 < commentLevel \<and> \<not> AtEnd p then
        let c = NextChar p
        in if c = CHR ''('' then comment_body (Step 1 p) (commentLevel + 1) (buf @ [c])
           else if c = CHR '')'' then
             comment_body (Step 1 p) (commentLevel - 1) (if 0 < commentLevel - 1 then buf @ [c] else buf)
           else if c = CHR 0x5C then
             comment_body (Step 1 (Step 1 p)) commentLevel (buf @ [NextChar (Step 1 p)])
           else comment_body (Step 1 p) commentLevel (buf @ [c])
      else (buf, p))"
  by pat_completeness auto
termination
  by (relation "measure (\<lambda>(p, _, _). length (p_str p) - p_at p)") (auto simp: AtEnd_def Step_def)

declare comment_body.simps [simp del]

text \<open>
  What the lexical operations may do to the state: move the cursor forward, which takes some input that is
  left, and set the last comment. Nothing else changes, in particular not the input and not the marks.
\<close>

definition reads :: "parser \<Rightarrow> parser \<Rightarrow> bool" where
  "reads p q \<longleftrightarrow> p_str q = p_str p \<and> p_at p \<le> p_at q \<and> (p_at p < p_at q \<longrightarrow> p_at p < length (p_str p))"

definition advances :: "parser \<Rightarrow> parser \<Rightarrow> bool" where
  "advances p q \<longleftrightarrow> reads p q \<and> q = p \<lparr> p_at := p_at q, p_lc := p_lc q \<rparr>"

lemma reads_refl [simp]: "reads p p"
  by (simp add: reads_def)

lemma reads_trans [trans]: "reads p q \<Longrightarrow> reads q r \<Longrightarrow> reads p r"
  by (auto simp: reads_def)

lemma advances_refl [simp]: "advances p p"
  by (simp add: advances_def)

lemma advances_trans [trans]: "advances p q \<Longrightarrow> advances q r \<Longrightarrow> advances p r"
  unfolding advances_def by (cases p, cases q, cases r) (auto simp: reads_def)

lemma advances_Step [intro]: "\<not> AtEnd p \<Longrightarrow> advances p (Step n p)"
  by (simp add: advances_def reads_def Step_def AtEnd_def)

lemma advances_StepI: "\<not> AtEnd p \<Longrightarrow> advances (Step n p) q \<Longrightarrow> advances p q"
  by (rule advances_trans [OF advances_Step])

lemma advances_StepsI: "\<not> AtEnd p \<Longrightarrow> advances (Step m (Step n p)) q \<Longrightarrow> advances p q"
  using advances_StepI [of p "n + m" q] by (simp add: Step_def add.assoc)

lemma advances_lc [simp]: "advances p (p \<lparr> p_lc := l \<rparr>)"
  by (simp add: advances_def reads_def)

lemma advances_reads: "advances p q \<Longrightarrow> reads p q"
  by (simp add: advances_def)

lemma advances_le: "advances p q \<Longrightarrow> p_at p \<le> p_at q"
  by (simp add: advances_def reads_def)

lemma advances_frame:
  "advances p q \<Longrightarrow> p_str q = p_str p \<and> p_next q = p_next p \<and> p_mark q = p_mark p \<and> p_err q = p_err p"
  unfolding advances_def by (cases p, cases q) simp

lemma Step_frame [simp]:
  "p_at (Step n p) = p_at p + n" "p_str (Step n p) = p_str p" "p_err (Step n p) = p_err p"
  "p_next (Step n p) = p_next p" "p_mark (Step n p) = p_mark p" "p_lc (Step n p) = p_lc p"
  by (simp_all add: Step_def)

lemma Present_cases:
  assumes "Present E s p = (b, q)"
  obtains "b" "q = Step (length s) p" "s = [] \<or> p_at p + length s \<le> length (p_str p)" | "\<not> b" "q = p"
  using assms by (auto simp: Present_def Step_def split: if_splits)

lemma advances_Present: "Present E s p = (b, q) \<Longrightarrow> advances p q"
  by (elim Present_cases; cases s) (auto simp: advances_def reads_def Step_def)

lemma advances_span: "advances p (snd (span P p))"
proof (cases "takeWhile P (drop (p_at p) (p_str p)) = []")
  case True
  then show ?thesis by (simp add: span_def Step_def)
next
  case False
  then have "\<not> AtEnd p" by (auto simp: AtEnd_def)
  then show ?thesis by (auto simp: span_def Let_def)
qed

lemma advances_Whitespace: "advances p (snd (Whitespace p))"
  unfolding Whitespace_def by (rule advances_span)

lemma advances_comment_body: "advances p (snd (comment_body p n buf))"
proof (induction p n buf rule: comment_body.induct)
  case (1 p n buf)
  show ?case
    by (subst comment_body.simps) (use 1 in \<open>auto simp: Let_def intro: advances_StepI advances_StepsI\<close>)
qed

lemma advancesD: "advances p q \<Longrightarrow> p_at p \<le> p_at q \<and> p_str q = p_str p"
  using advances_le advances_frame by blast

lemma Whitespace_moves: "(w, q) = Whitespace p \<Longrightarrow> p_at p \<le> p_at q \<and> p_str q = p_str p"
  using advances_Whitespace [of p] by (metis advancesD snd_conv)

lemma comment_body_moves: "(w, q) = comment_body p n buf \<Longrightarrow> p_at p \<le> p_at q \<and> p_str q = p_str p"
  using advances_comment_body [of p n buf] by (metis advancesD snd_conv)

lemma Present_moves:
  "(True, q) = Present E s p \<Longrightarrow> s \<noteq> [] \<Longrightarrow>
   p_at q = p_at p + length s \<and> p_at q \<le> length (p_str p) \<and> p_str q = p_str p"
  by (rule Present_cases [of E s p True q]) simp_all

text \<open>The outer loop of \<open>Comment\<close>.\<close>

function comment_loop :: "go_env \<Rightarrow> parser \<Rightarrow> string \<Rightarrow> string \<times> parser" where
  "comment_loop E p buf =
     (case Present E ''('' p of
        (True, p) \<Rightarrow>
          let (buf, p) = comment_body p 1 [];
              (_, p) = Whitespace p
          in comment_loop E (p \<lparr> p_lc := buf \<rparr>) buf
      | (False, p) \<Rightarrow> (buf, p))"
  by pat_completeness auto
termination
  by (relation "measure (\<lambda>(E, p, _). length (p_str p) - p_at p)")
    (auto dest!: Present_moves comment_body_moves Whitespace_moves)

declare comment_loop.simps [simp del]

definition Comment :: "go_env \<Rightarrow> parser \<Rightarrow> string \<times> parser" where
  "Comment E p = (let (_, p) = Whitespace p in comment_loop E p [])"

definition Atom :: "go_env \<Rightarrow> parser \<Rightarrow> string \<times> parser" where
  "Atom E p = (let (_, p) = Comment E p in span isAtext p)"

definition isMIMETokenChar :: "char \<Rightarrow> bool" where
  "isMIMETokenChar c \<longleftrightarrow> CHR '' '' < c \<and> c < CHR 0x80 \<and> c \<notin> set ''()<>@,;:[]?=/'' \<and> c \<noteq> CHR 0x5C \<and> c \<noteq> CHR 0x22"

definition MIMEToken :: "go_env \<Rightarrow> parser \<Rightarrow> string \<times> parser" where
  "MIMEToken E p = (let (_, p) = Comment E p in span isMIMETokenChar p)"

text \<open>The loop over the text of a quoted string.\<close>

function quoted_loop :: "parser \<Rightarrow> string \<Rightarrow> (string \<times> parser) go" where
  "quoted_loop p buf =
     (if \<not> AtEnd p then
        let c = NextChar p;
            p = Step 1 p
        in if c = CHR 0x22 then Inr (buf, p)
           else if c = CHR 0x5C then quoted_loop (Step 1 p) (buf @ [NextChar p])
           else if c = CHR 0x09 \<or> c = CR \<or> c = LF \<or> c = CHR '' '' then
             let wsp = p_at p - 1;
                 (_, p) = Whitespace p
             in go_bind (substr (p_str p) wsp (p_at p)) (\<lambda>t.
                quoted_loop p (buf @ (if containsAny t [CR, LF] then '' '' else t)))
           else quoted_loop p (buf @ [c])
      else Inr (buf, p))"
  by pat_completeness auto
termination
  by (relation "measure (\<lambda>(p, _). length (p_str p) - p_at p)")
    (auto simp: AtEnd_def dest!: Whitespace_moves)

declare quoted_loop.simps [simp del]

definition String :: "go_env \<Rightarrow> parser \<Rightarrow> (string \<times> parser) go" where
  "String E p =
     (let (_, p) = Comment E p
      in if NextChar p \<noteq> CHR 0x22 then Inr (Atom E p) else quoted_loop (Step 1 p) [])"

definition MIMEValue :: "go_env \<Rightarrow> parser \<Rightarrow> (string \<times> parser) go" where
  "MIMEValue E p =
     (let (_, p) = Comment E p
      in if NextChar p = CHR 0x22 then String E p else Inr (MIMEToken E p))"

lemma advances_comment_loop: "advances p (snd (comment_loop E p buf))"
proof (induction E p buf rule: comment_loop.induct)
  case (1 E p buf)
  show ?case
  proof (cases "Present E ''('' p")
    case (Pair b p1)
    then have p1: "advances p p1" by (rule advances_Present)
    show ?thesis
    proof (cases b)
      case True
      obtain buf1 p2 where p2: "comment_body p1 1 [] = (buf1, p2)" by fastforce
      obtain w p3 where p3: "Whitespace p2 = (w, p3)" by fastforce
      from p1 have "advances p p2"
        using advances_trans advances_comment_body [of p1 1 "[]"] p2 by fastforce
      then have "advances p (p3 \<lparr> p_lc := buf1 \<rparr>)"
        using advances_trans advances_Whitespace [of p2] p3 advances_lc by (metis snd_conv)
      moreover have "advances (p3 \<lparr> p_lc := buf1 \<rparr>) (snd (comment_loop E (p3 \<lparr> p_lc := buf1 \<rparr>) buf1))"
        using 1 [OF Pair [symmetric] _ p2 [symmetric] refl p3 [symmetric] refl] True by simp
      ultimately show ?thesis
        using Pair True p2 p3 by (subst comment_loop.simps) (auto intro: advances_trans)
    next
      case False
      with Pair p1 show ?thesis by (subst comment_loop.simps) simp
    qed
  qed
qed

lemma advances_Comment: "advances p (snd (Comment E p))"
  using advances_Whitespace [of p] advances_comment_loop advances_trans
  by (fastforce simp: Comment_def split: prod.splits)

lemma advances_Atom: "advances p (snd (Atom E p))"
  using advances_Comment [of p E] advances_span advances_trans
  by (fastforce simp: Atom_def split: prod.splits)

lemma advances_MIMEToken: "advances p (snd (MIMEToken E p))"
  using advances_Comment [of p E] advances_span advances_trans
  by (fastforce simp: MIMEToken_def split: prod.splits)

section \<open>Dot-atoms\<close>

text \<open>One round of the loop of \<open>DotAtom\<close>: the atom after the next dot, if there is one.\<close>

definition dotAtom_next :: "go_env \<Rightarrow> parser \<Rightarrow> (string option \<times> parser) go" where
  "dotAtom_next E p =
     (let (m, p) = mark p;
          (_, p) = Comment E p
      in go_bind (require E ''.'' p) (\<lambda>p.
         let (_, p) = Comment E p;
             (a, p) = Atom E p;
             p = (if a = [] then setErr TrailingDot p else p)
         in if Valid p then Inr (Some a, p) else Inr (None, restore m p)))"

lemma require_cases:
  assumes "require E s p = Inr q"
  obtains "q = Step (length s) p" "s = [] \<or> p_at p + length s \<le> length (p_str p)"
  | f where "following p = Inr f" "q = setErr (Expected s f) p"
proof (cases "Present E s p")
  case (Pair b r)
  with assms that show ?thesis
    by (cases b) (auto simp: require_def go_bind_eq_Inr elim: Present_cases)
qed

lemma setErr_frame [simp]:
  "p_at (setErr e p) = p_at p" "p_str (setErr e p) = p_str p" "p_err (setErr e p) = Some e"
  "p_next (setErr e p) = p_next p" "p_mark (setErr e p) = p_mark p" "p_lc (setErr e p) = p_lc p"
  by (simp_all add: setErr_def)

lemma mark_frame [simp]:
  "p_at (snd (mark p)) = p_at p" "p_str (snd (mark p)) = p_str p" "p_err (snd (mark p)) = None"
  "p_lc (snd (mark p)) = p_lc p" "fst (mark p) = p_mark p" "p_mark (snd (mark p)) = Suc (p_mark p)"
  "p_next (snd (mark p)) = parserState.truncate p # p_next p"
  by (simp_all add: mark_def)

lemma dotAtom_next_moves:
  assumes "dotAtom_next E p = Inr (Some a, q)"
  shows "p_at p < p_at q \<and> p_at p < length (p_str p) \<and> p_str q = p_str p"
proof -
  obtain m p1 where p1: "mark p = (m, p1)" by fastforce
  obtain w1 p2 where p2: "Comment E p1 = (w1, p2)" by fastforce
  from assms p1 p2 obtain p3 where p3: "require E ''.'' p2 = Inr p3"
    by (auto simp: dotAtom_next_def go_bind_eq_Inr)
  obtain w2 p4 where p4: "Comment E p3 = (w2, p4)" by fastforce
  obtain b p5 where p5: "Atom E p4 = (b, p5)" by fastforce
  from assms p1 p2 p3 p4 p5 have q: "q = p5" and "b \<noteq> []" and ok: "p_err p5 = None"
    by (auto simp: dotAtom_next_def Valid_def split: if_splits)
  have a: "advances p1 p2" "advances p3 p4" "advances p4 p5"
    using advances_Comment [of p1 E] p2 advances_Comment [of p3 E] p4 advances_Atom [of p4 E] p5 by simp_all
  have "p_err p3 = None" using ok a by (metis advances_frame)
  from p3 have "p_at p2 < p_at p3 \<and> p_at p3 \<le> length (p_str p2) \<and> p_str p3 = p_str p2"
    by (rule require_cases) (use \<open>p_err p3 = None\<close> in auto)
  with a q p1 mark_frame [of p] advancesD [OF a(1)] advancesD [OF a(2)] advancesD [OF a(3)]
  show ?thesis by auto
qed

function dotAtom_loop :: "go_env \<Rightarrow> parser \<Rightarrow> string \<Rightarrow> (string \<times> parser) go" where
  "dotAtom_loop E p result =
     go_bind (dotAtom_next E p) (\<lambda>(a, p).
       case a of
         Some a \<Rightarrow> dotAtom_loop E p (result @ ''.'' @ a)
       | None \<Rightarrow> Inr (result, p))"
  by pat_completeness auto
termination
  by (relation "measure (\<lambda>(E, p, _). length (p_str p) - p_at p)") (auto dest!: dotAtom_next_moves)

declare dotAtom_loop.simps [simp del]

definition DotAtom :: "go_env \<Rightarrow> parser \<Rightarrow> (string \<times> parser) go" where
  "DotAtom E p =
     (let (result, p) = Atom E p
      in if result = [] then Inr ([], p) else dotAtom_loop E p result)"

section \<open>The stack of marks\<close>

text \<open>
  \<open>settled p q\<close>: between \<open>p\<close> and \<open>q\<close> the parser read some input and may have set the error. \<open>marked p q\<close>:
  it also pushed marks on top of the state \<open>p\<close>, which is still there.
\<close>

definition settled :: "parser \<Rightarrow> parser \<Rightarrow> bool" where
  "settled p q \<longleftrightarrow> reads p q \<and> q = p \<lparr> p_at := p_at q, p_err := p_err q, p_lc := p_lc q \<rparr>"

definition marked :: "parser \<Rightarrow> parser \<Rightarrow> bool" where
  "marked p q \<longleftrightarrow> reads p q \<and> p_mime q = p_mime p \<and> p_mark p < p_mark q \<and>
     (\<exists>pre. p_next q = pre @ parserState.truncate p # p_next p \<and> (\<forall>c\<in>set pre. p_mark p < p_mark c))"

definition extends :: "parser \<Rightarrow> parser \<Rightarrow> bool" where
  "extends p q \<longleftrightarrow> (\<exists>p'. settled p p' \<and> (q = p' \<or> marked p' q))"

lemma settled_refl [simp]: "settled p p"
  by (simp add: settled_def)

lemma settled_trans [trans]: "settled p q \<Longrightarrow> settled q r \<Longrightarrow> settled p r"
  unfolding settled_def by (cases p, cases q, cases r) (auto simp: reads_def)

lemma advances_settled: "advances p q \<Longrightarrow> settled p q"
  unfolding advances_def settled_def by (cases p, cases q) auto

lemma settled_setErr [simp]: "settled p (setErr e p)"
  by (simp add: settled_def setErr_def reads_def)

lemma settled_frame:
  "settled p q \<Longrightarrow> p_next q = p_next p \<and> p_mark q = p_mark p \<and> p_mime q = p_mime p"
  unfolding settled_def by (cases p, cases q) simp

lemma marked_settled: "marked p q \<Longrightarrow> settled q r \<Longrightarrow> marked p r"
  using settled_frame [of q r] by (auto simp: marked_def settled_def intro: reads_trans)

lemma settled_marked:
  assumes "settled p q" and "marked q r" shows "reads p r"
  using assms by (auto simp: marked_def settled_def intro: reads_trans)

lemma marked_trans: "marked p q \<Longrightarrow> marked q r \<Longrightarrow> marked p r"
  unfolding marked_def
  by (elim conjE exE, intro conjI, blast intro: reads_trans, simp, simp)
    (rule_tac x = "prea @ parserState.truncate q # pre" in exI,
      auto simp: parserState.truncate_def intro: less_trans)

lemma marked_extends: "marked p q \<Longrightarrow> extends q r \<Longrightarrow> marked p r"
  unfolding extends_def using marked_settled marked_trans by blast

lemma settled_extends: "settled p q \<Longrightarrow> extends p q"
  unfolding extends_def by blast

lemma marked_is_extends: "marked p q \<Longrightarrow> extends p q"
  unfolding extends_def using settled_refl by blast

lemma advances_extends: "advances p q \<Longrightarrow> extends p q"
  by (rule settled_extends [OF advances_settled])

lemma extends_trans [trans]: "extends p q \<Longrightarrow> extends q r \<Longrightarrow> extends p r"
  unfolding extends_def using settled_trans marked_settled marked_trans by blast

lemma extends_reads: "extends p q \<Longrightarrow> reads p q"
  by (auto simp: extends_def settled_def marked_def intro: reads_trans)

lemma marked_mark: "mark p = (m, q) \<Longrightarrow> m = p_mark p \<and> marked p q"
  by (auto simp: mark_def marked_def reads_def)

lemma restore_find_skip:
  "(\<forall>c\<in>set pre. m < p_mark c) \<Longrightarrow> restore_find m (pre @ c # cs) = (if p_mark c = m then Some (c, cs) else restore_find m cs)"
  by (induction pre) auto

text \<open>Whatever was done in between, \<open>restore\<close> brings the marked state back; only the last comment stays.\<close>

lemma restore_marked: "marked p q \<Longrightarrow> restore (p_mark p) q = p \<lparr> p_lc := p_lc q \<rparr>"
proof -
  assume m: "marked p q"
  then obtain pre where pre: "p_next q = pre @ parserState.truncate p # p_next p"
    "\<forall>c\<in>set (parserState.truncate q # pre). p_mark p < p_mark c"
    by (auto simp: marked_def parserState.truncate_def)
  then have "restore_find (p_mark p) (parserState.truncate q # p_next q) = Some (parserState.truncate p, p_next p)"
    using restore_find_skip [OF pre(2)] by (simp add: parserState.truncate_def)
  with m show ?thesis
    by (cases p, cases q) (simp add: restore_def parserState.truncate_def marked_def reads_def)
qed

lemma restore_settled: "marked p q \<Longrightarrow> settled p (restore (p_mark p) q)"
  using advances_settled [OF advances_lc] by (simp add: restore_marked)

lemma settled_require: "require E s p = Inr q \<Longrightarrow> settled p q"
proof (erule require_cases)
  assume "q = Step (length s) p" "s = [] \<or> p_at p + length s \<le> length (p_str p)"
  then have "advances p q" by (cases s) (auto simp: advances_def reads_def Step_def)
  then show ?thesis by (rule advances_settled)
qed simp

section \<open>Encoded words\<close>

datatype EncodedTextType = EncodedText | EncodedComment | EncodedPhrase

definition isCharsetChar :: "char \<Rightarrow> bool" where
  "isCharsetChar c \<longleftrightarrow> CHR '' '' < c \<and> c < CHR 0x80 \<and> c \<notin> set ''()<>@,;:[]?=/.'' \<and> c \<noteq> CHR 0x5C \<and> c \<noteq> CHR 0x22"

definition isBase64Char :: "char \<Rightarrow> bool" where
  "isBase64Char c \<longleftrightarrow> isDigit c \<or> isLower c \<or> isUpper c \<or> c = CHR ''+'' \<or> c = CHR ''/'' \<or> c = CHR ''=''"

definition isQChar :: "EncodedTextType \<Rightarrow> char \<Rightarrow> bool" where
  "isQChar t c \<longleftrightarrow> CHR '' '' < c \<and> c < CHR 0x80 \<and> c \<noteq> CHR ''?'' \<and>
     (t \<noteq> EncodedComment \<or> (c \<noteq> CHR ''('' \<and> c \<noteq> CHR '')'' \<and> c \<noteq> CHR 0x5C)) \<and>
     (t \<noteq> EncodedPhrase \<or> isDigit c \<or> isLower c \<or> isUpper c \<or> c \<in> set ''!*-/=_.'' \<or> c = CHR 0x27)"

text \<open>
  The loop that interprets a literal backspace; the index found in the tail \<open>result[i:]\<close> is used as an
  index into \<open>result\<close>.
\<close>

function backspace_loop :: "string \<Rightarrow> nat \<Rightarrow> string go" where
  "backspace_loop result i =
     go_bind (substr result i (length result)) (\<lambda>t.
       case indexByte t (CHR 0x08) of
         None \<Rightarrow> Inr result
       | Some i \<Rightarrow>
           let s = drop (i + 1) result
           in backspace_loop (if 1 < i then take (i - 1) result @ s else s) i)"
  by pat_completeness auto
termination
proof (relation "measure (\<lambda>(result, i). length result)")
  fix result t s :: string and i j :: nat
  assume "substr result i (length result) = Inr t" and "indexByte t (CHR 0x08) = Some j" and "s = drop (j + 1) result"
  then have "j < length result" "s = drop (j + 1) result"
    by (auto simp: substr_def indexByte_Some split: if_splits)
  then show "((if 1 < j then take (j - 1) result @ s else s, j), result, i) \<in> measure (\<lambda>(result, i). length result)"
    by auto
qed simp

declare backspace_loop.simps [simp del]

text \<open>
  The part of \<open>encodedWord\<close> that reads: the character set, the encoding and the text, with the state after
  the word; the state records an error when the input is not an encoded word.
\<close>

definition encodedWord_encoding :: "go_env \<Rightarrow> parser \<Rightarrow> EncodingType \<times> parser" where
  "encodedWord_encoding E p =
     (case Present E ''q'' p of
        (True, p) \<Rightarrow> (QPEncoding, p)
      | (False, p) \<Rightarrow>
          (case Present E ''b'' p of
             (True, p) \<Rightarrow> (Base64Encoding, p)
           | (False, p) \<Rightarrow> (QPEncoding, setErr (UnknownEncoding (NextChar p)) p)))"

definition encodedWord_read ::
    "go_env \<Rightarrow> EncodedTextType \<Rightarrow> parser \<Rightarrow> (string \<times> EncodingType \<times> string \<times> parser) go" where
  "encodedWord_read E t p =
     (let (cs, p) = span isCharsetChar p
      in go_bind (if CHR ''*'' \<in> set cs then str_section cs ''*'' 1 else Inr cs) (\<lambda>cs.
         go_bind (require E ''?'' p) (\<lambda>p.
         let (encoding, p) = encodedWord_encoding E p
         in go_bind (require E ''?'' p) (\<lambda>p.
            let (text, p) = span (if encoding = Base64Encoding then isBase64Char else isQChar t) p
            in go_bind (require E ''?='' p) (\<lambda>p. Inr (cs, encoding, text, p))))))"

text \<open>The part that converts: an error, or the text.\<close>

definition encodedWord_text :: "go_env \<Rightarrow> string \<Rightarrow> EncodingType \<Rightarrow> string \<Rightarrow> (parse_error + string) go" where
  "encodedWord_text E cs encoding text =
     (case cs_reader E cs of
        None \<Rightarrow> Inr (Inl (UnknownCharset cs))
      | Some rd \<Rightarrow>
          (case rd (if encoding = QPEncoding then deQP text False else de64 text) of
             None \<Rightarrow> Inr (Inl CharsetFailure)
           | Some result \<Rightarrow>
               go_bind (if containsAny result [CR, LF] then simplify result else Inr result) (\<lambda>result.
               go_bind (if CHR 0x08 \<in> set result then backspace_loop result 0 else Inr result) (\<lambda>result.
               Inr (Inr result)))))"

definition encodedWord :: "go_env \<Rightarrow> EncodedTextType \<Rightarrow> parser \<Rightarrow> (string \<times> parser) go" where
  "encodedWord E t p =
     (let (m, p) = mark p
      in go_bind (require E ''=?'' p) (\<lambda>p.
         if \<not> Valid p then Inr ([], restore m p)
         else go_bind (encodedWord_read E t p) (\<lambda>(cs, encoding, text, p).
              if \<not> Valid p then Inr ([], restore m p)
              else go_bind (encodedWord_text E cs encoding text) (\<lambda>r.
                   case r of
                     Inl e \<Rightarrow> Inr ([], restore m (setErr e p))
                   | Inr result \<Rightarrow> Inr (result, p)))))"

lemma settled_encodedWord_encoding: "settled p (snd (encodedWord_encoding E p))"
proof -
  obtain b1 p1 where p1: "Present E ''q'' p = (b1, p1)" by fastforce
  obtain b2 p2 where p2: "Present E ''b'' p1 = (b2, p2)" by fastforce
  have s: "settled p p1" "settled p1 p2"
    using p1 p2 by (auto intro: advances_settled advances_Present)
  show ?thesis
    using p1 p2 s settled_trans [OF settled_trans [OF s] settled_setErr] settled_trans [OF s]
    by (cases b1; cases b2) (simp_all add: encodedWord_encoding_def)
qed

lemma settled_encodedWord_read:
  assumes "encodedWord_read E t p = Inr (cs, encoding, text, q)"
  shows "settled p q"
proof -
  obtain w p1 where p1: "span isCharsetChar p = (w, p1)" by fastforce
  with assms obtain p2 where p2: "require E ''?'' p1 = Inr p2"
    by (auto simp: encodedWord_read_def go_bind_eq_Inr)
  obtain e p3 where p3: "encodedWord_encoding E p2 = (e, p3)" by fastforce
  with assms p1 p2 obtain p4 where p4: "require E ''?'' p3 = Inr p4"
    by (auto simp: encodedWord_read_def go_bind_eq_Inr)
  obtain x p5 where p5: "span (if e = Base64Encoding then isBase64Char else isQChar t) p4 = (x, p5)" by fastforce
  with assms p1 p2 p3 p4 have q: "require E ''?='' p5 = Inr q"
    by (auto simp: encodedWord_read_def go_bind_eq_Inr)
  have "settled p p1" using p1 advances_span [of p isCharsetChar] by (simp add: advances_settled)
  also have "settled p1 p2" using p2 by (rule settled_require)
  also have "settled p2 p3" using settled_encodedWord_encoding [of p2 E] p3 by simp
  also have "settled p3 p4" using p4 by (rule settled_require)
  also have "settled p4 p5" using advances_span [of p4] p5 by (metis advances_settled snd_conv)
  also have "settled p5 q" using q by (rule settled_require)
  finally show ?thesis .
qed

lemma encodedWord_cases:
  assumes "encodedWord E t p = Inr (s, q)"
  shows "(s = [] \<and> settled p q \<and> p_at q = p_at p) \<or> (marked p q \<and> p_at p < p_at q)"
proof -
  obtain m p1 where p1: "mark p = (m, p1)" by fastforce
  then have m: "m = p_mark p" "marked p p1" "p_at p1 = p_at p" "p_err p1 = None"
    using marked_mark [OF p1] mark_frame [of p] by auto
  have undo: "settled p (restore m r) \<and> p_at (restore m r) = p_at p" if mr: "marked p r" for r
    using mr by (simp add: m(1) restore_settled) (simp add: restore_marked)
  from assms p1 obtain p2 where p2: "require E ''=?'' p1 = Inr p2"
    by (auto simp: encodedWord_def go_bind_eq_Inr)
  have m2: "marked p p2" using m(2) settled_require [OF p2] by (rule marked_settled)
  show ?thesis
  proof (cases "Valid p2")
    case False
    with assms p1 p2 undo [OF m2] show ?thesis by (auto simp: encodedWord_def)
  next
    case True
    from p2 have lt: "p_at p < p_at p2"
      by (rule require_cases) (use True m(3) in \<open>auto simp: Valid_def\<close>)
    from assms p1 p2 True obtain cs e x p3 where p3: "encodedWord_read E t p2 = Inr (cs, e, x, p3)"
      by (auto simp: encodedWord_def go_bind_eq_Inr)
    have m3: "marked p p3" using m2 settled_encodedWord_read [OF p3] by (rule marked_settled)
    have le: "p_at p2 \<le> p_at p3"
      using settled_encodedWord_read [OF p3] by (simp add: settled_def reads_def)
    have m4: "marked p (setErr err p3)" for err using m3 settled_setErr by (rule marked_settled)
    show ?thesis
    proof (cases "Valid p3")
      case ok: True
      with assms p1 p2 True p3 obtain r where r: "encodedWord_text E cs e x = Inr r"
        by (auto simp: encodedWord_def go_bind_eq_Inr)
      show ?thesis
        using assms p1 p2 True p3 ok r undo [OF m4] m3 le lt
        by (cases r) (auto simp: encodedWord_def)
    next
      case False
      with assms p1 p2 True p3 undo [OF m3] show ?thesis by (auto simp: encodedWord_def)
    qed
  qed
qed

lemma extends_encodedWord: "encodedWord E t p = Inr (s, q) \<Longrightarrow> extends p q"
  using encodedWord_cases settled_extends marked_is_extends by blast

function encodedWords_loop :: "go_env \<Rightarrow> EncodedTextType \<Rightarrow> parser \<Rightarrow> string \<Rightarrow> (string \<times> parser) go" where
  "encodedWords_loop E t p out =
     (let (m, p1) = mark p;
          (_, p2) = Whitespace p1
      in go_bind (encodedWord E t p2) (\<lambda>(s, p3).
         if p_at p2 = p_at p3 then Inr (out, restore m p3)
         else encodedWords_loop E t p3 (out @ s)))"
  by pat_completeness auto
termination
proof (relation "measure (\<lambda>(E, t, p, _). length (p_str p) - p_at p)", goal_cases)
  case (2 E t p out mp m p1 wp w p2 sp s p3)
  then have "marked p p1" using marked_mark [of p m p1] by simp
  moreover have "settled p1 p2" using 2 advances_Whitespace [of p1] by (metis advances_settled snd_conv)
  ultimately have p2: "marked p p2" by (rule marked_settled)
  moreover have "marked p2 p3" "p_at p2 < p_at p3" using 2 encodedWord_cases [of E t p2 s p3] by auto
  ultimately have "reads p p2" "reads p2 p3" "p_at p2 < p_at p3" by (auto simp: marked_def)
  then show ?case by (auto simp: reads_def)
qed simp

declare encodedWords_loop.simps [simp del]

definition encodedWords :: "go_env \<Rightarrow> EncodedTextType \<Rightarrow> parser \<Rightarrow> (string \<times> parser) go" where
  "encodedWords E t p = go_bind (encodedWords_loop E t p []) (\<lambda>(out, p). Inr (trim out, p))"

lemma extends_encodedWords_loop:
  "encodedWords_loop E t p out = Inr (out', q) \<Longrightarrow> extends p q"
proof (induction E t p out rule: encodedWords_loop.induct)
  case (1 E t p out)
  obtain m p1 where p1: "mark p = (m, p1)" by fastforce
  obtain w p2 where p2: "Whitespace p1 = (w, p2)" by fastforce
  from 1(2) p1 p2 obtain s p3 where p3: "encodedWord E t p2 = Inr (s, p3)"
    by (subst (asm) encodedWords_loop.simps) (auto simp: go_bind_eq_Inr)
  have m: "m = p_mark p" "marked p p1" using marked_mark [OF p1] by auto
  have "settled p1 p2" using advances_Whitespace [of p1] p2 by (simp add: advances_settled)
  with m(2) have "marked p p2" by (rule marked_settled)
  then have m3: "marked p p3" using extends_encodedWord [OF p3] by (rule marked_extends)
  show ?case
  proof (cases "p_at p2 = p_at p3")
    case True
    with 1(2) p1 p2 p3 have "q = restore m p3"
      by (subst (asm) encodedWords_loop.simps) simp
    with m m3 show ?thesis by (simp add: settled_extends restore_settled)
  next
    case False
    with 1(2) p1 p2 p3 have "encodedWords_loop E t p3 (out @ s) = Inr (out', q)"
      by (subst (asm) encodedWords_loop.simps) simp
    from 1(1) [OF p1 [symmetric] refl p2 [symmetric] refl p3 refl False this]
    have "extends p3 q" .
    with m3 show ?thesis by (rule marked_is_extends [OF marked_extends])
  qed
qed

lemma extends_encodedWords: "encodedWords E t p = Inr (out, q) \<Longrightarrow> extends p q"
  by (auto simp: encodedWords_def go_bind_eq_Inr dest: extends_encodedWords_loop)

section \<open>Unstructured text\<close>

definition isTextChar :: "char \<Rightarrow> bool" where
  "isTextChar c \<longleftrightarrow> c < CHR 0x80 \<and> c \<noteq> CHR '' '' \<and> c \<noteq> CHR 0x09 \<and> c \<noteq> LF \<and> c \<noteq> CR"

text \<open>One round of the loop of \<open>Text\<close>: the next word, encoded or not.\<close>

definition text_word :: "go_env \<Rightarrow> parser \<Rightarrow> (string \<times> parser) go" where
  "text_word E p =
     (let start = p_at p;
          (m, p) = mark p
      in case Present E ''=?'' p of
           (True, p) \<Rightarrow>
             go_bind (encodedWords E EncodedText (restore m p)) (\<lambda>(word, p).
             if p_at p = start then Inr (span isTextChar p) else Inr (word, p))
         | (False, p) \<Rightarrow> Inr (span isTextChar p))"

lemma extends_text_word:
  assumes "text_word E p = Inr (word, q)"
  shows "extends p q"
proof -
  obtain m p1 where p1: "mark p = (m, p1)" by fastforce
  then have m: "m = p_mark p" "marked p p1" using marked_mark [OF p1] by auto
  obtain b p2 where p2: "Present E ''=?'' p1 = (b, p2)" by fastforce
  have m2: "marked p p2" using m(2) advances_settled [OF advances_Present [OF p2]] by (rule marked_settled)
  show ?thesis
  proof (cases b)
    case True
    with assms p1 p2 obtain w p3 where p3: "encodedWords E EncodedText (restore m p2) = Inr (w, p3)"
      and q: "q = p3 \<or> q = snd (span isTextChar p3)"
      by (auto simp: text_word_def go_bind_eq_Inr split: if_splits)
    have "extends p (restore m p2)" using m m2 by (simp add: restore_settled settled_extends)
    also have "extends (restore m p2) p3" using p3 by (rule extends_encodedWords)
    also have "extends p3 q" using q advances_span [of p3 isTextChar] by (auto intro: advances_extends)
    finally show ?thesis .
  next
    case False
    with assms p1 p2 have "q = snd (span isTextChar p2)" by (simp add: text_word_def)
    with advances_span [of p2 isTextChar] have "extends p2 q" by (simp add: advances_extends)
    with m2 show ?thesis by (rule marked_is_extends [OF marked_extends])
  qed
qed

function text_loop :: "go_env \<Rightarrow> parser \<Rightarrow> string \<Rightarrow> string \<Rightarrow> (string \<times> parser) go" where
  "text_loop E p space out =
     go_bind (text_word E p) (\<lambda>(word, p1).
     if p_at p1 = p_at p then Inr (out @ space, p1)
     else let (space1, p2) = Whitespace p1
          in text_loop E p2 (if containsAny space1 [CR, LF] then '' '' else space1) (out @ space @ word))"
  by pat_completeness auto
termination
proof (relation "measure (\<lambda>(E, p, _). length (p_str p) - p_at p)", goal_cases)
  case (2 E p space out r word p1 w space1 p2)
  then have "reads p p1" using extends_text_word [of E p word p1] extends_reads by auto
  moreover have "reads p1 p2" using 2 advances_Whitespace [of p1] by (metis advances_reads snd_conv)
  ultimately show ?case using 2 by (auto simp: reads_def)
qed simp

declare text_loop.simps [simp del]

definition Text :: "go_env \<Rightarrow> parser \<Rightarrow> (string \<times> parser) go" where
  "Text E p = (let (space, p) = Whitespace p in text_loop E p space [])"

section \<open>Phrases\<close>

text \<open>\<open>t, _ = decode(s, "us-ascii")\<close>.\<close>

definition decodeAscii :: "go_env \<Rightarrow> string \<Rightarrow> string" where
  "decodeAscii E s = (case decode E s ''us-ascii'' of None \<Rightarrow> [] | Some (t, _) \<Rightarrow> t)"

text \<open>
  One round of the loop of \<open>Phrase\<close>: the next word, whether it was encoded, and whether the cursor moved
  (\<open>h\<close>). A run of encoded words is tried first, then a quoted string, then an atom; the flag \<open>h\<close> of the source
  is set in each case when the cursor is past the start of the round.
\<close>

definition phrase_encoded :: "go_env \<Rightarrow> nat \<Rightarrow> parser \<Rightarrow> (string \<times> parser) go" where
  "phrase_encoded E m p =
     (case Present E ''=?'' p of
        (True, p) \<Rightarrow> encodedWords E EncodedPhrase (restore m p)
      | (False, p) \<Rightarrow> Inr ([], p))"

definition phrase_quoted :: "go_env \<Rightarrow> nat \<Rightarrow> string \<Rightarrow> parser \<Rightarrow> (string \<times> parser) go" where
  "phrase_quoted E m t p =
     (case Present E [CHR 0x22] p of
        (True, p) \<Rightarrow> go_bind (String E (restore m p)) (\<lambda>(s, p). Inr (decodeAscii E s, p))
      | (False, p) \<Rightarrow> Inr (t, p))"

definition phrase_word :: "go_env \<Rightarrow> parser \<Rightarrow> (string \<times> bool \<times> bool \<times> parser) go" where
  "phrase_word E p =
     (let start = p_at p;
          (m, p) = mark p
      in go_bind (phrase_encoded E m p) (\<lambda>(t, p).
         let encoded = start < p_at p
         in go_bind (if encoded then Inr (t, p) else phrase_quoted E m t p) (\<lambda>(t, p).
            if start < p_at p then Inr (t, encoded, True, p)
            else let (a, p) = Atom E p in Inr (decodeAscii E a, encoded, start < p_at p, p))))"

text \<open>
  A round that reads nothing and still has a text would be repeated forever. Whether there is one depends on
  the converter of the environment, so the loop has fuel: one more than the bytes of the input.
\<close>

fun phrase_loop :: "nat \<Rightarrow> go_env \<Rightarrow> parser \<Rightarrow> bool \<Rightarrow> string \<Rightarrow> string \<Rightarrow> (string \<times> parser) go" where
  "phrase_loop 0 E p wasEncoded spaces buf = Inl OutOfFuel"
| "phrase_loop (Suc n) E p wasEncoded spaces buf =
     (if AtEnd p then Inr (buf, p)
      else go_bind (phrase_word E p) (\<lambda>(t, encoded, h, p).
           if h \<or> t \<noteq> [] then
             let buf = (if \<not> encoded \<or> \<not> wasEncoded then buf @ spaces else buf) @ t;
                 (spaces, p) = Whitespace p;
                 start = p_at p;
                 (_, p) = Comment E p;
                 spaces = (if spaces = [] \<and> start < p_at p then '' '' else spaces);
                 spaces = (if containsAny spaces [CR, LF] then '' '' else spaces)
             in phrase_loop n E p encoded spaces buf
           else Inr (buf, p)))"

definition Phrase :: "go_env \<Rightarrow> parser \<Rightarrow> (string \<times> parser) go" where
  "Phrase E p =
     (let (_, p) = Comment E p in phrase_loop (length (p_str p) + 1) E p False [] [])"

end
