(* ===== verification/ParserLaws.thy ===== *)
theory ParserLaws
  imports Parser
begin

text \<open>
  What the parser of \<^verbatim>\<open>parser.go\<close> guarantees: every operation reads forward and keeps the stack of marks,
  \<open>restore\<close> undoes whatever happened since its mark, the loops end, and the productions accept what the
  library prints.
\<close>

section \<open>Every operation extends the state\<close>

lemma advances_quoted_loop: "quoted_loop p buf = Inr (s, q) \<Longrightarrow> advances p q"
proof (induction p buf rule: quoted_loop.induct)
  case (1 p buf)
  show ?case
  proof (cases "AtEnd p")
    case True
    with 1(4) show ?thesis by (simp add: quoted_loop.simps [of p])
  next
    case False
    let ?c = "NextChar p"
    obtain w p2 where p2: "Whitespace (Step 1 p) = (w, p2)" by fastforce
    have a: "advances (Step 1 p) p2" using advances_Whitespace [of "Step 1 p"] p2 by simp
    consider "?c = CHR 0x22" | "?c = CHR 0x5C"
      | "?c \<noteq> CHR 0x22" "?c \<noteq> CHR 0x5C" "?c = CHR 0x09 \<or> ?c = CR \<or> ?c = LF \<or> ?c = CHR '' ''"
      | "?c \<noteq> CHR 0x22" "?c \<noteq> CHR 0x5C" "\<not> (?c = CHR 0x09 \<or> ?c = CR \<or> ?c = LF \<or> ?c = CHR '' '')"
      by blast
    then show ?thesis
    proof cases
      case 1
      with "1.prems" False show ?thesis by (auto simp: quoted_loop.simps [of p])
    next
      case 2
      with "1.prems" False have "quoted_loop (Step 1 (Step 1 p)) (buf @ [NextChar (Step 1 p)]) = Inr (s, q)"
        by (simp add: quoted_loop.simps [of p] Let_def)
      with "1.IH"(1) [OF _ refl refl] 2 False show ?thesis by (auto intro: advances_StepsI)
    next
      case 3
      with "1.prems" False p2 obtain t where
        "substr (p_str p2) (p_at p) (p_at p2) = Inr t"
        "quoted_loop p2 (buf @ (if containsAny t [CR, LF] then '' '' else t)) = Inr (s, q)"
        by (auto simp: quoted_loop.simps [of p] go_bind_eq_Inr)
      with "1.IH"(2) [OF _ refl refl 3 refl p2 [symmetric] refl] False a show ?thesis
        by (auto intro: advances_StepI advances_trans)
    next
      case 4
      with "1.prems" False have "quoted_loop (Step 1 p) (buf @ [NextChar p]) = Inr (s, q)"
        by (simp add: quoted_loop.simps [of p] Let_def)
      with "1.IH"(3) [OF _ refl refl 4] False show ?thesis by (auto intro: advances_StepI)
    qed
  qed
qed

lemma advances_String: "String E p = Inr (s, q) \<Longrightarrow> advances p q"
proof -
  assume s: "String E p = Inr (s, q)"
  obtain w p1 where p1: "Comment E p = (w, p1)" by fastforce
  have a: "advances p p1" using advances_Comment [of p E] p1 by simp
  show ?thesis
  proof (cases "NextChar p1 = CHR 0x22")
    case True
    then have "\<not> AtEnd p1" by (auto simp: NextChar_def AtEnd_def split: if_splits)
    moreover have "advances (Step 1 p1) q"
      using s p1 True by (auto simp: String_def dest: advances_quoted_loop)
    ultimately show ?thesis using a advances_StepI advances_trans by blast
  next
    case False
    with s p1 have "q = snd (Atom E p1)" by (auto simp: String_def)
    with a advances_Atom [of p1 E] show ?thesis by (auto intro: advances_trans)
  qed
qed

lemma advances_MIMEValue: "MIMEValue E p = Inr (s, q) \<Longrightarrow> advances p q"
proof -
  assume v: "MIMEValue E p = Inr (s, q)"
  obtain w p1 where p1: "Comment E p = (w, p1)" by fastforce
  have "advances p p1" using advances_Comment [of p E] p1 by simp
  also have "advances p1 q"
    using v p1 advances_String [of E p1 s q] advances_MIMEToken [of p1 E]
    by (auto simp: MIMEValue_def split: if_splits)
  finally show ?thesis .
qed

lemma extends_dotAtom_next:
  assumes "dotAtom_next E p = Inr (a, q)"
  shows "extends p q"
proof -
  obtain m p1 where p1: "mark p = (m, p1)" by fastforce
  then have m: "m = p_mark p" "marked p p1" using marked_mark [OF p1] by auto
  obtain w1 p2 where p2: "Comment E p1 = (w1, p2)" by fastforce
  from assms p1 p2 obtain p3 where p3: "require E ''.'' p2 = Inr p3"
    by (auto simp: dotAtom_next_def go_bind_eq_Inr)
  obtain w2 p4 where p4: "Comment E p3 = (w2, p4)" by fastforce
  obtain b p5 where p5: "Atom E p4 = (b, p5)" by fastforce
  define p6 where "p6 = (if b = [] then setErr TrailingDot p5 else p5)"
  have "settled p1 p2" "settled p3 p4" "settled p4 p5" "settled p5 p6"
    using advances_Comment [of p1 E] p2 advances_Comment [of p3 E] p4 advances_Atom [of p4 E] p5
    by (simp_all add: advances_settled p6_def)
  then have "settled p1 p6"
    by (rule settled_trans [OF settled_trans [OF settled_trans [OF settled_trans [OF _ settled_require [OF p3]]]]])
  with m(2) have m6: "marked p p6" by (rule marked_settled)
  from assms p1 p2 p3 p4 p5 have "q = (if Valid p6 then p6 else restore m p6)"
    by (auto simp: dotAtom_next_def p6_def Let_def split: if_splits)
  with m m6 show ?thesis by (simp add: settled_extends marked_is_extends restore_settled)
qed

lemma extends_dotAtom_loop: "dotAtom_loop E p r = Inr (s, q) \<Longrightarrow> extends p q"
proof (induction E p r rule: dotAtom_loop.induct)
  case (1 E p r)
  then obtain a p1 where p1: "dotAtom_next E p = Inr (a, p1)"
    by (auto simp: dotAtom_loop.simps [of E p] go_bind_eq_Inr)
  have e: "extends p p1" using p1 by (rule extends_dotAtom_next)
  show ?case
  proof (cases a)
    case None
    with 1(2) p1 e show ?thesis by (simp add: dotAtom_loop.simps [of E p])
  next
    case (Some b)
    with 1(2) p1 have "dotAtom_loop E p1 (r @ ''.'' @ b) = Inr (s, q)" by (simp add: dotAtom_loop.simps [of E p])
    with 1(1) [OF p1 refl Some] e show ?thesis by (auto intro: extends_trans)
  qed
qed

lemma extends_DotAtom: "DotAtom E p = Inr (s, q) \<Longrightarrow> extends p q"
proof -
  assume d: "DotAtom E p = Inr (s, q)"
  obtain r p1 where p1: "Atom E p = (r, p1)" by fastforce
  then have "extends p p1" using advances_Atom [of p E] by (simp add: advances_extends)
  with d p1 show ?thesis
    by (auto simp: DotAtom_def split: if_splits dest: extends_dotAtom_loop intro: extends_trans)
qed

lemma extends_text_loop: "text_loop E p sp out = Inr (s, q) \<Longrightarrow> extends p q"
proof (induction E p sp out rule: text_loop.induct)
  case (1 E p sp out)
  then obtain word p1 where p1: "text_word E p = Inr (word, p1)"
    by (auto simp: text_loop.simps [of E p] go_bind_eq_Inr)
  have e: "extends p p1" using p1 by (rule extends_text_word)
  obtain w p2 where p2: "Whitespace p1 = (w, p2)" by fastforce
  have e2: "extends p p2" using e advances_Whitespace [of p1] p2 by (auto intro: extends_trans advances_extends)
  show ?case
  proof (cases "p_at p1 = p_at p")
    case True
    with 1(2) p1 e show ?thesis by (simp add: text_loop.simps [of E p])
  next
    case False
    with 1(2) p1 p2 have "text_loop E p2 (if containsAny w [CR, LF] then '' '' else w) (out @ sp @ word) = Inr (s, q)"
      by (simp add: text_loop.simps [of E p])
    with 1(1) [OF p1 refl False p2 [symmetric] refl] e2 show ?thesis by (auto intro: extends_trans)
  qed
qed

lemma extends_Text: "Text E p = Inr (s, q) \<Longrightarrow> extends p q"
proof -
  assume t: "Text E p = Inr (s, q)"
  obtain w p1 where p1: "Whitespace p = (w, p1)" by fastforce
  then have "extends p p1" using advances_Whitespace [of p] by (simp add: advances_extends)
  with t p1 show ?thesis by (auto simp: Text_def dest: extends_text_loop intro: extends_trans)
qed

lemma extends_restore: "extends p q \<Longrightarrow> extends p (restore (p_mark p) q)"
proof -
  assume "extends p q"
  then obtain p' where p': "settled p p'" "q = p' \<or> marked p' q" by (auto simp: extends_def)
  have m: "p_mark p' = p_mark p" using settled_frame [OF p'(1)] by simp
  have "extends p' (restore (p_mark p') q)"
    using p'(2)
  proof
    assume "q = p'"
    then have "restore (p_mark p') q = p'"
      by (cases p') (simp add: restore_def parserState.truncate_def)
    then show ?thesis by (simp add: settled_extends)
  qed (rule settled_extends [OF restore_settled])
  with m settled_extends [OF p'(1)] show ?thesis by (simp add: extends_trans)
qed

lemma extends_Present: "Present E s p = (b, q) \<Longrightarrow> extends p q"
  by (rule advances_extends [OF advances_Present])

lemma extends_phrase_encoded:
  assumes "phrase_encoded E (p_mark p) q = Inr (t, r)" and "extends p q"
  shows "extends p r"
proof -
  obtain b q1 where q1: "Present E ''=?'' q = (b, q1)" by fastforce
  then have "extends p q1" using assms(2) extends_Present extends_trans by blast
  with assms(1) q1 extends_restore [of p q1] show ?thesis
    by (cases b) (auto simp: phrase_encoded_def intro: extends_trans dest: extends_encodedWords)
qed

lemma extends_phrase_quoted:
  assumes "phrase_quoted E (p_mark p) t q = Inr (t', r)" and "extends p q"
  shows "extends p r"
proof -
  obtain b q1 where q1: "Present E [CHR 0x22] q = (b, q1)" by fastforce
  then have "extends p q1" using assms(2) extends_Present extends_trans by blast
  with assms(1) q1 extends_restore [of p q1] show ?thesis
    by (cases b) (auto simp: phrase_quoted_def go_bind_eq_Inr
        intro: extends_trans advances_extends dest!: advances_String)
qed

lemma phrase_word_cases:
  assumes "phrase_word E p = Inr (t, encoded, h, q)"
  obtains "extends p q" "p_at p < p_at q" "h"
  | p3 a where "extends p p3" "\<not> p_at p < p_at p3" "Atom E p3 = (a, q)" "t = decodeAscii E a"
      "h = (p_at p < p_at q)"
proof -
  obtain m p1 where p1: "mark p = (m, p1)" by fastforce
  then have m: "m = p_mark p" "extends p p1" using marked_mark [OF p1] by (auto intro: marked_is_extends)
  from assms p1 obtain t2 p2 where p2: "phrase_encoded E m p1 = Inr (t2, p2)"
    by (auto simp: phrase_word_def go_bind_eq_Inr Let_def)
  have e2: "extends p p2" using p2 m by (auto intro: extends_phrase_encoded)
  from assms p1 p2 obtain t3 p3 where
    p3: "(if p_at p < p_at p2 then Inr (t2, p2) else phrase_quoted E m t2 p2) = Inr (t3, p3)"
    by (auto simp: phrase_word_def go_bind_eq_Inr Let_def split: if_splits)
  have e3: "extends p p3" using p3 e2 m by (auto split: if_splits intro: extends_phrase_quoted)
  show ?thesis
  proof (cases "p_at p < p_at p3")
    case True
    with assms p1 p2 p3 e3 show ?thesis by (intro that(1)) (auto simp: phrase_word_def Let_def)
  next
    case False
    with assms p1 p2 p3 e3 show ?thesis
      by (intro that(2) [of p3 "fst (Atom E p3)"]) (auto simp: phrase_word_def Let_def split: prod.splits)
  qed
qed

lemma extends_phrase_word:
  assumes "phrase_word E p = Inr (t, encoded, h, q)"
  shows "extends p q \<and> (h \<longleftrightarrow> p_at p < p_at q)"
  using assms
proof (cases rule: phrase_word_cases)
  case (2 p3 a)
  then have "extends p3 q" using advances_extends [OF advances_Atom [of p3 E]] by simp
  with 2 show ?thesis by (auto intro: extends_trans)
qed simp

lemma phrase_loop_Suc:
  assumes "phrase_word E p = Inr (t, encoded, h, p1)" and "\<not> AtEnd p"
    and "Whitespace p1 = (w, p2)" and "Comment E p2 = (c, p3)"
  shows "\<exists>spaces' buf'. phrase_loop (Suc n) E p wasEncoded spaces buf =
    (if h \<or> t \<noteq> [] then phrase_loop n E p3 encoded spaces' buf' else Inr (buf, p1))"
proof (cases "h \<or> t \<noteq> []")
  case True
  then show ?thesis unfolding phrase_loop.simps using assms by (simp add: Let_def) blast
next
  case False
  with assms show ?thesis by simp
qed

lemma extends_phrase_loop: "phrase_loop n E p we sp buf = Inr (s, q) \<Longrightarrow> extends p q"
proof (induction n arbitrary: p we sp buf)
  case (Suc n)
  show ?case
  proof (cases "AtEnd p")
    case True
    with Suc.prems show ?thesis by (simp add: settled_extends)
  next
    case False
    with Suc.prems obtain t e h p1 where p1: "phrase_word E p = Inr (t, e, h, p1)"
      by (auto simp: go_bind_eq_Inr)
    obtain w p2 where p2: "Whitespace p1 = (w, p2)" by fastforce
    obtain c p3 where p3: "Comment E p2 = (c, p3)" by fastforce
    have x1: "extends p p1" using extends_phrase_word [OF p1] by simp
    also have "extends p1 p2" using advances_Whitespace [of p1] p2 by (simp add: advances_extends)
    also have "extends p2 p3" using advances_Comment [of p2 E] p3 by (simp add: advances_extends)
    finally have x3: "extends p p3" .
    obtain sp' buf' where "phrase_loop (Suc n) E p we sp buf =
        (if h \<or> t \<noteq> [] then phrase_loop n E p3 e sp' buf' else Inr (buf, p1))"
      using phrase_loop_Suc [OF p1 False p2 p3] by blast
    with Suc x1 x3 show ?thesis by (auto split: if_splits intro: extends_trans)
  qed
qed simp

lemma extends_Phrase: "Phrase E p = Inr (s, q) \<Longrightarrow> extends p q"
proof -
  assume p: "Phrase E p = Inr (s, q)"
  obtain w p1 where p1: "Comment E p = (w, p1)" by fastforce
  then have "extends p p1" using advances_Comment [of p E] by (simp add: advances_extends)
  with p p1 show ?thesis by (auto simp: Phrase_def simp del: phrase_loop.simps dest: extends_phrase_loop intro: extends_trans)
qed

section \<open>Sequences of operations\<close>

text \<open>
  The operations a caller can apply, as steps of a relation. \<open>restore\<close> is not one of them: it is what the
  theorem below is about; the operations that call it themselves are.
\<close>

inductive parser_op :: "go_env \<Rightarrow> parser \<Rightarrow> parser \<Rightarrow> bool" for E :: go_env where
  op_whitespace: "Whitespace p = (s, q) \<Longrightarrow> parser_op E p q"
| op_comment: "Comment E p = (s, q) \<Longrightarrow> parser_op E p q"
| op_string: "String E p = Inr (s, q) \<Longrightarrow> parser_op E p q"
| op_dotAtom: "DotAtom E p = Inr (s, q) \<Longrightarrow> parser_op E p q"
| op_atom: "Atom E p = (s, q) \<Longrightarrow> parser_op E p q"
| op_mimeToken: "MIMEToken E p = (s, q) \<Longrightarrow> parser_op E p q"
| op_mimeValue: "MIMEValue E p = Inr (s, q) \<Longrightarrow> parser_op E p q"
| op_encodedWord: "encodedWord E t p = Inr (s, q) \<Longrightarrow> parser_op E p q"
| op_encodedWords: "encodedWords E t p = Inr (s, q) \<Longrightarrow> parser_op E p q"
| op_text: "Text E p = Inr (s, q) \<Longrightarrow> parser_op E p q"
| op_phrase: "Phrase E p = Inr (s, q) \<Longrightarrow> parser_op E p q"
| op_present: "Present E w p = (b, q) \<Longrightarrow> parser_op E p q"
| op_require: "require E w p = Inr q \<Longrightarrow> parser_op E p q"
| op_step: "\<not> AtEnd p \<Longrightarrow> parser_op E p (Step n p)"
| op_mark: "mark p = (m, q) \<Longrightarrow> parser_op E p q"

lemmas advances_eqs =
  advances_Whitespace advances_Comment advances_Atom advances_MIMEToken

lemma parser_op_extends: "parser_op E p q \<Longrightarrow> extends p q"
proof (induction rule: parser_op.induct)
  case (op_whitespace p s q)
  then show ?case using advances_extends [OF advances_Whitespace [of p]] by simp
next
  case (op_comment p s q)
  then show ?case using advances_extends [OF advances_Comment [of p E]] by simp
next
  case (op_atom p s q)
  then show ?case using advances_extends [OF advances_Atom [of p E]] by simp
next
  case (op_mimeToken p s q)
  then show ?case using advances_extends [OF advances_MIMEToken [of p E]] by simp
next
  case (op_mark p m q)
  then show ?case using marked_mark marked_is_extends by blast
qed (auto intro: extends_DotAtom extends_encodedWord extends_encodedWords extends_Text extends_Phrase
    extends_Present advances_extends advances_String advances_MIMEValue settled_extends settled_require)

lemma parser_ops_extends: "(parser_op E)\<^sup>*\<^sup>* p q \<Longrightarrow> extends p q"
  by (induction rule: rtranclp_induct) (auto intro: settled_extends extends_trans parser_op_extends)

text \<open>
  C6. Whatever operations run after a mark, with any marks they take themselves, \<open>restore\<close> brings back the
  cursor, the error and the marks of the moment of the mark; only the last comment is kept.
\<close>

theorem restore_undoes:
  assumes "mark p = (m, q)" and "(parser_op E)\<^sup>*\<^sup>* q r"
  shows "restore m r = p \<lparr> p_lc := p_lc r \<rparr>"
  using marked_mark [OF assms(1)] parser_ops_extends [OF assms(2)] marked_extends restore_marked by blast

theorem restore_undoes_witness:
  "restore 1 (Step 1 (snd (mark (newParser ''ab'')))) = newParser ''ab''"
proof -
  let ?q = "snd (mark (newParser ''ab''))"
  have "mark (newParser ''ab'') = (1, ?q)" by (simp add: mark_def newParser_def)
  moreover have "(parser_op plainEnv)\<^sup>*\<^sup>* ?q (Step 1 ?q)"
    by (rule r_into_rtranclp, rule op_step) (simp add: AtEnd_def newParser_def)
  ultimately show ?thesis
    using restore_undoes [of "newParser ''ab''" 1 ?q plainEnv "Step 1 ?q"] by (simp add: newParser_def mark_def Step_def)
qed

text \<open>
  C9. No operation changes the input or moves the cursor back, and one that moves it started inside the input.
\<close>

theorem parser_forward:
  assumes "(parser_op E)\<^sup>*\<^sup>* p q"
  shows "p_str q = p_str p \<and> p_at p \<le> p_at q \<and> (p_at p < p_at q \<longrightarrow> p_at p < length (p_str p))"
  using extends_reads [OF parser_ops_extends [OF assms]] by (simp add: reads_def)

theorem parser_forward_witness:
  "p_at (newParser ''ab'') \<le> p_at (Step 1 (newParser ''ab''))"
proof -
  have "(parser_op plainEnv)\<^sup>*\<^sup>* (newParser ''ab'') (Step 1 (newParser ''ab''))"
    by (rule r_into_rtranclp, rule op_step) (simp add: AtEnd_def newParser_def)
  from parser_forward [OF this] show ?thesis by simp
qed

section \<open>Phrases end\<close>

lemma tame_simplify [simp]: "tame (simplify s)"
  by (simp add: simplify_def substr_def Let_def split: prod.split)

lemma tame_following: "tame (following p)"
  by (simp add: following_def Let_def)

lemma tame_require: "tame (require E s p)"
  by (auto simp: require_def tame_following intro: tame_bind split: prod.splits bool.splits)

lemma tame_str_section: "tame (str_section s t n)"
  by (simp add: str_section_def Let_def)

lemma tame_backspace_loop: "tame (backspace_loop r i)"
proof (induction r i rule: backspace_loop.induct)
  case (1 r i)
  show ?case
    by (subst backspace_loop.simps, rule tame_bind)
      (use 1 in \<open>auto simp: Let_def split: option.splits\<close>)
qed

lemma tame_encodedWord_read: "tame (encodedWord_read E t p)"
  by (auto simp: encodedWord_read_def tame_require tame_str_section Let_def
      intro!: tame_bind split: prod.splits)

lemma tame_encodedWord_text: "tame (encodedWord_text E cs e x)"
  by (auto simp: encodedWord_text_def tame_backspace_loop intro!: tame_bind split: option.splits)

lemma tame_encodedWord: "tame (encodedWord E t p)"
  by (auto simp: encodedWord_def tame_require tame_encodedWord_read tame_encodedWord_text
      intro!: tame_bind split: prod.splits sum.splits)

lemma tame_encodedWords_loop: "tame (encodedWords_loop E t p out)"
proof (induction E t p out rule: encodedWords_loop.induct)
  case (1 E t p out)
  show ?case
    by (subst encodedWords_loop.simps)
      (use 1 in \<open>auto simp: tame_encodedWord intro!: tame_bind split: prod.splits\<close>)
qed

lemma tame_quoted_loop: "tame (quoted_loop p buf)"
proof (induction p buf rule: quoted_loop.induct)
  case (1 p buf)
  show ?case
    by (subst quoted_loop.simps)
      (use 1 in \<open>auto simp: Let_def intro!: tame_bind split: prod.splits\<close>)
qed

lemma tame_String: "tame (String E p)"
  by (simp add: String_def tame_quoted_loop split: prod.splits)

lemma tame_phrase_word: "tame (phrase_word E p)"
  by (auto simp: phrase_word_def phrase_encoded_def phrase_quoted_def encodedWords_def
      tame_encodedWords_loop tame_String Let_def
      intro!: tame_bind split: prod.splits bool.splits)

text \<open>A round that reads nothing has no text, provided the converter makes nothing of nothing.\<close>

lemma phrase_word_stuck:
  assumes w: "phrase_word E p = Inr (t, encoded, h, q)" and "\<not> h" and "decodeAscii E [] = []"
  shows "t = []"
  using w
proof (cases rule: phrase_word_cases)
  case (2 p3 a)
  obtain w p4 where p4: "Comment E p3 = (w, p4)" by fastforce
  have "p_at p3 \<le> p_at p4" using advances_le [OF advances_Comment [of p3 E]] p4 by simp
  moreover have "p_at q = p_at p4 + length a" using 2(3) p4 by (auto simp: Atom_def span_def Let_def)
  moreover have "p_at q \<le> p_at p" "p_at p \<le> p_at p3"
    using 2 assms(2) extends_reads [OF 2(1)] by (auto simp: reads_def)
  ultimately have "length a = 0" by linarith
  then show ?thesis using 2 assms(3) by simp
qed (use assms(2) in simp)

lemma phrase_loop_tame:
  assumes "decodeAscii E [] = []"
  shows "length (p_str p) - p_at p < n \<Longrightarrow> tame (phrase_loop n E p we sp buf)"
proof (induction n arbitrary: p we sp buf)
  case (Suc n)
  show ?case
  proof (cases "AtEnd p \<or> (\<exists>f. phrase_word E p = Inl f)")
    case True
    with tame_phrase_word [of E p] show ?thesis by (auto simp: tame_def)
  next
    case False
    then obtain t e h p1 where p1: "phrase_word E p = Inr (t, e, h, p1)"
      by (cases "phrase_word E p") auto
    obtain w p2 where p2: "Whitespace p1 = (w, p2)" by fastforce
    obtain c p3 where p3: "Comment E p2 = (c, p3)" by fastforce
    have "reads p1 p2" "reads p2 p3"
      using advances_reads [OF advances_Whitespace [of p1]] advances_reads [OF advances_Comment [of p2 E]] p2 p3
      by simp_all
    then have "reads p1 p3" by (rule reads_trans)
    moreover have "reads p p1" "h \<longleftrightarrow> p_at p < p_at p1"
      using extends_phrase_word [OF p1] extends_reads by auto
    ultimately have less: "h \<Longrightarrow> length (p_str p3) - p_at p3 < n" using Suc.prems by (auto simp: reads_def)
    from False have "\<not> AtEnd p" by simp
    from phrase_loop_Suc [OF p1 this p2 p3] obtain sp' buf' where
      "phrase_loop (Suc n) E p we sp buf = (if h \<or> t \<noteq> [] then phrase_loop n E p3 e sp' buf' else Inr (buf, p1))"
      by blast
    with Suc.IH [OF less] phrase_word_stuck [OF p1 _ assms] show ?thesis by auto
  qed
qed simp

text \<open>
  C10. \<open>Phrase\<close> ends: when the US-ASCII converter makes nothing of the empty string, the fuel of its loop is
  enough on every input, and its only panics are reads and slices out of range.
\<close>

theorem Phrase_terminates:
  assumes "\<And>w. cs_writer E ''us-ascii'' = Some w \<Longrightarrow> fst (w []) = []"
  shows "tame (Phrase E p)"
proof -
  have "decodeAscii E [] = []"
    using assms by (auto simp: decodeAscii_def decode_def split: option.splits prod.splits)
  then show ?thesis
    using phrase_loop_tame [of E]
    by (auto simp: Phrase_def simp del: phrase_loop.simps split: prod.splits)
qed

theorem Phrase_terminates_witness: "tame (Phrase plainEnv (newParser ''a b''))"
  by (rule Phrase_terminates) (auto simp: plainEnv_def)

end
