(* ===== verification/Addresses.thy ===== *)
theory Addresses
  imports EncodedWord Quoting
begin

text \<open>
  Mail addresses: the struct \<open>Address\<close> of \<^verbatim>\<open>addresses.go\<close>, its constructor, how it is printed, and the
  removal of duplicates from a list of addresses.
\<close>

section \<open>The struct\<close>

datatype AddressType =
    NormalAddressType
  | BounceAddressType
  | EmptyGroupAddressType
  | LocalAddressType
  | InvalidAddressType

text \<open>
  The errors of the address parser: a message with a position and the text near it, a localpart that is too
  long, and the error of an address reported for the list.
\<close>

datatype addr_error =
    AtPosition string int string
  | LocalpartTooLong nat string string
  | Reported addr_error int string

record Address =
  a_id :: nat
  a_name :: string
  a_localpart :: string
  a_domain :: string
  a_t :: AddressType
  a_err :: "addr_error option"

definition NewAddress :: "string \<Rightarrow> string \<Rightarrow> string \<Rightarrow> Address" where
  "NewAddress name localpart domain =
     \<lparr> a_id = 0, a_name = name, a_localpart = localpart, a_domain = domain,
       a_t = (if domain \<noteq> [] then NormalAddressType
              else if localpart \<noteq> [] then LocalAddressType
              else if name \<noteq> [] then EmptyGroupAddressType
              else if name = [] \<and> localpart = [] \<and> domain = [] then BounceAddressType
              else InvalidAddressType),
       a_err = None \<rparr>"

section \<open>Printing\<close>

definition isNameAtomChar :: "char \<Rightarrow> bool" where
  "isNameAtomChar c \<longleftrightarrow> isLower c \<or> isUpper c \<or> isDigit c \<or> c \<in> set ''!#$%&*+-/=?^_`{|}~ '' \<or> c = CHR 0x27"

text \<open>The loop of \<open>Name\<close>: the flags \<open>atom\<close> and \<open>ascii\<close> (here \<open>isasc\<close>) after it.\<close>

fun name_scan :: "string \<Rightarrow> bool \<Rightarrow> bool \<Rightarrow> bool \<Rightarrow> bool \<times> bool" where
  "name_scan [] avoidUTF8 atom isasc = (atom, isasc)"
| "name_scan (c # cs) avoidUTF8 atom isasc =
     (if isNameAtomChar c then name_scan cs avoidUTF8 atom isasc
      else if CHR 0x80 \<le> c then name_scan cs avoidUTF8 (if avoidUTF8 then False else atom) False
      else name_scan cs avoidUTF8 False isasc)"

definition Name :: "Address \<Rightarrow> bool \<Rightarrow> string go" where
  "Name a avoidUTF8 =
     (let (atom, isasc) = name_scan (a_name a) avoidUTF8 True True
      in if atom \<or> length (a_name a) = 0 then Inr (a_name a)
         else if isasc \<or> \<not> avoidUTF8 then Inr (quote (a_name a) (CHR 0x22) (CHR 0x5C))
         else encodePhrase (a_name a))"

definition isSensibleChar :: "char \<Rightarrow> bool" where
  "isSensibleChar c \<longleftrightarrow>
     isLower c \<or> isUpper c \<or> isDigit c \<or> c \<in> set ''!#$%&*+-/=?^_`{|}~'' \<or> c = CHR 0x27 \<or> CHR 0xA1 \<le> c"

fun localpartIsSensible_loop :: "string \<Rightarrow> bool go" where
  "localpartIsSensible_loop [] = Inr True"
| "localpartIsSensible_loop (c # cs) =
     (if c = CHR ''.'' then
        go_bind (idx cs 0) (\<lambda>d. if d = CHR ''.'' then Inr False else localpartIsSensible_loop cs)
      else if \<not> isSensibleChar c then Inr False
      else localpartIsSensible_loop cs)"

definition localpartIsSensible :: "Address \<Rightarrow> bool go" where
  "localpartIsSensible a =
     (if a_localpart a = [] then Inr False else localpartIsSensible_loop (a_localpart a))"

definition needsUnicode :: "Address \<Rightarrow> bool" where
  "needsUnicode a = (if isAscii (a_localpart a) \<and> isAscii (a_domain a) then False else True)"

text \<open>The localpart as it is printed, quoted with the escape character the source passes.\<close>

definition localpartText :: "Address \<Rightarrow> string go" where
  "localpartText a =
     go_bind (localpartIsSensible a) (\<lambda>ok.
     Inr (if ok then a_localpart a else quote (a_localpart a) (CHR 0x22) (CHR 0x27)))"

definition Address_toString :: "Address \<Rightarrow> bool \<Rightarrow> string go" where
  "Address_toString a avoidUTF8 =
     (case a_t a of
        InvalidAddressType \<Rightarrow> Inr []
      | BounceAddressType \<Rightarrow> Inr ''<>''
      | EmptyGroupAddressType \<Rightarrow> go_bind (Name a True) (\<lambda>n. Inr (n @ '':;''))
      | LocalAddressType \<Rightarrow>
          if avoidUTF8 \<and> needsUnicode a then Inr ''this-address@needs-unicode.invalid''
          else localpartText a
      | NormalAddressType \<Rightarrow>
          if avoidUTF8 \<and> needsUnicode a then Inr ''this-address@needs-unicode.invalid''
          else go_bind (if a_name a \<noteq> []
                        then go_bind (Name a avoidUTF8) (\<lambda>n. Inr (n @ '' <'', ''>''))
                        else Inr ([], [])) (\<lambda>(prefix, postfix).
               go_bind (localpartText a) (\<lambda>lp.
               Inr (prefix @ lp @ ''@'' @ a_domain a @ postfix))))"

definition lpdomain :: "Address \<Rightarrow> string go" where
  "lpdomain a =
     go_bind (if a_t a = NormalAddressType \<or> a_t a = LocalAddressType then localpartText a else Inr []) (\<lambda>r.
     let r = (if a_t a = NormalAddressType then r @ ''@'' @ a_domain a else r)
     in if r = [] then Address_toString a False else Inr r)"

section \<open>What is printed\<close>

text \<open>No two dots stand side by side.\<close>

fun noDoubleDot :: "string \<Rightarrow> bool" where
  "noDoubleDot (c # d # cs) \<longleftrightarrow> \<not> (c = CHR ''.'' \<and> d = CHR ''.'') \<and> noDoubleDot (d # cs)"
| "noDoubleDot cs \<longleftrightarrow> True"

lemma sensible_loop_True:
  "localpartIsSensible_loop cs = Inr True \<longleftrightarrow>
     (\<forall>c\<in>set cs. c = CHR ''.'' \<or> isSensibleChar c) \<and> noDoubleDot cs \<and> (cs \<noteq> [] \<longrightarrow> last cs \<noteq> CHR ''.'')"
proof (induction cs)
  case (Cons c cs)
  show ?case
  proof (cases cs)
    case Nil
    then show ?thesis by (simp add: idx_def)
  next
    case ds: (Cons d ds)
    then have "idx cs 0 = Inr d" "cs \<noteq> []" "d \<in> set cs"
      "noDoubleDot (c # cs) \<longleftrightarrow> \<not> (c = CHR ''.'' \<and> d = CHR ''.'') \<and> noDoubleDot cs"
      by (simp_all add: idx_def)
    with Cons.IH show ?thesis by (cases "c = CHR ''.''"; cases "d = CHR ''.''") simp_all
  qed
qed simp

text \<open>
  C39. A localpart is printed unquoted exactly when it is a sequence of atom characters and single dots that
  does not end in a dot, and is not empty: what \<open>localpartIsSensible\<close> decides.
\<close>

theorem localpartIsSensible_iff:
  "localpartIsSensible a = Inr True \<longleftrightarrow>
     a_localpart a \<noteq> [] \<and> list_all (\<lambda>c. c = CHR ''.'' \<or> isSensibleChar c) (a_localpart a) \<and>
     noDoubleDot (a_localpart a) \<and> last (a_localpart a) \<noteq> CHR ''.''"
  by (auto simp: localpartIsSensible_def sensible_loop_True list_all_iff)

text \<open>A localpart of atom characters that ends in a dot makes it index past the end.\<close>

lemma localpartIsSensible_panics:
  "localpartIsSensible (NewAddress [] ''joe.'' ''example.com'') = Inl IndexOutOfRange"
  by code_simp

lemma name_scan_spec:
  "\<forall>c\<in>set cs. c < CHR 0x80 \<Longrightarrow>
   name_scan cs av atom isasc = (atom \<and> (\<forall>c\<in>set cs. isNameAtomChar c), isasc)"
  by (induction cs av atom isasc rule: name_scan.induct) (simp_all add: not_le [symmetric])

text \<open>
  C40. The name of an address, if it is ASCII, is printed as it is where it has only atom characters and
  spaces, and otherwise as a quoted string from which \<open>unquote\<close> gives the name back.
\<close>

theorem Name_ascii:
  "\<forall>c\<in>set (a_name a). c < CHR 0x80 \<Longrightarrow>
   \<exists>t. Name a avoidUTF8 = Inr t \<and>
     (if \<forall>c\<in>set (a_name a). isNameAtomChar c then t = a_name a
      else isQuoted t (CHR 0x22) (CHR 0x5C) \<and> unquote t (CHR 0x22) (CHR 0x5C) = a_name a)"
  by (auto simp: Name_def name_scan_spec unquote_quoted quote_isQuoted)

theorem Name_ascii_witness:
  "list_all (\<lambda>c. c < CHR 0x80) ''J. Doe'' \<and>
   (\<exists>t. Name (NewAddress ''J. Doe'' ''joe'' ''example.com'') True = Inr t \<and>
      unquote t (CHR 0x22) (CHR 0x5C) = ''J. Doe'')"
proof -
  have "\<not> isNameAtomChar (CHR ''.'')" by code_simp
  moreover have "list_all (\<lambda>c. c < CHR 0x80) ''J. Doe''" by code_simp
  ultimately show ?thesis
    using Name_ascii [of "NewAddress ''J. Doe'' ''joe'' ''example.com''" True] by (auto simp: NewAddress_def list_all_iff)
qed

section \<open>Duplicates\<close>

definition address_key :: "go_env \<Rightarrow> Address \<Rightarrow> string" where
  "address_key E a = toTitle E (a_localpart a) @ ''@'' @ toTitle E (a_domain a)"

text \<open>The loop: \<open>dict\<close> maps keys to positions in \<open>unique\<close>.\<close>

fun uniquify_loop :: "go_env \<Rightarrow> Address list \<Rightarrow> (string \<Rightarrow> nat option) \<Rightarrow> Address list \<Rightarrow> Address list go" where
  "uniquify_loop E [] dict unique = Inr unique"
| "uniquify_loop E (a # as) dict unique =
     (let k = address_key E a
      in case dict k of
           None \<Rightarrow> uniquify_loop E as (dict(k \<mapsto> length unique)) (unique @ [a])
         | Some ix \<Rightarrow>
             go_bind (idx unique ix) (\<lambda>u.
             if a_name u = [] \<and> a_name a \<noteq> [] then uniquify_loop E as dict (unique[ix := a])
             else uniquify_loop E as dict unique))"

definition Uniquify :: "go_env \<Rightarrow> Address list \<Rightarrow> Address list go" where
  "Uniquify E as = (if length as = 0 then Inr as else uniquify_loop E as (\<lambda>_. None) [])"

section \<open>What Uniquify keeps\<close>

text \<open>The keys of a list in the order of their first occurrences, after those seen before.\<close>

fun firstSeen :: "'k list \<Rightarrow> 'k list \<Rightarrow> 'k list" where
  "firstSeen seen [] = seen"
| "firstSeen seen (k # ks) = firstSeen (if k \<in> set seen then seen else seen @ [k]) ks"

text \<open>The map holds the position of every key of the list.\<close>

definition indexed :: "('a \<Rightarrow> 'k) \<Rightarrow> ('k \<Rightarrow> nat option) \<Rightarrow> 'a list \<Rightarrow> bool" where
  "indexed key dict us \<longleftrightarrow> (\<forall>k i. dict k = Some i \<longleftrightarrow> i < length us \<and> key (us ! i) = k)"

lemma indexed_distinct: "indexed key dict us \<Longrightarrow> distinct (map key us)"
  unfolding indexed_def distinct_conv_nth by (metis length_map nth_map option.inject)

lemma indexed_None: "indexed key dict us \<Longrightarrow> dict k = None \<longleftrightarrow> k \<notin> key ` set us"
proof -
  assume i: "indexed key dict us"
  have "dict k \<noteq> None \<longleftrightarrow> (\<exists>j<length us. key (us ! j) = k)" using i by (auto simp: indexed_def)
  also have "\<dots> \<longleftrightarrow> k \<in> key ` set us" unfolding image_iff by (metis in_set_conv_nth)
  finally show ?thesis by blast
qed

lemma indexed_append: "indexed key dict us \<Longrightarrow> dict (key a) = None \<Longrightarrow>
    indexed key (dict(key a \<mapsto> length us)) (us @ [a])"
proof -
  assume i: "indexed key dict us" and n: "dict (key a) = None"
  then have "key (us ! j) \<noteq> key a" if "j < length us" for j
    using indexed_None [OF i, of "key a"] that by (metis image_eqI nth_mem)
  with i show ?thesis unfolding indexed_def by (auto simp: nth_append less_Suc_eq)
qed

lemma indexed_update: "indexed key dict us \<Longrightarrow> dict (key a) = Some i \<Longrightarrow> indexed key dict (us[i := a])"
  unfolding indexed_def by (auto simp: nth_list_update)

text \<open>An address without a name was kept only if no address with its key has one.\<close>

definition bestNames :: "go_env \<Rightarrow> Address list \<Rightarrow> Address list \<Rightarrow> bool" where
  "bestNames E us as \<longleftrightarrow> set us \<subseteq> set as \<and>
     (\<forall>u\<in>set us. a_name u = [] \<longrightarrow> (\<forall>a\<in>set as. address_key E a = address_key E u \<longrightarrow> a_name a = []))"

lemma bestNames_replace:
  assumes best: "bestNames E vs (us[i := a] @ as)" and i: "i < length us"
    and k: "address_key E (us ! i) = address_key E a" and a: "a_name a \<noteq> []"
  shows "bestNames E vs (us @ a # as)"
  unfolding bestNames_def
proof (intro conjI ballI impI)
  have "set (us[i := a] @ as) \<subseteq> set (us @ a # as)"
    using set_update_subset_insert [of us i a] by auto
  with best show "set vs \<subseteq> set (us @ a # as)" by (auto simp: bestNames_def)
  fix v b assume v: "v \<in> set vs" "a_name v = []"
    and b: "b \<in> set (us @ a # as)" "address_key E b = address_key E v"
  have "a \<in> set (us[i := a] @ as)" using i by (simp add: set_update_memI)
  then have "address_key E v \<noteq> address_key E a" using best v a by (auto simp: bestNames_def)
  then have ne: "b \<noteq> us ! i" "b \<noteq> a" using b k by auto
  have "b \<in> set (us[i := a])" if "b \<in> set us"
    using that ne unfolding in_set_conv_nth by (metis length_list_update nth_list_update_neq)
  then have "b \<in> set (us[i := a] @ as)" using b ne by auto
  with best v b show "a_name b = []" by (auto simp: bestNames_def)
qed

lemma uniquify_loop_spec:
  "indexed (address_key E) dict us \<Longrightarrow>
   \<exists>vs. uniquify_loop E as dict us = Inr vs \<and> distinct (map (address_key E) vs) \<and>
     map (address_key E) vs = firstSeen (map (address_key E) us) (map (address_key E) as) \<and>
     bestNames E vs (us @ as)"
proof (induction as arbitrary: dict us)
  case Nil
  then have "distinct (map (address_key E) us)" by (rule indexed_distinct)
  then have "bestNames E us us" by (auto simp: bestNames_def distinct_map inj_on_def)
  with \<open>distinct (map (address_key E) us)\<close> show ?case by simp
next
  case (Cons a as)
  let ?k = "address_key E a"
  show ?case
  proof (cases "dict ?k")
    case None
    then have "?k \<notin> address_key E ` set us" using indexed_None [OF Cons.prems] by simp
    with Cons.IH [OF indexed_append [OF Cons.prems None]] None show ?thesis by (simp add: fun_upd_def)
  next
    case (Some ix)
    then have ix: "ix < length us" "address_key E (us ! ix) = ?k" using Cons.prems by (auto simp: indexed_def)
    then have mem: "?k \<in> address_key E ` set us" "us ! ix \<in> set us"
      by (metis image_eqI nth_mem, simp)
    show ?thesis
    proof (cases "a_name (us ! ix) = [] \<and> a_name a \<noteq> []")
      case True
      have k: "map (address_key E) (us[ix := a]) = map (address_key E) us"
        using ix by (simp add: map_update list_update_same_conv)
      obtain vs where vs: "uniquify_loop E as dict (us[ix := a]) = Inr vs" "distinct (map (address_key E) vs)"
        "map (address_key E) vs = firstSeen (map (address_key E) us) (map (address_key E) as)"
        and best: "bestNames E vs (us[ix := a] @ as)"
        using Cons.IH [OF indexed_update [OF Cons.prems Some]] k by auto
      have "bestNames E vs (us @ a # as)" using best ix True by (auto intro: bestNames_replace)
      with vs True Some ix mem show ?thesis by auto
    next
      case False
      from Cons.IH [OF Cons.prems] obtain vs where vs: "uniquify_loop E as dict us = Inr vs"
        "distinct (map (address_key E) vs)"
        "map (address_key E) vs = firstSeen (map (address_key E) us) (map (address_key E) as)"
        and best: "bestNames E vs (us @ as)" by blast
      have "bestNames E vs (us @ a # as)"
        using best False mem(2) ix(2) unfolding bestNames_def by fastforce
      with vs False Some ix mem show ?thesis by (auto simp: Let_def)
    qed
  qed
qed

lemma Uniquify_keeps:
  "\<exists>vs. Uniquify E as = Inr vs \<and> distinct (map (address_key E) vs) \<and>
     map (address_key E) vs = firstSeen [] (map (address_key E) as) \<and> bestNames E vs as"
proof (cases "as = []")
  case True
  then show ?thesis by (simp add: Uniquify_def bestNames_def)
next
  case False
  have "indexed (address_key E) (\<lambda>_. None) []" by (simp add: indexed_def)
  from uniquify_loop_spec [OF this, of as] False show ?thesis by (simp add: Uniquify_def)
qed

text \<open>
  C38. \<open>Uniquify\<close> returns without a panic; it keeps one of the given addresses for each localpart and domain (up
  to case), in the order of their first occurrences, and prefers one that has a name.
\<close>

theorem Uniquify_spec:
  "\<exists>vs. Uniquify E as = Inr vs \<and> distinct (map (address_key E) vs) \<and>
     map (address_key E) vs = firstSeen [] (map (address_key E) as) \<and> bestNames E vs as"
  by (rule Uniquify_keeps)

end
