(* ===== verification/AddressScan.thy ===== *)
theory AddressScan
  imports ParserLaws Addresses
begin

text \<open>
  The productions of the address parser (\<^verbatim>\<open>addresses.go\<close>): \<open>space\<close>, \<open>comment\<close>, \<open>domain\<close>, \<open>atom\<close>,
  \<open>phrase\<close>, \<open>localpart\<close> and \<open>route\<close>. They read the string backwards: each takes the position of the last
  character and returns the position before the first one, which is \<open>-1\<close> at the start of the string.

  A method with a pointer receiver is a function of the struct that may panic and returns the new struct. Loops
  that call other productions have fuel; \<^verbatim>\<open>AddressLaws\<close> shows that it is enough.
\<close>

section \<open>The struct and its methods\<close>

record ap =
  ap_s :: string
  ap_firstError :: "addr_error option"
  ap_recentError :: "addr_error option"
  ap_Addresses :: "Address list"
  ap_lastComment :: string

type_synonym 'a apm = "ap \<Rightarrow> ('a \<times> ap) go"

definition ap_ret :: "'a \<Rightarrow> 'a apm" where
  "ap_ret x p = Inr (x, p)"

definition ap_bind :: "'a apm \<Rightarrow> ('a \<Rightarrow> 'b apm) \<Rightarrow> 'b apm" where
  "ap_bind m f p = go_bind (m p) (\<lambda>(x, p). f x p)"

text \<open>A computation that only reads the string.\<close>

definition ap_read :: "(string \<Rightarrow> 'a go) \<Rightarrow> 'a apm" where
  "ap_read f p = go_bind (f (ap_s p)) (\<lambda>x. Inr (x, p))"

definition ap_if :: "(string \<Rightarrow> bool go) \<Rightarrow> 'a apm \<Rightarrow> 'a apm \<Rightarrow> 'a apm" where
  "ap_if b m n = ap_bind (ap_read b) (\<lambda>c. if c then m else n)"

text \<open>Conditions: \<open>s[i] == c\<close> and the short-circuit conjunction.\<close>

definition charAt :: "int \<Rightarrow> char \<Rightarrow> string \<Rightarrow> bool go" where
  "charAt i c s = go_bind (idxi s i) (\<lambda>d. Inr (d = c))"

definition both :: "bool \<Rightarrow> (string \<Rightarrow> bool go) \<Rightarrow> string \<Rightarrow> bool go" where
  "both b f s = (if b then f s else Inr False)"

definition andAlso :: "(string \<Rightarrow> bool go) \<Rightarrow> (string \<Rightarrow> bool go) \<Rightarrow> string \<Rightarrow> bool go" where
  "andAlso f g s = go_bind (f s) (\<lambda>b. if b then g s else Inr False)"

definition recordError :: "(int \<Rightarrow> string \<Rightarrow> addr_error) \<Rightarrow> int \<Rightarrow> unit apm" where
  "recordError err i p =
     (let s = ap_s p;
          i = (if i < 0 then 0 else i);
          start = (if 8 < i then i - 8 else 0);
          end' = (if 20 > int (length s) then int (length s) else 20)
      in go_bind (substri s start end') (\<lambda>t.
         go_bind (simplify t) (\<lambda>nearby.
         let e = Some (err i nearby)
         in Inr ((), p\<lparr> ap_recentError := e,
                        ap_firstError := (if ap_firstError p = None then e else ap_firstError p) \<rparr>))))"

definition setError :: "string \<Rightarrow> int \<Rightarrow> unit apm" where
  "setError msg = recordError (AtPosition msg)"

section \<open>Space and comments\<close>

definition space :: "int \<Rightarrow> int apm" where
  "space i = ap_read (\<lambda>s. scanBack 0 isWsp s i)"

definition saveComment :: "go_env \<Rightarrow> int \<Rightarrow> int \<Rightarrow> unit apm" where
  "saveComment E i j p =
     go_bind (substri (ap_s p) i (j + 1)) (\<lambda>t.
     Inr ((), p\<lparr> ap_lastComment := fst (Comment E (newParser t)) \<rparr>))"

fun comments :: "go_env \<Rightarrow> nat \<Rightarrow> int \<Rightarrow> int apm"
  and ccontent :: "go_env \<Rightarrow> nat \<Rightarrow> int \<Rightarrow> int apm" where
  "comments E 0 j p = Inl OutOfFuel"
| "comments E (Suc n) j p =
     (ap_if (both (j > 0) (charAt j (CHR '')'')))
       (ap_bind (ccontent E n (j - 1)) (\<lambda>i.
        ap_bind (ap_if (charAt i (CHR ''('')) (saveComment E i j) (setError ''Unbalanced comment: '' i)) (\<lambda>_.
        if i > 0 then ap_bind (space (i - 1)) (comments E n) else comments E n i)))
       (ap_ret j)) p"
| "ccontent E 0 i p = Inl OutOfFuel"
| "ccontent E (Suc n) i p =
     (let next = (\<lambda>k. if k = 0 then ap_ret k else ccontent E n (k - 1))
      in ap_if (both (i > 0) (charAt (i - 1) (CHR 0x5C))) (next (i - 1))
        (ap_if (charAt i (CHR '')'')) (ap_bind (ap_bind (space i) (comments E n)) next)
        (ap_if (charAt i (CHR ''('')) (ap_ret i) (next i)))) p"

definition comment :: "go_env \<Rightarrow> int \<Rightarrow> int apm" where
  "comment E i = ap_bind (space i) (\<lambda>i p. comments E (2 * length (ap_s p) + 3) i p)"

section \<open>Atoms and domains\<close>

text \<open>The inner loop of \<open>unqp\<close> has no bound, so white space at the end makes it index past the end.\<close>

function unqp_loop :: "string \<Rightarrow> bool \<Rightarrow> string \<Rightarrow> string go" where
  "unqp_loop [] sp buf = Inr buf"
| "unqp_loop (c # cs) sp buf =
     (if isWsp c then
        (case dropWhile isWsp cs of
           [] \<Rightarrow> Inl IndexOutOfRange
         | d # ds \<Rightarrow> unqp_loop (d # ds) True buf)
      else
        let buf = (if sp then buf @ '' '' else buf)
        in if c = CHR 0x5C then
             (case cs of [] \<Rightarrow> Inl IndexOutOfRange | d # ds \<Rightarrow> unqp_loop ds False (buf @ [d]))
           else unqp_loop cs False (buf @ [c]))"
  by pat_completeness auto
termination
proof (relation "measure (\<lambda>(s, sp, buf). length s)", goal_cases)
  case (2 c cs sp buf d ds)
  have "length (d # ds) \<le> length cs" using length_dropWhile_le [of isWsp cs] 2(2) by simp
  then show ?case by simp
qed auto

definition unqp :: "string \<Rightarrow> string go" where
  "unqp s = unqp_loop s False []"

definition isAtomChar :: "bool \<Rightarrow> char \<Rightarrow> bool" where
  "isAtomChar maybeEncodedWord c \<longleftrightarrow>
     isLower c \<or> isUpper c \<or> isDigit c \<or> c \<in> set ''!#$%&*+-/=?^_`{|}~'' \<or> c = CHR 0x27 \<or>
     maybeEncodedWord \<and> c = CHR ''.'' \<or> CHR 0x80 \<le> c"

definition atom :: "go_env \<Rightarrow> int \<Rightarrow> (string \<times> int) apm" where
  "atom E i =
     ap_bind (comment E i) (\<lambda>j.
     ap_bind (ap_read (both (j - 1 > 0) (\<lambda>s. go_bind (substri s (j - 1) (j + 1)) (\<lambda>t. Inr (hasSuffix t ''?=''))))) (\<lambda>maybeEncodedWord.
     ap_bind (ap_read (\<lambda>s. scanBack 0 (isAtomChar maybeEncodedWord) s j)) (\<lambda>i.
     ap_bind (ap_read (\<lambda>s. substri s (i + 1) (j + 1))) (\<lambda>r.
     ap_bind (comment E i) (\<lambda>i. ap_ret (r, i))))))"

text \<open>The loop over the further atoms of a domain.\<close>

primrec domain_loop :: "nat \<Rightarrow> go_env \<Rightarrow> string \<Rightarrow> int \<Rightarrow> (string \<times> int) apm" where
  "domain_loop 0 E dm i p = Inl OutOfFuel"
| "domain_loop (Suc n) E dm i p =
     (ap_if (both (i \<ge> 0) (charAt i (CHR ''.'')))
       (ap_bind (atom E (i - 1)) (\<lambda>(a, i). domain_loop n E (if a \<noteq> [] then a @ ''.'' @ dm else dm) i))
       (ap_ret (dm, i))) p"

text \<open>An unquoted IPv4 address ending at \<open>i\<close>: its text as a literal and where it starts.\<close>

definition ipLiteral :: "int \<Rightarrow> (string \<times> int) option apm" where
  "ipLiteral j = ap_read (\<lambda>s.
     go_bind (idxi s j) (\<lambda>c.
     if isDigit c then
       go_bind (scanBack (-1) (\<lambda>c. isDigit c \<or> c = CHR ''.'') s j) (\<lambda>i.
       go_bind (substri s (i + 1) (j + 1)) (\<lambda>t.
       Inr (case parseIPv4 t of None \<Rightarrow> None | Some ip \<Rightarrow> Some (''['' @ ipv4String ip @ '']'', i))))
     else Inr None))"

definition domainLiteral :: "int \<Rightarrow> (string \<times> int) apm" where
  "domainLiteral j =
     ap_bind (ap_read (\<lambda>s. scanBack 0 (\<lambda>c. c \<noteq> CHR ''['') s j)) (\<lambda>i.
     if i > 0 then ap_bind (ap_read (\<lambda>s. go_bind (substri s i j) unqp)) (\<lambda>dom. ap_ret (dom, i - 1))
     else ap_bind (setError ''literal Domain missing ['' i) (\<lambda>_. ap_ret ([], i)))"

definition domain :: "go_env \<Rightarrow> int \<Rightarrow> (string \<times> int) apm" where
  "domain E i =
     ap_bind (comment E i) (\<lambda>i.
     if i < 0 then ap_ret ([], i)
     else
       ap_bind (ipLiteral i) (\<lambda>ip.
       case ip of
         Some r \<Rightarrow> ap_ret r
       | None \<Rightarrow>
           ap_if (charAt i (CHR '']''))
             (domainLiteral (i - 1))
             (ap_bind (atom E i) (\<lambda>(dom, i).
              ap_bind (comment E i) (\<lambda>_. domain_loop (Suc (nat (i + 1))) E dom i)))))"

section \<open>Phrases\<close>

text \<open>The start of the quoted string that ends before \<open>i\<close>.\<close>

function quoteStart :: "string \<Rightarrow> int \<Rightarrow> int go" where
  "quoteStart s i =
     go_bind (both (i > 1) (charAt (i - 1) (CHR 0x5C)) s) (\<lambda>b.
     if b then quoteStart s (i - 2)
     else if i \<ge> 0 then go_bind (idxi s i) (\<lambda>c. if c \<noteq> CHR 0x22 then quoteStart s (i - 1) else Inr i)
     else Inr i)"
  by pat_completeness auto
termination
  by (relation "measure (\<lambda>(s, i). nat (i + 2))") (auto simp: both_def split: if_splits)

declare quoteStart.simps [simp del]

text \<open>The end of the encoded word that starts at \<open>b\<close>: after its third question mark and \<open>"?="\<close>.\<close>

definition encodedEnd :: "string \<Rightarrow> nat \<Rightarrow> nat option" where
  "encodedEnd w b =
     (case indexOf (drop (b + 2) w) ''?'' of
        None \<Rightarrow> None
      | Some n1 \<Rightarrow>
          let e1 = b + 2 + n1 + 1
          in case indexOf (drop e1 w) ''?'' of
               None \<Rightarrow> None
             | Some n2 \<Rightarrow>
                 let e2 = e1 + n2 + 1
                 in case indexOf (drop e2 w) ''?='' of
                      None \<Rightarrow> None
                    | Some n3 \<Rightarrow> Some (e2 + n3 + 2))"

lemma encodedEnd_gt: "encodedEnd w b = Some e \<Longrightarrow> b < e"
  by (auto simp: encodedEnd_def Let_def split: option.splits)

text \<open>The words of a quoted phrase; the result is the text and the flag \<open>drop\<close>.\<close>

function quotedWords :: "go_env \<Rightarrow> string \<Rightarrow> nat \<Rightarrow> string \<Rightarrow> bool \<Rightarrow> (string \<times> bool) go" where
  "quotedWords E w l word dropped =
     (if l < length w \<and> \<not> dropped then
        (case indexOf (drop l w) ''=?'' of
           None \<Rightarrow> Inr (word @ drop l w, dropped)
         | Some b0 \<Rightarrow>
             let b = l + b0
             in case encodedEnd w b of
                  None \<Rightarrow> Inr (word, True)
                | Some e \<Rightarrow>
                    go_bind (substr w b e) (\<lambda>t.
                    go_bind (de2047 E t) (\<lambda>tmp.
                    quotedWords E w (e + 2) (word @ take b0 (drop l w) @ tmp) (tmp = []))))
      else Inr (word, dropped))"
  by pat_completeness auto
termination
  by (relation "measure (\<lambda>(E, w, l, word, dropped). length w - l)") (auto dest: encodedEnd_gt)

declare quotedWords.simps [simp del]

definition noOpeningQuote :: string where
  "noOpeningQuote = ''quoted phrase must begin with '' @ [CHR 0x27, CHR 0x22, CHR 0x27]"

definition phrase_quotedString :: "go_env \<Rightarrow> bool \<Rightarrow> int \<Rightarrow> (string \<times> bool \<times> int) apm" where
  "phrase_quotedString E dropped j =
     ap_bind (ap_read (\<lambda>s. quoteStart s (j - 1))) (\<lambda>i.
     ap_bind (if i < 0 then setError noOpeningQuote i
              else ap_if (charAt i (CHR 0x22)) (ap_ret ()) (setError noOpeningQuote i)) (\<lambda>_.
     ap_bind (ap_read (\<lambda>s. substri s i (j + 1))) (\<lambda>t.
     ap_bind (ap_read (\<lambda>_. quotedWords E (unquote t (CHR 0x22) (CHR 0x27)) 0 [] dropped)) (\<lambda>(word, dropped).
     ap_ret (word, dropped, i - 1)))))"

text \<open>The atoms joined by backslashes.\<close>

primrec backslashed :: "nat \<Rightarrow> go_env \<Rightarrow> string \<Rightarrow> nat \<Rightarrow> int \<Rightarrow> (string \<times> int) apm" where
  "backslashed 0 E a l i p = Inl OutOfFuel"
| "backslashed (Suc n) E a l i p =
     (ap_if (both (l > 0 \<and> i \<ge> 0) (charAt i (CHR 0x5C)))
       (ap_bind (atom E (i - 1)) (\<lambda>(w, i). backslashed n E (w @ a) (length w) i))
       (ap_ret (a, i))) p"

text \<open>The value of an atom: the word, and the flags \<open>encw\<close> and \<open>drop\<close>.\<close>

definition atomWord :: "go_env \<Rightarrow> string \<Rightarrow> bool \<Rightarrow> (string \<times> bool \<times> bool) go" where
  "atomWord E a dropped =
     (if hasPrefix a ''=?'' then
        go_bind (Phrase E (newParser a)) (\<lambda>(t, q).
        go_bind (simplify t) (\<lambda>tmp.
        let dropped = (if hasPrefix tmp ''=?'' \<or> contains tmp ''=?'' then True else dropped)
        in if AtEnd q then Inr (tmp, True, dropped) else Inr (a, False, dropped)))
      else Inr (a, False, dropped))"

text \<open>One word before \<open>i\<close>: the word, \<open>encw\<close>, \<open>drop\<close>, \<open>done\<close> and the new position.\<close>

definition phrase_step :: "go_env \<Rightarrow> bool \<Rightarrow> int \<Rightarrow> (string \<times> bool \<times> bool \<times> bool \<times> int) apm" where
  "phrase_step E dropped i =
     ap_if (both (i > 0) (charAt i (CHR 0x22)))
       (ap_bind (phrase_quotedString E dropped i) (\<lambda>(word, dropped, i). ap_ret (word, False, dropped, False, i)))
     (ap_if (charAt i (CHR ''.''))
       (ap_bind (atom E (i - 1)) (\<lambda>(word, i). ap_ret (word @ ''.'', False, dropped, False, i)))
       (ap_bind (atom E i) (\<lambda>(a, i).
        ap_bind (backslashed (Suc (nat (i + 1))) E a (length a) i) (\<lambda>(a, i).
        if a = [] then ap_ret ([], False, dropped, True, i)
        else ap_bind (ap_read (\<lambda>_. atomWord E a dropped)) (\<lambda>(word, encw, dropped).
             ap_ret (word, encw, dropped, False, i))))))"

text \<open>The phrase \<open>r\<close> read so far with a word put before it.\<close>

definition joinWord :: "string \<Rightarrow> bool \<Rightarrow> string \<Rightarrow> bool \<Rightarrow> string" where
  "joinWord word encw r enc =
     (if r = [] then word
      else if word \<noteq> [] \<and> last word = CHR '' '' then word @ r
      else if word \<noteq> [] then
        (if \<not> enc \<or> \<not> encw \<or> length word + length r < 50 \<and> hd r \<le> CHR ''Z'' then word @ '' '' else word) @ r
      else r)"

primrec phrase_words :: "nat \<Rightarrow> go_env \<Rightarrow> string \<Rightarrow> bool \<Rightarrow> bool \<Rightarrow> bool \<Rightarrow> int \<Rightarrow> (string \<times> bool \<times> int) apm" where
  "phrase_words 0 E r dropped enc done i p = Inl OutOfFuel"
| "phrase_words (Suc n) E r dropped enc done i p =
     (if \<not> done \<and> i \<ge> 0 then
        ap_bind (phrase_step E dropped i) (\<lambda>(word, encw, dropped, done, i).
        ap_bind (comment E i) (\<lambda>i. phrase_words n E (joinWord word encw r enc) dropped encw done i))
      else ap_ret (r, dropped, i)) p"

definition phrase :: "go_env \<Rightarrow> int \<Rightarrow> (string \<times> int) apm" where
  "phrase E i =
     ap_bind (comment E i) (\<lambda>i.
     ap_bind (phrase_words (nat (i + 1) + 2) E [] False False False i) (\<lambda>(r, dropped, i).
     ap_bind (ap_read (\<lambda>_. simplify (if dropped then [] else r))) (\<lambda>r. ap_ret (r, i))))"

section \<open>Localparts and routes\<close>

primrec localpart_loop :: "nat \<Rightarrow> go_env \<Rightarrow> string \<Rightarrow> string \<Rightarrow> bool \<Rightarrow> int \<Rightarrow> (string \<times> bool \<times> int) apm" where
  "localpart_loop 0 E r sep atomOnly i p = Inl OutOfFuel"
| "localpart_loop (Suc n) E r sep atomOnly i p =
     (ap_bind (ap_read (charAt i (CHR 0x22))) (\<lambda>quoted.
     let atomOnly = (if quoted then False else atomOnly)
     in ap_bind (if quoted then phrase E i else atom E i) (\<lambda>(w, i).
        let r = w @ decodeAscii E sep @ r
        in ap_if (both (i \<ge> 0) (charAt i (CHR ''.'')))
             (localpart_loop n E r ''.'' atomOnly (i - 1))
             (if hasPrefix w ''%'' then localpart_loop n E r [] atomOnly i
              else ap_ret (r, atomOnly, i))))) p"

definition localpart :: "go_env \<Rightarrow> int \<Rightarrow> (string \<times> int) apm" where
  "localpart E i =
     ap_bind (if i < 0 then ap_ret ([], True, i) else localpart_loop (Suc (nat (i + 1))) E [] [] True i) (\<lambda>(r, atomOnly, i).
     ap_bind (if atomOnly \<and> r = [] then setError ''Empty Localpart'' i else ap_ret ()) (\<lambda>_.
     ap_ret (r, i)))"

definition isRouteSep :: "int \<Rightarrow> string \<Rightarrow> bool go" where
  "isRouteSep i s = go_bind (idxi s i) (\<lambda>c. Inr (c = CHR '','' \<or> c = CHR ''@''))"

definition routeSkip :: "int \<Rightarrow> int apm" where
  "routeSkip i =
     ap_bind (ap_if (charAt i (CHR ''@'')) (ap_ret (i - 1)) (ap_ret i)) (\<lambda>i.
     ap_read (\<lambda>s. scanBack 0 (\<lambda>c. c = CHR '','') s i))"

primrec route_loop :: "nat \<Rightarrow> go_env \<Rightarrow> string \<Rightarrow> int \<Rightarrow> int apm" where
  "route_loop 0 E dm i p = Inl OutOfFuel"
| "route_loop (Suc n) E dm i p =
     (ap_if (both (i \<ge> 0 \<and> dm \<noteq> []) (isRouteSep i))
       (ap_bind (routeSkip i) (\<lambda>i. ap_bind (domain E i) (\<lambda>(dm, i). route_loop n E dm i)))
       (ap_ret i)) p"

definition clearErrors :: "unit apm" where
  "clearErrors p = Inr ((), p\<lparr> ap_firstError := None, ap_recentError := None \<rparr>)"

definition route :: "go_env \<Rightarrow> int \<Rightarrow> int apm" where
  "route E i p =
     ap_if (\<lambda>s. if ap_firstError p = None then both (i \<ge> 0) (charAt i (CHR '':'')) s else Inr False)
       (ap_bind (domain E (i - 1)) (\<lambda>(dm, i).
        if dm = ''mailto'' then ap_ret i
        else ap_bind (route_loop (Suc (nat (i + 1))) E dm i) (\<lambda>i.
             ap_bind clearErrors (\<lambda>_. ap_ret i))))
       (ap_ret i) p"

end
