(* ===== verification/AddressParser.thy ===== *)
theory AddressParser
  imports AddressScan Tlds
begin

text \<open>
  The address parser proper (\<^verbatim>\<open>addresses.go\<close>): \<open>add\<close>, \<open>address\<close> with one definition per kind of address it
  recognises, \<open>findBorder\<close>, and \<open>NewAddressParser\<close> with its plans A, B and C.
\<close>

section \<open>Adding an address\<close>

function outerQuotes :: "string \<Rightarrow> nat \<Rightarrow> nat" where
  "outerQuotes name i =
     (if i + 1 < length name \<and> name ! i = name ! (length name - 1 - i) \<and>
         (name ! i = CHR 0x27 \<or> name ! i = CHR 0x22)
      then outerQuotes name (i + 1) else i)"
  by pat_completeness auto
termination by (relation "measure (\<lambda>(name, i). length name - i)") auto

declare outerQuotes.simps [simp del]

definition adjustName :: "go_env \<Rightarrow> string \<Rightarrow> string \<Rightarrow> string \<Rightarrow> string go" where
  "adjustName E name lp dm =
     (let i = outerQuotes name 0
      in go_bind (if i > 0 then substri name (int i) (int (length name) - int i) else Inr name) (\<lambda>name.
         go_bind (simplify name) (\<lambda>name.
         go_bind (if length name > 1 \<and> hd name = CHR ''('' \<and> last name = CHR '')''
                  then simplify (butlast (tl name)) else Inr name) (\<lambda>name.
         let an = toTitle E name
         in Inr (if length an = length lp + 1 + length dm \<and>
                    an = toTitle E lp @ ''@'' @ toTitle E dm
                 then [] else name)))))"

definition add :: "go_env \<Rightarrow> string \<Rightarrow> string \<Rightarrow> string \<Rightarrow> unit apm" where
  "add E name lp dm p =
     (if length lp > 256 then
        let e = Some (LocalpartTooLong (length lp) lp dm)
        in Inr ((), p\<lparr> ap_recentError := e,
                       ap_firstError := (if ap_firstError p = None then e else ap_firstError p) \<rparr>)
      else
        go_bind (adjustName E name lp dm) (\<lambda>name.
        let a = (NewAddress name lp dm)\<lparr> a_err := ap_recentError p \<rparr>
        in Inr ((), p\<lparr> ap_Addresses := a # ap_Addresses p \<rparr>)))"

section \<open>One address\<close>

text \<open>The last components of the result of a branch: the new position, as \<open>Inl\<close> where the source returns
  at once, and as \<open>Inr\<close> where it goes on to the final \<open>comment\<close>.\<close>

type_synonym branch = "(int + int) apm"

definition goOn :: "int \<Rightarrow> branch" where
  "goOn i = ap_ret (Inr i)"

definition failAt :: "string \<Rightarrow> int \<Rightarrow> branch" where
  "failAt msg i = ap_bind (setError msg i) (\<lambda>_. ap_ret (Inl i))"

definition skipChar :: "char \<Rightarrow> int \<Rightarrow> int apm" where
  "skipChar c i = ap_if (both (i \<ge> 0) (charAt i c)) (ap_ret (i - 1)) (ap_ret i)"

definition prefixContains :: "int \<Rightarrow> string \<Rightarrow> string \<Rightarrow> bool go" where
  "prefixContains i t s = go_bind (substri s 0 i) (\<lambda>u. Inr (contains u t))"

text \<open>\<open><>\<close>\<close>

definition bounceAddress :: "go_env \<Rightarrow> int \<Rightarrow> branch" where
  "bounceAddress E i =
     ap_bind (add E [] [] []) (\<lambda>_.
     ap_bind (skipChar (CHR ''<'') (i - 2)) (\<lambda>i.
     ap_bind (phrase E i) (\<lambda>(_, i). goOn i)))"

text \<open>\<open><Unknown-Recipient:;>\<close>\<close>

definition groupName :: "go_env \<Rightarrow> int \<Rightarrow> int apm" where
  "groupName E i =
     ap_bind (phrase E i) (\<lambda>(name, i).
     ap_bind (add E name [] []) (\<lambda>_. skipChar (CHR ''<'') i))"

definition msBroken :: "go_env \<Rightarrow> int \<Rightarrow> branch" where
  "msBroken E i = ap_bind (groupName E (i - 3)) goOn"

text \<open>\<open><Unknown-Recipient:@x.y;>\<close>\<close>

definition sendmailBroken :: "go_env \<Rightarrow> int \<Rightarrow> branch" where
  "sendmailBroken E x =
     ap_bind (domain E (x - 2)) (\<lambda>(_, i).
     ap_if (both (i > 1) (andAlso (charAt i (CHR ''@'')) (charAt (i - 1) (CHR '':''))))
       (ap_bind (groupName E (i - 2)) goOn)
       (goOn x))"

text \<open>The at-signs at and before \<open>i\<close>, of which the first may be at position 0.\<close>

definition skipAts :: "int \<Rightarrow> int apm" where
  "skipAts i = ap_read (\<lambda>s. scanBack 1 (\<lambda>c. c = CHR ''@'') s (i - 1))"

text \<open>\<open>unlisted-recipients:; (...)@domain\<close>: name, localpart, domain and position.\<close>

type_synonym parts = "string \<times> string \<times> string \<times> int"

definition unlisted :: "go_env \<Rightarrow> string \<Rightarrow> string \<Rightarrow> int \<Rightarrow> parts apm" where
  "unlisted E name dm i =
     ap_bind (ap_read (\<lambda>s. scanBack 1 (\<lambda>c. c = CHR '' '') s (i - 1))) (\<lambda>j.
     ap_if (charAt j (CHR '':''))
       (ap_bind (phrase E (j - 1)) (\<lambda>(n, j).
        ap_ret (if n \<noteq> [] then (n, [], [], j) else (name, [], dm, i))))
       (ap_ret (name, [], dm, i)))"

text \<open>The name made from a comment such as \<open>(Recipient list suppressed)\<close>.\<close>

fun listName :: "int \<Rightarrow> string \<Rightarrow> string \<Rightarrow> string apm" where
  "listName i [] buf p = (ap_ret buf) p"
| "listName i (c # cs) buf p =
     (if isAlnum c then listName i cs (buf @ [c])
      else if c = CHR '' '' \<or> c = CHR ''_'' \<or> c = CHR ''-'' then listName i cs (buf @ ''-'')
      else ap_bind (setError ''Localpart contains parenthesis'' i) (\<lambda>_. listName i cs buf)) p"

definition suppressed :: "int \<Rightarrow> string apm" where
  "suppressed i p =
     go_bind (simplify (ap_lastComment p)) (\<lambda>n. listName i n [] p)"

text \<open>A localpart with blanks inside angle brackets: \<open>lp\<close> is extended up to the bracket.\<close>

definition spacedLocalpart :: "string \<Rightarrow> int \<Rightarrow> (string \<times> int) apm" where
  "spacedLocalpart lp i =
     ap_if (charAt i (CHR ''<'')) (ap_ret (lp, i))
       (ap_bind (ap_read (\<lambda>s. scanBack 0 (\<lambda>c. isLower c \<or> isUpper c \<or> c = CHR '' '') s i)) (\<lambda>j.
        ap_if (both (j \<ge> 0) (charAt j (CHR ''<'')))
          (ap_bind (ap_read (\<lambda>s. substri s (j + 1) (i + 1))) (\<lambda>tmp.
           ap_bind (ap_read (charAt (i + 1) (CHR '' ''))) (\<lambda>blank.
           ap_ret ((if blank then tmp @ '' '' else tmp) @ lp, j))))
          (ap_ret (lp, i))))"

definition angleAt :: "go_env \<Rightarrow> string \<Rightarrow> int \<Rightarrow> parts apm" where
  "angleAt E dm i =
     ap_bind (skipAts i) (\<lambda>aftercomment.
     ap_bind (comment E aftercomment) (\<lambda>i.
     ap_if (both (i \<ge> 1) (charAt i (CHR '';'')))
       (unlisted E [] dm i)
       (if aftercomment > i \<and> i < 0 then ap_bind (suppressed i) (\<lambda>name. ap_ret (name, [], [], i))
        else ap_bind (localpart E i) (\<lambda>(lp, i).
             ap_bind (spacedLocalpart lp i) (\<lambda>(lp, i). ap_ret ([], lp, dm, i))))))"

definition angleParts :: "go_env \<Rightarrow> int \<Rightarrow> parts apm" where
  "angleParts E i =
     ap_bind (domain E (i - 1)) (\<lambda>(dm, i).
     ap_if (charAt i (CHR ''<''))
       (ap_ret ([], dm, [], i))
       (ap_bind (ap_if (charAt i (CHR ''@'')) (angleAt E dm i) (ap_ret ([], [], dm, i))) (\<lambda>(name, lp, dm, i).
        ap_bind (route E i) (\<lambda>i. ap_ret (name, lp, dm, i)))))"

text \<open>The display name before the bracket; a name with \<open>@\<close> or \<open><\<close> in it is ignored.\<close>

primrec ignoreNames :: "nat \<Rightarrow> go_env \<Rightarrow> string \<Rightarrow> int \<Rightarrow> (string \<times> int) apm" where
  "ignoreNames 0 E n i p = Inl OutOfFuel"
| "ignoreNames (Suc k) E n i p =
     (ap_bind (ap_read (both (i \<ge> 0) (\<lambda>s. go_bind (idxi s i) (\<lambda>c. Inr (c = CHR ''@'' \<or> c = CHR ''<''))))) (\<lambda>more.
     if more then ap_bind (phrase E (i - 1)) (\<lambda>(_, i). ignoreNames k E [] i)
     else ap_ret (n, i))) p"

definition angleName :: "go_env \<Rightarrow> string \<Rightarrow> int \<Rightarrow> (string \<times> int) apm" where
  "angleName E name i =
     ap_if (both (i \<ge> 0) (charAt i (CHR ''<'')))
       (ap_bind (ap_read (\<lambda>s. scanBack 0 (\<lambda>c. c = CHR ''<'') s (i - 1))) (\<lambda>i.
        ap_bind (phrase E i) (\<lambda>(n, i).
        ap_bind (ignoreNames (Suc (nat (i + 1))) E n i) (\<lambda>(n, i).
        ap_ret (if n \<noteq> [] then n else name, i)))))
       (ap_ret (name, i))"

definition isDisplayable :: "char \<Rightarrow> bool" where
  "isDisplayable c \<longleftrightarrow> CHR 0x20 \<le> c \<and> c < CHR 0x7F"

definition nameAddr :: "go_env \<Rightarrow> int \<Rightarrow> branch" where
  "nameAddr E i =
     ap_bind (angleParts E i) (\<lambda>(name, lp, dm, i).
     ap_bind (angleName E name i) (\<lambda>(name, i).
     let name = (if list_all isDisplayable name then name else [])
     in ap_bind (add E name lp dm) (\<lambda>_. goOn i)))"

text \<open>\<open>=?charset?q?...<a@b>?=\<close>\<close>

definition expectedLt :: string where
  "expectedLt = ''Expected '' @ [CHR 0x27] @ ''<'' @ [CHR 0x27] @ '' while in =?...?...<Localpart@Domain>?=''"

definition expectedAt :: string where
  "expectedAt = ''Expected '' @ [CHR 0x27] @ ''@'' @ [CHR 0x27] @ '' while in =?...?...<Localpart@Domain>?=''"

definition encodedAddr :: "go_env \<Rightarrow> int \<Rightarrow> branch" where
  "encodedAddr E i =
     ap_bind (domain E (i - 3)) (\<lambda>(dm, i).
     ap_if (charAt i (CHR ''@''))
       (ap_bind (skipAts i) (\<lambda>i.
        ap_bind (localpart E i) (\<lambda>(lp, i).
        ap_if (charAt i (CHR ''<''))
          (ap_bind (atom E (i - 1)) (\<lambda>(_, i).
           ap_bind (add E [] lp dm) (\<lambda>_. goOn i)))
          (failAt expectedLt i))))
       (failAt expectedAt i))"

text \<open>A group. The loop reads its addresses; \<open>Inl\<close> is an early return.\<close>

primrec groupLoop :: "nat \<Rightarrow> (int \<Rightarrow> int apm) \<Rightarrow> bool \<Rightarrow> int \<Rightarrow> (int + bool \<times> int) apm" where
  "groupLoop 0 addr none i p = Inl OutOfFuel"
| "groupLoop (Suc n) addr none j p =
     (ap_bind (ap_read (both (j > 0) (\<lambda>s. go_bind (idxi s j) (\<lambda>c. Inr (c \<noteq> CHR '':''))))) (\<lambda>more.
     if more then
       ap_bind (addr j) (\<lambda>i.
       if i = j then
         ap_bind (setError ''Parsing stopped while in group parser'' i) (\<lambda>_. ap_ret (Inl i))
       else
         ap_if (charAt i (CHR '','')) (groupLoop n addr False (i - 1))
        (ap_if (charAt i (CHR '':'')) (groupLoop n addr False i)
          (ap_bind (setError (''Expected : or '' @ [CHR 0x27] @ '','' @ [CHR 0x27] @ '' while parsing group'') i) (\<lambda>_.
           ap_ret (Inl i)))))
     else ap_ret (Inr (none, j)))) p"

definition groupAddress :: "go_env \<Rightarrow> (int \<Rightarrow> int apm) \<Rightarrow> int \<Rightarrow> branch" where
  "groupAddress E addr i =
     ap_bind (comment E (i - 1)) (\<lambda>_.
     ap_bind (groupLoop (Suc (nat i)) addr True (i - 1)) (\<lambda>r.
     case r of
       Inl i \<Rightarrow> ap_ret (Inl i)
     | Inr (none, i) \<Rightarrow>
         ap_if (charAt i (CHR '':''))
           (ap_bind (phrase E (i - 1)) (\<lambda>(name, i).
            ap_bind (if none then add E name [] [] else ap_ret ()) (\<lambda>_. goOn i)))
           (goOn i)))"

text \<open>\<open>x%"y@z"\<close>, as once used on VMS\<close>

definition vmsQuoted :: "go_env \<Rightarrow> int \<Rightarrow> branch" where
  "vmsQuoted E i =
     ap_bind (domain E (i - 1)) (\<lambda>(dm, x).
     ap_if (both (x > 0) (charAt x (CHR ''@'')))
       (ap_bind (localpart E (x - 1)) (\<lambda>(lp, x).
        ap_if (both (x > 2) (andAlso (charAt x (CHR 0x22)) (charAt (x - 1) (CHR ''%''))))
          (ap_bind (domain E (x - 2)) (\<lambda>(_, x).
           ap_bind (add E [] lp dm) (\<lambda>_. goOn x)))
          (goOn i)))
       (goOn i))"

text \<open>\<open>A::B "display-name"\<close>\<close>

definition vmsNode :: "go_env \<Rightarrow> int \<Rightarrow> branch" where
  "vmsNode E i =
     ap_bind (ap_read (\<lambda>s. scanBack 1 (\<lambda>c. c \<noteq> CHR 0x22) s (i - 1))) (\<lambda>b.
     ap_bind (ap_if (charAt b (CHR 0x22))
       (ap_bind (ap_read (\<lambda>s. substri s (b + 1) i)) (\<lambda>_. ap_ret (b - 1)))
       (ap_ret i)) (\<lambda>i.
     ap_bind (atom E i) (\<lambda>(lp, i).
     ap_if (both (i > 2) (andAlso (charAt i (CHR '':'')) (charAt (i - 1) (CHR '':''))))
       (ap_bind (atom E (i - 2)) (\<lambda>(a, i).
        ap_bind (add E [] (a @ ''::'' @ lp) []) (\<lambda>_. goOn i)))
       (ap_bind (setError ''Expected NODE::USER while parsing VMS address'' i) (\<lambda>_. goOn i)))))"

text \<open>\<open>A::B "display-name" date\<close>: where the scan of the date stops.\<close>

definition isDateChar :: "char \<Rightarrow> bool" where
  "isDateChar c \<longleftrightarrow> isAlnum c \<or> c = CHR '' '' \<or> c = CHR ''-'' \<or> c = CHR '':'' \<or> c = CHR ''.''"

function dateScan :: "string \<Rightarrow> char \<Rightarrow> nat \<Rightarrow> nat go" where
  "dateScan date c dp =
     (if dp < length date \<and> isDateChar c
      then go_bind (idx date (dp + 1)) (\<lambda>c. dateScan date c (dp + 1))
      else Inr dp)"
  by pat_completeness auto
termination by (relation "measure (\<lambda>(date, c, dp). length date - dp)") auto

declare dateScan.simps [simp del]

definition vmsDate :: "go_env \<Rightarrow> int \<Rightarrow> branch" where
  "vmsDate E i =
     ap_bind (ap_read (\<lambda>s. scanBack 1 (\<lambda>c. c \<noteq> CHR 0x22) s i)) (\<lambda>x.
     ap_bind (ap_read (\<lambda>s. go_bind (substri s (x + 1) i) (\<lambda>t. simplify (toLower E t)))) (\<lambda>date.
     ap_bind (ap_read (\<lambda>_. go_bind (idx date 0) (\<lambda>c. dateScan date c 0))) (\<lambda>dp.
     goOn (if dp = length date \<and> contains date ''-19'' then x else i))))"

text \<open>A quoted list of addresses; \<open>wrapped\<close> is the constructor itself.\<close>

definition wrappedList :: "(string \<Rightarrow> ap go) \<Rightarrow> int \<Rightarrow> branch" where
  "wrappedList wrapped i =
     ap_bind (ap_read (\<lambda>s. wrapped (unquote s (CHR 0x22) (CHR 0x27)))) (\<lambda>w.
     if ap_firstError w = None then (\<lambda>p. goOn (-1) (p\<lparr> ap_Addresses := ap_Addresses p @ ap_Addresses w \<rparr>))
     else ap_bind (setError ''Unexpected quote character'' i) (\<lambda>_. goOn i))"

text \<open>The plain \<open>addr-spec\<close>.\<close>

definition commentName :: "go_env \<Rightarrow> string apm" where
  "commentName E p =
     Inr (case decode E (ap_lastComment p) ''us-ascii'' of
            Some (name, False) \<Rightarrow> if contains (ap_lastComment p) ''=?'' then [] else name
          | _ \<Rightarrow> [], p)"

definition specAt :: "go_env \<Rightarrow> string \<Rightarrow> string \<Rightarrow> int \<Rightarrow> parts apm" where
  "specAt E name dm i =
     ap_bind (skipAts i) (\<lambda>aftercomment.
     ap_bind (comment E aftercomment) (\<lambda>i.
     ap_if (both (i \<ge> 1) (charAt i (CHR '';'')))
       (unlisted E name dm i)
       (if aftercomment > i \<and> i < 0 then ap_bind (suppressed i) (\<lambda>_. ap_ret ([], [], [], i))
        else ap_bind (localpart E i) (\<lambda>(lp, i). ap_ret (name, lp, dm, i)))))"

definition addrSpec :: "go_env \<Rightarrow> int \<Rightarrow> branch" where
  "addrSpec E i =
     ap_bind (commentName E) (\<lambda>name.
     ap_bind (domain E i) (\<lambda>(dm, i).
     ap_bind (ap_if (both (i \<ge> 0) (charAt i (CHR ''@''))) (specAt E name dm i)
                (ap_ret (name, dm, [], i))) (\<lambda>(name, lp, dm, i).
     ap_bind (route E i) (\<lambda>i.
     ap_bind (comment E i) (\<lambda>i.
     ap_bind (if lp \<noteq> [] \<or> dm \<noteq> [] \<or> name \<noteq> [] then add E name lp dm else ap_ret ()) (\<lambda>_.
     goOn i))))))"

section \<open>The kinds of addresses\<close>

primrec skipCommas :: "nat \<Rightarrow> go_env \<Rightarrow> int \<Rightarrow> int apm" where
  "skipCommas 0 E i p = Inl OutOfFuel"
| "skipCommas (Suc n) E i p =
     (ap_if (both (i > 0) (charAt i (CHR '',''))) (ap_bind (comment E (i - 1)) (skipCommas n E)) (ap_ret i)) p"

function skipAngles :: "string \<Rightarrow> int \<Rightarrow> int go" where
  "skipAngles s i =
     go_bind (both (i > 1) (andAlso (charAt i (CHR ''>'')) (charAt (i - 1) (CHR ''>''))) s) (\<lambda>b.
     if b then skipAngles s (i - 1) else Inr i)"
  by pat_completeness auto
termination
  by (relation "measure (\<lambda>(s, i). nat i)") (auto simp: both_def split: if_splits)

declare skipAngles.simps [simp del]

definition isDigitAt :: "int \<Rightarrow> string \<Rightarrow> bool go" where
  "isDigitAt i s = go_bind (idxi s i) (\<lambda>c. Inr (isDigit c))"

definition addressKind :: "go_env \<Rightarrow> (string \<Rightarrow> ap go) \<Rightarrow> (int \<Rightarrow> int apm) \<Rightarrow> int \<Rightarrow> branch" where
  "addressKind E wrapped addr i =
     (if i < 0 then goOn i
      else
        ap_if (both (i > 0) (andAlso (charAt (i - 1) (CHR ''<'')) (charAt i (CHR ''>'')))) (bounceAddress E i)
       (ap_if (both (i > 2) (andAlso (charAt i (CHR ''>'')) (andAlso (charAt (i - 1) (CHR '';'')) (charAt (i - 2) (CHR '':'')))))
          (msBroken E i)
       (ap_if (both (i > 2) (andAlso (charAt i (CHR ''>'')) (andAlso (charAt (i - 1) (CHR '';'')) (prefixContains i '':@''))))
          (sendmailBroken E i)
       (ap_if (charAt i (CHR ''>'')) (nameAddr E i)
       (ap_if (both (i > 1) (andAlso (charAt i (CHR ''='')) (andAlso (charAt (i - 1) (CHR ''?'')) (charAt (i - 2) (CHR ''>'')))))
          (encodedAddr E i)
       (ap_if (andAlso (charAt i (CHR '';'')) (prefixContains i '':'')) (groupAddress E addr i)
       (ap_if (andAlso (charAt i (CHR 0x22)) (prefixContains i [CHR ''%'', CHR 0x22])) (vmsQuoted E i)
       (ap_if (andAlso (charAt i (CHR 0x22)) (prefixContains i ''::'')) (vmsNode E i)
       (ap_if (both (i > 10) (andAlso (isDigitAt i) (andAlso (charAt (i - 2) (CHR ''.''))
                (\<lambda>s. Inr (contains s [CHR 0x22] \<and> contains s ''-19'')))))
          (vmsDate E i)
       (ap_if (\<lambda>s. Inr (isQuoted s (CHR 0x22) (CHR 0x27) \<and> contains s ''@'')) (wrappedList wrapped i)
          (addrSpec E i)))))))))))"

definition addressBody :: "go_env \<Rightarrow> (string \<Rightarrow> ap go) \<Rightarrow> (int \<Rightarrow> int apm) \<Rightarrow> int \<Rightarrow> int apm" where
  "addressBody E wrapped addr i =
     ap_bind (\<lambda>p. comment E i (p\<lparr> ap_lastComment := [], ap_recentError := None \<rparr>)) (\<lambda>i.
     ap_bind (skipCommas (Suc (nat (i + 1))) E i) (\<lambda>i.
     ap_bind (ap_read (\<lambda>s. skipAngles s i)) (\<lambda>i.
     ap_bind (addressKind E wrapped addr i) (\<lambda>r.
     case r of Inl i \<Rightarrow> ap_ret i | Inr i \<Rightarrow> comment E i))))"

primrec address :: "nat \<Rightarrow> go_env \<Rightarrow> (string \<Rightarrow> ap go) \<Rightarrow> int \<Rightarrow> int apm" where
  "address 0 E wrapped i p = Inl OutOfFuel"
| "address (Suc n) E wrapped i p = (addressBody E wrapped (address n E wrapped) i) p"

section \<open>Borders between addresses\<close>

definition isDomainChar :: "char \<Rightarrow> bool" where
  "isDomainChar c \<longleftrightarrow> isLower c \<or> isUpper c \<or> isDigit c \<or> c = CHR ''-''"

text \<open>The end of a top-level domain that starts at \<open>b\<close>.\<close>

fun tldEnd :: "go_env \<Rightarrow> string \<Rightarrow> int \<Rightarrow> int \<Rightarrow> string list \<Rightarrow> int option go" where
  "tldEnd E s right b [] = Inr None"
| "tldEnd E s right b (tld # ts) =
     (let l = int (length tld)
      in if b + l \<le> right then
           go_bind (idxi s (b + l)) (\<lambda>c.
           if \<not> isAlnum c then
             go_bind (substri s b l) (\<lambda>t.
             if toLower E t = tld then Inr (Some (b + l)) else tldEnd E s right b ts)
           else tldEnd E s right b ts)
         else tldEnd E s right b ts)"

function domainBorder :: "go_env \<Rightarrow> string \<Rightarrow> int \<Rightarrow> int \<Rightarrow> int \<Rightarrow> int \<Rightarrow> int go" where
  "domainBorder E s left right dot b =
     (if b \<le> right then
        go_bind (scanFwd (right + 1) isDomainChar s b) (\<lambda>e.
        if e = b then
          go_bind (both (b > left) (charAt (b - 1) (CHR ''.'')) s) (\<lambda>d. Inr (if d then b - 1 else b))
        else if e \<le> right then
          go_bind (idxi s e) (\<lambda>c.
          if c \<noteq> CHR ''.'' then Inr e
          else go_bind (tldEnd E s right (e + 1) tlds) (\<lambda>r.
               case r of Some k \<Rightarrow> Inr k | None \<Rightarrow> domainBorder E s left right e (e + 1)))
        else domainBorder E s left right dot e)
      else if dot > left \<and> dot < right then Inr dot
      else if right + 1 \<ge> int (length s) then Inr right
      else Inr left)"
  by pat_completeness auto
termination
  by (relation "measure (\<lambda>(E, s, left, right, dot, b). nat (right + 1 - b))")
    (auto dest: scanFwd_ge)

declare domainBorder.simps [simp del]

text \<open>The first of the characters \<open>cs\<close>, in this order, that stands between \<open>left\<close> and \<open>right\<close>.\<close>

fun borderChar :: "string \<Rightarrow> int \<Rightarrow> int \<Rightarrow> string \<Rightarrow> int option go" where
  "borderChar s left right [] = Inr None"
| "borderChar s left right (c # cs) =
     go_bind (substri s left (int (length s))) (\<lambda>t.
     let b = left + indexByteInt t c
     in if b \<ge> left \<and> b \<le> right then Inr (Some b) else borderChar s left right cs)"

definition findBorder :: "go_env \<Rightarrow> int \<Rightarrow> int \<Rightarrow> string \<Rightarrow> int go" where
  "findBorder E left right s =
     (if right \<le> left then Inr left
      else
        go_bind (borderChar s left right '',;<>'') (\<lambda>r.
        case r of
          Some b \<Rightarrow> Inr b
        | None \<Rightarrow>
            go_bind (scanFwd (right + 1) (\<lambda>c. \<not> isWsp c) s left) (\<lambda>b.
            if b \<ge> left \<and> b \<le> right then Inr b
            else domainBorder E s left right left left)))"

section \<open>The constructor\<close>

text \<open>Plan A: read addresses from the end of the string.\<close>

primrec separators :: "nat \<Rightarrow> bool \<Rightarrow> int \<Rightarrow> int \<Rightarrow> int apm" where
  "separators 0 colon j i p = Inl OutOfFuel"
| "separators (Suc n) colon j i p =
     (ap_bind (ap_read (both (i < j \<and> i \<ge> 0)
       (\<lambda>s. go_bind (idxi s i) (\<lambda>c. Inr (c = CHR '','' \<or> \<not> colon \<and> c = CHR '';''))))) (\<lambda>more.
     if more then ap_bind (space (i - 1)) (separators n colon j) else ap_ret i)) p"

primrec planA :: "nat \<Rightarrow> go_env \<Rightarrow> (string \<Rightarrow> ap go) \<Rightarrow> bool \<Rightarrow> int \<Rightarrow> int \<Rightarrow> int apm" where
  "planA 0 E wrapped colon i j p = Inl OutOfFuel"
| "planA (Suc n) E wrapped colon i j p =
     (if i \<ge> 0 \<and> i < j then
        ap_bind (address (Suc (nat (i + 1))) E wrapped i) (\<lambda>k.
        ap_bind (separators (Suc (nat (k + 1))) colon i k) (\<lambda>k. planA n E wrapped colon k i))
      else ap_ret i) p"

text \<open>Plan B: look for at-signs and take what is around them.\<close>

definition isHostChar :: "char \<Rightarrow> bool" where
  "isHostChar c \<longleftrightarrow> isLower c \<or> isUpper c \<or> isDigit c \<or> c = CHR ''.'' \<or> c = CHR ''-''"

definition addressAround :: "string \<Rightarrow> int \<Rightarrow> int \<Rightarrow> int \<Rightarrow> Address list go" where
  "addressAround s leftBorder atsign rightBorder =
     go_bind (both (leftBorder > 0) (\<lambda>s. go_bind (idxi s leftBorder) (\<lambda>c. Inr (c = CHR ''.'' \<or> c = CHR ''>''))) s) (\<lambda>skip.
     let leftBorder = (if skip then leftBorder + 1 else leftBorder)
     in go_bind (scanFwd rightBorder (\<lambda>c. c = CHR '' '') s (atsign + 1)) (\<lambda>end'.
        go_bind (scanFwd rightBorder isHostChar s end') (\<lambda>end'.
        go_bind (scanBack leftBorder (\<lambda>c. c = CHR '' '') s (atsign - 1)) (\<lambda>start.
        go_bind (scanBack leftBorder isHostChar s start) (\<lambda>start.
        go_bind (substri s (start + 1) atsign) (\<lambda>t.
        go_bind (simplify t) (\<lambda>lp.
        go_bind (substri s (atsign + 1) end') (\<lambda>t.
        go_bind (simplify t) (\<lambda>dm.
        Inr (if lp \<noteq> [] \<and> dm \<noteq> [] then [NewAddress [] lp dm] else []))))))))))"

function planB :: "go_env \<Rightarrow> string \<Rightarrow> int \<Rightarrow> int \<Rightarrow> Address list \<Rightarrow> Address list go" where
  "planB E s leftBorder atsign as =
     (if atsign \<ge> 0 then
        go_bind (substri s (atsign + 1) (int (length s))) (\<lambda>t.
        let n = indexByteInt t (CHR ''@'');
            nextAtsign = (if n < 0 then n else n + (atsign + 1))
        in go_bind (if n < 0 then Inr (int (length s)) else findBorder E (atsign + 1) (nextAtsign - 1) s) (\<lambda>rightBorder.
           go_bind (addressAround s leftBorder atsign rightBorder) (\<lambda>a.
           planB E s rightBorder nextAtsign (as @ a))))
      else Inr as)"
  by pat_completeness auto
termination
  by (relation "measure (\<lambda>(E, s, leftBorder, atsign, as). if atsign < 0 then 0 else nat (int (length s) + 1 - atsign))")
    (auto simp: substri_def split: if_splits)

declare planB.simps [simp del]

text \<open>Plan C: a group name without a group.\<close>

definition isGroupNameChar :: "char \<Rightarrow> bool" where
  "isGroupNameChar c \<longleftrightarrow> isAlnum c \<or> c = CHR '' '' \<or> c = CHR ''_'' \<or> c = CHR ''-''"

definition planC :: "ap \<Rightarrow> ap go" where
  "planC p =
     (let s = ap_s p
      in if contains s '':;'' \<and> \<not> contains s ''@'' then
           (case indexOf s '':;'' of
              None \<Rightarrow> Inr p
            | Some ix \<Rightarrow>
                go_bind (simplify (take ix s)) (\<lambda>n.
                Inr (if list_all isGroupNameChar n
                     then p\<lparr> ap_firstError := None, ap_recentError := None, ap_Addresses := [NewAddress n [] []] \<rparr>
                     else p)))
         else Inr p)"

definition newAP_body :: "go_env \<Rightarrow> (string \<Rightarrow> ap go) \<Rightarrow> string \<Rightarrow> ap go" where
  "newAP_body E wrapped s =
     (let p = \<lparr> ap_s = s, ap_firstError = None, ap_recentError = None, ap_Addresses = [], ap_lastComment = [] \<rparr>;
          i = int (length s) - 1
      in go_bind (planA (length s + 2) E wrapped (contains s '':'') i (i + 1) p) (\<lambda>(i, p).
         go_bind (Uniquify E (ap_Addresses p)) (\<lambda>as.
         let p = p\<lparr> ap_Addresses := as \<rparr>
         in if i < 0 \<and> ap_firstError p = None then Inr p
            else
              go_bind (planB E s 0 (indexByteInt s (CHR ''@'')) []) (\<lambda>as.
              if as \<noteq> [] then
                go_bind (Uniquify E as) (\<lambda>as.
                Inr (p\<lparr> ap_Addresses := as, ap_firstError := None, ap_recentError := None \<rparr>))
              else planC (p\<lparr> ap_Addresses := [] \<rparr>)))))"

primrec newAP :: "nat \<Rightarrow> go_env \<Rightarrow> string \<Rightarrow> ap go" where
  "newAP 0 E s = Inl OutOfFuel"
| "newAP (Suc n) E s = newAP_body E (newAP n E) s"

definition NewAddressParser :: "go_env \<Rightarrow> string \<Rightarrow> ap go" where
  "NewAddressParser E s = newAP (length s + 1) E s"

section \<open>Asserting a single address\<close>

text \<open>
  The first loop assigns \<open>a.err\<close> of a copy, so all it does is to print the addresses that are not normal ones;
  the second reports the errors the addresses had.
\<close>

fun printOthers :: "Address list \<Rightarrow> unit go" where
  "printOthers [] = Inr ()"
| "printOthers (a # as) =
     (if a_t a = NormalAddressType then printOthers as
      else go_bind (Address_toString a False) (\<lambda>_. printOthers as))"

fun reportErrors :: "Address list \<Rightarrow> unit apm" where
  "reportErrors [] = ap_ret ()"
| "reportErrors (a # as) =
     ap_bind (case a_err a of None \<Rightarrow> ap_ret () | Some e \<Rightarrow> recordError (Reported e) 0) (\<lambda>_. reportErrors as)"

definition assertSingleAddress :: "unit apm" where
  "assertSingleAddress p =
     go_bind (printOthers (ap_Addresses p)) (\<lambda>_.
     ap_bind (reportErrors (ap_Addresses p)) (\<lambda>_.
     if length (ap_Addresses p) = 0 then setError ''No address supplied'' 0 else ap_ret ()) p)"

end
