(* ===== verification/AddressLaws.thy ===== *)
theory AddressLaws
  imports AddressParser
begin

text \<open>
  The laws of the address parser: every production moves to the left, keeps the string and the addresses found
  so far, and has enough fuel; \<open>NewAddressParser\<close> ends on every string.
\<close>

section \<open>Weakest preconditions\<close>

text \<open>
  \<open>wp m Q p\<close>: run on \<open>p\<close>, the method ends, possibly with a panic, and if it returns, \<open>Q\<close> holds of the result and
  the new struct.
\<close>

definition wp :: "'a apm \<Rightarrow> ('a \<Rightarrow> ap \<Rightarrow> bool) \<Rightarrow> ap \<Rightarrow> bool" where
  "wp m Q p \<longleftrightarrow> (case m p of Inl e \<Rightarrow> rangeFault e | Inr (x, q) \<Rightarrow> Q x q)"

named_theorems wp_rules \<open>introduction rules for the weakest preconditions of the productions\<close>

lemma wp_ret [simp]: "wp (ap_ret x) Q p \<longleftrightarrow> Q x p"
  by (simp add: wp_def ap_ret_def)

lemma wp_bind [simp]: "wp (ap_bind m f) Q p \<longleftrightarrow> wp m (\<lambda>x. wp (f x) Q) p"
  by (cases "m p") (auto simp: wp_def ap_bind_def)

lemma wp_read: "wp (ap_read f) Q p \<longleftrightarrow> (case f (ap_s p) of Inl e \<Rightarrow> rangeFault e | Inr x \<Rightarrow> Q x p)"
  by (cases "f (ap_s p)") (auto simp: wp_def ap_read_def)

lemma wp_mono: "wp m R p \<Longrightarrow> (\<And>x q. R x q \<Longrightarrow> Q x q) \<Longrightarrow> wp m Q p"
  by (auto simp: wp_def split: sum.splits)

lemma wp_unfold: "m p = m' p \<Longrightarrow> wp m' Q p \<Longrightarrow> wp m Q p"
  by (simp add: wp_def)

lemma wp_readI [wp_rules]:
  "tame (f (ap_s p)) \<Longrightarrow> (\<And>x. f (ap_s p) = Inr x \<Longrightarrow> Q x p) \<Longrightarrow> wp (ap_read f) Q p"
  by (cases "f (ap_s p)") (auto simp: wp_read tame_def)

lemma wp_if [wp_rules]:
  "tame (b (ap_s p)) \<Longrightarrow> (b (ap_s p) = Inr True \<Longrightarrow> wp m Q p) \<Longrightarrow> (b (ap_s p) = Inr False \<Longrightarrow> wp n Q p) \<Longrightarrow>
   wp (ap_if b m n) Q p"
  by (cases "b (ap_s p)") (auto simp: ap_if_def wp_read tame_def)

lemma wp_cond [wp_rules]: "(b \<Longrightarrow> wp m Q p) \<Longrightarrow> (\<not> b \<Longrightarrow> wp n Q p) \<Longrightarrow> wp (if b then m else n) Q p"
  by simp

section \<open>Reads do not run out of fuel\<close>

lemma substri_moved: "substri s a b = Inr t \<Longrightarrow> t \<noteq> [] \<Longrightarrow> a < b"
  by (auto simp: substri_def split: if_splits)

lemma tame_charAt [simp]: "tame (charAt i c s)"
  by (simp add: charAt_def tame_bind)

lemma tame_both [simp]: "tame (both b f s) \<longleftrightarrow> b \<longrightarrow> tame (f s)"
  by (simp add: both_def)

lemma tame_andAlso [simp]: "tame (f s) \<Longrightarrow> tame (g s) \<Longrightarrow> tame (andAlso f g s)"
  by (simp add: andAlso_def tame_bind)

lemma tame_bindI [simp]: "tame m \<Longrightarrow> (\<And>x. tame (f x)) \<Longrightarrow> tame (go_bind m f)"
  by (simp add: tame_bind)

lemma tame_scanBack [simp]: "tame (scanBack lo f s i)"
proof (induction lo f s i rule: scanBack.induct)
  case (1 lo f s i)
  show ?case by (subst scanBack.simps) (auto intro!: tame_bind 1)
qed

lemma tame_scanFwd [simp]: "tame (scanFwd hi f s i)"
proof (induction hi f s i rule: scanFwd.induct)
  case (1 hi f s i)
  show ?case by (subst scanFwd.simps) (auto intro!: tame_bind 1)
qed

lemma charAt_True: "charAt i c s = Inr True \<Longrightarrow> 0 \<le> i \<and> i < int (length s)"
  by (auto simp: charAt_def go_bind_eq_Inr idxi_eq_Inr)

lemma charAt_False: "charAt i c s = Inr False \<Longrightarrow> 0 \<le> i \<and> i < int (length s)"
  by (auto simp: charAt_def go_bind_eq_Inr idxi_eq_Inr)

lemma both_True: "both b f s = Inr True \<longleftrightarrow> b \<and> f s = Inr True"
  by (simp add: both_def)

section \<open>Productions that move to the left\<close>

text \<open>What a production keeps: the string and the addresses.\<close>

definition keeps :: "ap \<Rightarrow> ap \<Rightarrow> bool" where
  "keeps p q \<longleftrightarrow> ap_s q = ap_s p \<and> ap_Addresses q = ap_Addresses p"

lemma keeps_refl [simp]: "keeps p p"
  by (simp add: keeps_def)

lemma keeps_trans [trans]: "keeps p q \<Longrightarrow> keeps q r \<Longrightarrow> keeps p r"
  by (simp add: keeps_def)

locale mover =
  fixes f :: "int \<Rightarrow> int apm"
  assumes moves: "wp (f i) (\<lambda>k q. k \<le> i \<and> keeps p q) p"
begin

lemma moveI: "(\<And>k q. k \<le> i \<Longrightarrow> keeps p q \<Longrightarrow> Q k q) \<Longrightarrow> wp (f i) Q p"
  using moves by (rule wp_mono) auto

lemma keepI: "keeps r p \<Longrightarrow> (\<And>k q. k \<le> i \<Longrightarrow> keeps r q \<Longrightarrow> Q k q) \<Longrightarrow> wp (f i) Q p"
  by (rule moveI) (simp add: keeps_def)

end

text \<open>A production with a text: where the text is not empty, it has moved.\<close>

locale reader =
  fixes f :: "int \<Rightarrow> (string \<times> int) apm"
  assumes reads_left: "wp (f i) (\<lambda>(w, k) q. k \<le> i \<and> (w \<noteq> [] \<longrightarrow> k < i) \<and> keeps p q) p"
begin

lemma readI: "(\<And>w k q. k \<le> i \<Longrightarrow> (w \<noteq> [] \<Longrightarrow> k < i) \<Longrightarrow> keeps p q \<Longrightarrow> Q (w, k) q) \<Longrightarrow> wp (f i) Q p"
  using reads_left by (rule wp_mono) auto

lemma keepI:
  "keeps r p \<Longrightarrow> (\<And>w k q. k \<le> i \<Longrightarrow> (w \<noteq> [] \<Longrightarrow> k < i) \<Longrightarrow> keeps r q \<Longrightarrow> Q (w, k) q) \<Longrightarrow> wp (f i) Q p"
  by (rule readI) (simp add: keeps_def)

end

lemma recordError_result:
  "recordError err i p = Inr (x, q) \<Longrightarrow>
     \<exists>e. q = p\<lparr> ap_recentError := Some e, ap_firstError := (if ap_firstError p = None then Some e else ap_firstError p) \<rparr>"
  by (auto simp: recordError_def Let_def go_bind_eq_Inr)

lemma tame_recordError: "tame (recordError err i p)"
  by (simp add: recordError_def Let_def)

lemma recordError_keeps: "wp (recordError err i) (\<lambda>_ q. keeps p q) p"
proof (cases "recordError err i p")
  case (Inl e)
  with tame_recordError [of err i p] show ?thesis by (simp add: wp_def tame_def)
next
  case (Inr r)
  then show ?thesis by (cases r) (auto simp: wp_def keeps_def dest!: recordError_result)
qed

lemma setError_keeps: "wp (setError msg i) (\<lambda>_ q. keeps p q) p"
  unfolding setError_def by (rule recordError_keeps)

lemma setError_keepI: "keeps r p \<Longrightarrow> (\<And>q. keeps r q \<Longrightarrow> Q () q) \<Longrightarrow> wp (setError msg i) Q p"
  unfolding setError_def by (rule wp_mono [OF recordError_keeps]) (simp add: keeps_def)

interpretation sp: mover space
  by unfold_locales (auto simp: space_def intro!: wp_readI dest: scanBack_le)

lemma space_inside: "wp (space i) (\<lambda>k q. k < int (length (ap_s q)) \<and> k \<le> i \<and> q = p) p"
  unfolding space_def
proof (rule wp_readI)
  fix k assume k: "scanBack 0 isWsp (ap_s p) i = Inr k"
  have "i < int (length (ap_s p))"
    using k by (subst (asm) scanBack.simps) (auto simp: go_bind_eq_Inr idxi_eq_Inr split: if_splits)
  with scanBack_le [OF k] show "k < int (length (ap_s p)) \<and> k \<le> i \<and> p = p" by simp
qed simp

lemma saveComment_keepI: "keeps r p \<Longrightarrow> (\<And>q. keeps r q \<Longrightarrow> Q () q) \<Longrightarrow> wp (saveComment E i j) Q p"
  by (cases "substri (ap_s p) i (j + 1)")
    (auto simp: wp_def saveComment_def keeps_def substri_def split: if_splits)

lemma comments_moves:
  "(1 \<le> n \<longrightarrow> 2 * j + 2 \<le> int n \<longrightarrow> wp (comments E n j) (\<lambda>k q. k \<le> j \<and> keeps p q) p) \<and>
   (1 \<le> n \<longrightarrow> 2 * i + 3 \<le> int n \<longrightarrow> wp (ccontent E n i) (\<lambda>k q. k \<le> i \<and> keeps p q) p)"
proof (induction n arbitrary: i j p)
  case 0
  then show ?case by simp
next
  case (Suc n)
  have C: "wp (comments E n j) Q q"
    if "keeps p q" "1 \<le> n" "2 * j + 2 \<le> int n" "\<And>k r. k \<le> j \<Longrightarrow> keeps p r \<Longrightarrow> Q k r" for j q Q p
    using Suc.IH [where j = j and p = q] that by (auto intro: wp_mono simp: keeps_def)
  have D: "wp (ccontent E n i) Q q"
    if "keeps p q" "1 \<le> n" "2 * i + 3 \<le> int n" "\<And>k r. k \<le> i \<Longrightarrow> keeps p r \<Longrightarrow> Q k r" for i q Q p
    using Suc.IH [where i = i and p = q] that by (auto intro: wp_mono simp: keeps_def)
  show ?case
  proof (intro conjI impI)
    assume n: "2 * j + 2 \<le> int (Suc n)"
    show "wp (comments E (Suc n) j) (\<lambda>k q. k \<le> j \<and> keeps p q) p"
      by (rule wp_unfold [OF comments.simps(2)])
        (use n in \<open>auto simp: both_True intro!: wp_if D [where p = p] C [where p = p]
            setError_keepI [where r = p] saveComment_keepI [where r = p] sp.keepI [where r = p]\<close>)
  next
    assume n: "2 * i + 3 \<le> int (Suc n)"
    show "wp (ccontent E (Suc n) i) (\<lambda>k q. k \<le> i \<and> keeps p q) p"
      by (rule wp_unfold [OF ccontent.simps(2)])
        (use n in \<open>auto simp: both_True Let_def dest!: charAt_True charAt_False
            intro!: wp_if D [where p = p] C [where p = p] sp.keepI [where r = p]\<close>)
  qed
qed

interpretation cm: mover "comment E" for E
proof
  fix i p
  have c: "wp (\<lambda>p. comments E (2 * length (ap_s p) + 3) k p) (\<lambda>k q. k \<le> i \<and> keeps p q) p"
    if k: "k < int (length (ap_s p))" "k \<le> i" for k
  proof (rule wp_unfold [where m' = "comments E (2 * length (ap_s p) + 3) k"])
    have "wp (comments E (2 * length (ap_s p) + 3) k) (\<lambda>l q. l \<le> k \<and> keeps p q) p"
      using comments_moves [THEN conjunct1] k by auto
    then show "wp (comments E (2 * length (ap_s p) + 3) k) (\<lambda>k q. k \<le> i \<and> keeps p q) p"
      by (rule wp_mono) (use k in auto)
  qed simp
  show "wp (comment E i) (\<lambda>k q. k \<le> i \<and> keeps p q) p"
    unfolding comment_def wp_bind by (rule wp_mono [OF space_inside]) (use c in auto)
qed

lemmas moves_rules [wp_rules] =
  sp.moveI cm.moveI wp_mono [OF setError_keeps]

section \<open>Atoms and domains\<close>

interpretation atm: reader "atom E" for E
  by unfold_locales
    (auto simp: atom_def keeps_def intro!: wp_rules dest!: scanBack_le substri_moved)

lemma domain_loop_moves:
  "nat (i + 1) < n \<Longrightarrow>
   wp (domain_loop n E dm i) (\<lambda>(w, k) q. k \<le> i \<and> (w \<noteq> [] \<longrightarrow> dm \<noteq> [] \<or> k < i) \<and> keeps p q) p"
proof (induction n arbitrary: dm i p)
  case (Suc n)
  show ?case
    by (rule wp_unfold [OF domain_loop.simps(2)])
      (use Suc.prems in \<open>auto simp: both_True keeps_def intro!: wp_rules atm.readI wp_mono [OF Suc.IH]\<close>)
qed simp


lemma ipLiteral_reads:
  "wp (ipLiteral i) (\<lambda>r q. q = p \<and> (case r of None \<Rightarrow> True | Some (w, k) \<Rightarrow> k < i)) p"
  unfolding ipLiteral_def
proof (rule wp_readI)
  fix r
  assume "go_bind (idxi (ap_s p) i) (\<lambda>c.
     if isDigit c then
       go_bind (scanBack (-1) (\<lambda>c. isDigit c \<or> c = CHR ''.'') (ap_s p) i) (\<lambda>k.
       go_bind (substri (ap_s p) (k + 1) (i + 1)) (\<lambda>t.
       Inr (case parseIPv4 t of None \<Rightarrow> None | Some ip \<Rightarrow> Some (''['' @ ipv4String ip @ '']'', k))))
     else Inr None) = Inr r"
  then show "p = p \<and> (case r of None \<Rightarrow> True | Some (w, k) \<Rightarrow> k < i)"
    by (subst (asm) scanBack.simps)
      (auto simp: go_bind_eq_Inr idxi_eq_Inr dest!: scanBack_le split: if_splits option.splits)
qed (auto intro!: tame_bind)

lemma tame_unqp_loop: "tame (unqp_loop s sp buf)"
  by (induction s sp buf rule: unqp_loop.induct) (auto simp: tame_def Let_def split: list.splits)

lemma tame_unqp [simp]: "tame (unqp s)"
  by (simp add: unqp_def tame_unqp_loop)

lemma domainLiteral_reads:
  "wp (domainLiteral i) (\<lambda>(w, k) q. k \<le> i \<and> (w \<noteq> [] \<longrightarrow> k < i) \<and> keeps p q) p"
  by (auto simp: domainLiteral_def keeps_def intro!: wp_rules dest!: scanBack_le)

lemma domain_moves: "wp (domain E i) (\<lambda>(w, k) q. k \<le> i \<and> (w \<noteq> [] \<longrightarrow> k < i) \<and> keeps p q) p"
  unfolding domain_def
  by (auto simp: keeps_def intro!: wp_rules atm.readI wp_mono [OF ipLiteral_reads]
      wp_mono [OF domainLiteral_reads] wp_mono [OF domain_loop_moves] split: option.splits)

interpretation dmn: reader "domain E" for E
  by unfold_locales (rule domain_moves)

lemmas reads_rules [wp_rules] = atm.readI dmn.readI

section \<open>Phrases\<close>

lemma quoteStart_le: "quoteStart s i = Inr k \<Longrightarrow> k \<le> i"
proof (induction s i rule: quoteStart.induct)
  case (1 s i)
  obtain b where b: "both (i > 1) (charAt (i - 1) (CHR 0x5C)) s = Inr b"
    using 1(3) by (subst (asm) quoteStart.simps) (auto simp: go_bind_eq_Inr)
  show ?case
  proof (cases b)
    case True
    with 1(3) b have "quoteStart s (i - 2) = Inr k" by (subst (asm) quoteStart.simps) simp
    with 1(1) [OF b] True show ?thesis by simp
  next
    case False
    then show ?thesis
      using 1(3) b 1(2) [OF b] by (subst (asm) quoteStart.simps) (auto simp: go_bind_eq_Inr split: if_splits)
  qed
qed

lemma tame_quoteStart [simp]: "tame (quoteStart s i)"
proof (induction s i rule: quoteStart.induct)
  case (1 s i)
  show ?case by (subst quoteStart.simps) (auto intro!: tame_bind 1)
qed

lemma tame_de2047_convert: "tame (de2047_convert E cs s)"
  by (auto simp: de2047_convert_def decode_def tame_def Let_def split: option.splits)

lemma tame_de2047 [simp]: "tame (de2047 E s)"
  by (auto simp: de2047_def Let_def tame_de2047_convert intro!: tame_bind)

lemma tame_quotedWords [simp]: "tame (quotedWords E w l word dropped)"
proof (induction E w l word dropped rule: quotedWords.induct)
  case (1 E w l word dropped)
  show ?case
  proof (subst quotedWords.simps, simp add: Let_def split: option.splits, intro impI allI tame_bind, goal_cases)
    case (3 b e t tmp)
    then show ?case using 1 [of b "l + b" e t tmp] by simp
  qed simp_all
qed

lemma phrase_quotedString_moves:
  "wp (phrase_quotedString E d i) (\<lambda>(w, e, k) q. k < i \<and> keeps p q) p"
  by (auto simp: phrase_quotedString_def keeps_def intro!: wp_rules dest!: quoteStart_le)

lemma backslashed_moves:
  "nat (i + 1) < n \<Longrightarrow> wp (backslashed n E a l i) (\<lambda>(w, k) q. k \<le> i \<and> (w \<noteq> [] \<longrightarrow> a \<noteq> [] \<or> k < i) \<and> keeps p q) p"
proof (induction n arbitrary: a l i p)
  case (Suc n)
  show ?case
    by (rule wp_unfold [OF backslashed.simps(2)])
      (use Suc.prems in \<open>auto simp: both_True keeps_def intro!: wp_rules wp_mono [OF Suc.IH]\<close>)
qed simp

text \<open>
  Phrases with encoded words run the parser's \<open>Phrase\<close>, which ends when the converter from US-ASCII makes
  nothing of the empty string.
\<close>

definition asciiConverter :: "go_env \<Rightarrow> bool" where
  "asciiConverter E \<longleftrightarrow> decodeAscii E [] = []"

lemma asciiConverterI:
  "(\<And>w. cs_writer E ''us-ascii'' = Some w \<Longrightarrow> fst (w []) = []) \<Longrightarrow> asciiConverter E"
  by (auto simp: asciiConverter_def decodeAscii_def decode_def split: option.splits prod.splits)

lemma tame_Phrase: "asciiConverter E \<Longrightarrow> tame (Phrase E p)"
  using phrase_loop_tame [of E]
  by (auto simp: asciiConverter_def Phrase_def simp del: phrase_loop.simps split: prod.splits)

lemma tame_atomWord: "asciiConverter E \<Longrightarrow> tame (atomWord E a dropped)"
  by (auto simp: atomWord_def Let_def tame_Phrase intro!: tame_bind split: prod.splits)

lemma phrase_step_moves:
  "asciiConverter E \<Longrightarrow>
   wp (phrase_step E d i) (\<lambda>(w, e, d, done, k) q. k \<le> i \<and> (\<not> done \<longrightarrow> k < i) \<and> (w \<noteq> [] \<longrightarrow> k < i) \<and> keeps p q) p"
  by (auto simp: phrase_step_def keeps_def tame_atomWord
      intro!: wp_rules wp_mono [OF phrase_quotedString_moves] wp_mono [OF backslashed_moves])

lemma joinWord_nonempty: "joinWord w encw r enc \<noteq> [] \<Longrightarrow> w \<noteq> [] \<or> r \<noteq> []"
  by (auto simp: joinWord_def split: if_splits)

lemma phrase_words_moves:
  assumes E: "asciiConverter E"
  shows "0 < n \<Longrightarrow> \<not> dn \<longrightarrow> i + 2 < int n \<Longrightarrow>
    wp (phrase_words n E r d enc dn i) (\<lambda>(w, d, k) q. k \<le> i \<and> (w \<noteq> [] \<longrightarrow> r \<noteq> [] \<or> k < i) \<and> keeps p q) p"
proof (induction n arbitrary: r d enc dn i p)
  case (Suc n)
  show ?case
    by (rule wp_unfold [OF phrase_words.simps(2)])
      (use Suc.prems in \<open>auto simp: keeps_def dest!: joinWord_nonempty
         intro!: wp_rules wp_mono [OF phrase_step_moves [OF E]] wp_mono [OF Suc.IH]\<close>)
qed simp

lemma simplify_Nil [simp]: "simplify [] = Inr []"
  by (simp add: simplify_def)

lemma reader_phrase: "asciiConverter E \<Longrightarrow> reader (phrase E)"
  by unfold_locales (auto simp: phrase_def keeps_def intro!: wp_rules wp_mono [OF phrase_words_moves])

lemmas phrase_readI = reader.readI [OF reader_phrase]

section \<open>Localparts and routes\<close>

lemma localpart_loop_moves:
  assumes E: "asciiConverter E"
  shows "0 < n \<Longrightarrow> i + 1 < int n \<Longrightarrow>
    wp (localpart_loop n E r sep ao i) (\<lambda>(w, ao, k) q. k \<le> i \<and> keeps p q) p"
proof (induction n arbitrary: r sep ao i p)
  case (Suc n)
  show ?case
    by (rule wp_unfold [OF localpart_loop.simps(2)])
      (use Suc.prems in \<open>auto simp: Let_def keeps_def both_True hasPrefix_def dest!: charAt_True charAt_False
         intro!: wp_rules phrase_readI [OF E] wp_mono [OF Suc.IH]\<close>)
qed simp

lemma reader_localpart:
  assumes E: "asciiConverter E"
  shows "wp (localpart E i) (\<lambda>(w, k) q. k \<le> i \<and> keeps p q) p"
  by (auto simp: localpart_def keeps_def intro!: wp_rules wp_mono [OF localpart_loop_moves [OF E]])

lemma scanBack_lt:
  assumes "scanBack lo f s i = Inr k" "lo \<le> i" "idxi s i = Inr c" "f c"
  shows "k < i"
proof -
  have "scanBack lo f s (i - 1) = Inr k" using assms by (subst (asm) scanBack.simps) simp
  then show ?thesis using scanBack_le by fastforce
qed

lemma routeSkip_moves:
  assumes "isRouteSep i (ap_s p) = Inr True"
  shows "wp (routeSkip i) (\<lambda>k q. k < i \<and> q = p) p"
proof -
  obtain c where c: "idxi (ap_s p) i = Inr c" "c = CHR '','' \<or> c = CHR ''@''" and i: "0 \<le> i"
    using assms by (auto simp: isRouteSep_def go_bind_eq_Inr idxi_eq_Inr)
  then have "c = CHR '',''" if "charAt i (CHR ''@'') (ap_s p) = Inr False" using that by (auto simp: charAt_def)
  then have "k < i" if "charAt i (CHR ''@'') (ap_s p) = Inr False" "scanBack 0 (\<lambda>c. c = CHR '','') (ap_s p) i = Inr k" for k
    using scanBack_lt [OF that(2) i c(1)] that(1) by simp
  moreover have "k < i" if "scanBack 0 (\<lambda>c. c = CHR '','') (ap_s p) (i - 1) = Inr k" for k
    using scanBack_le [OF that] by simp
  ultimately show ?thesis by (auto simp: routeSkip_def intro!: wp_rules)
qed

lemma tame_isRouteSep [simp]: "tame (isRouteSep i s)"
  by (simp add: isRouteSep_def)

lemma route_loop_moves:
  "0 < n \<Longrightarrow> i + 1 < int n \<Longrightarrow> wp (route_loop n E dm i) (\<lambda>k q. k \<le> i \<and> keeps p q) p"
proof (induction n arbitrary: dm i p)
  case (Suc n)
  show ?case
    by (rule wp_unfold [OF route_loop.simps(2)])
      (use Suc.prems in \<open>auto simp: both_True keeps_def
        intro!: wp_rules wp_mono [OF routeSkip_moves] wp_mono [OF Suc.IH]\<close>)
qed simp

lemma clearErrors_moveI: "(\<And>q. keeps p q \<Longrightarrow> Q () q) \<Longrightarrow> wp clearErrors Q p"
  by (simp add: wp_def clearErrors_def keeps_def)

interpretation rt: mover "route E" for E
proof
  fix i p
  show "wp (route E i) (\<lambda>k q. k \<le> i \<and> keeps p q) p"
    by (rule wp_unfold [OF route_def])
      (auto simp: keeps_def both_True intro!: wp_rules clearErrors_moveI wp_mono [OF route_loop_moves])
qed

lemmas localpart_readI = wp_mono [OF reader_localpart]
lemmas route_rules [wp_rules] = rt.moveI

section \<open>Adding an address\<close>

text \<open>The address list holds addresses whose type fits their fields.\<close>

definition wfAddress :: "Address \<Rightarrow> bool" where
  "wfAddress a \<longleftrightarrow> a_t a = a_t (NewAddress (a_name a) (a_localpart a) (a_domain a))"

definition grows :: "ap \<Rightarrow> ap \<Rightarrow> bool" where
  "grows p q \<longleftrightarrow> ap_s q = ap_s p \<and> (list_all wfAddress (ap_Addresses p) \<longrightarrow> list_all wfAddress (ap_Addresses q))"

lemma tame_adjustName: "tame (adjustName E name lp dm)"
  by (auto simp: adjustName_def Let_def intro!: tame_bind)

lemma add_growI [wp_rules]: "(\<And>q. grows p q \<Longrightarrow> Q () q) \<Longrightarrow> wp (add E name lp dm) Q p"
  using tame_adjustName [of E name lp dm]
  by (cases "adjustName E name lp dm")
    (auto simp: wp_def add_def Let_def grows_def tame_def wfAddress_def NewAddress_def split: if_splits)

section \<open>The kinds of addresses\<close>

lemmas kind_simps = keeps_def grows_def goOn_def failAt_def both_True

text \<open>The position a branch ends with.\<close>

abbreviation newPos :: "int + int \<Rightarrow> int" where
  "newPos r \<equiv> case r of Inl k \<Rightarrow> k | Inr k \<Rightarrow> k"

lemma skipChar_moves: "wp (skipChar c i) (\<lambda>k q. k \<le> i \<and> q = p) p"
  by (auto simp: skipChar_def intro!: wp_rules)

lemma groupName_moves:
  assumes E: "asciiConverter E"
  shows "wp (groupName E i) (\<lambda>k q. k \<le> i \<and> grows p q) p"
  by (auto simp: groupName_def kind_simps intro!: wp_rules phrase_readI [OF E] wp_mono [OF skipChar_moves])

lemma bounceAddress_moves:
  assumes E: "asciiConverter E"
  shows "wp (bounceAddress E i) (\<lambda>r q. newPos r \<le> i \<and> grows p q) p"
  by (auto simp: bounceAddress_def kind_simps intro!: wp_rules phrase_readI [OF E] wp_mono [OF skipChar_moves])

lemma broken_moves:
  assumes E: "asciiConverter E"
  shows "wp (msBroken E i) (\<lambda>r q. newPos r \<le> i \<and> grows p q) p"
    and "wp (sendmailBroken E i) (\<lambda>r q. newPos r \<le> i \<and> grows p q) p"
  by (auto simp: msBroken_def sendmailBroken_def kind_simps intro!: wp_rules wp_mono [OF groupName_moves [OF E]])

lemma skipAts_moves: "wp (skipAts i) (\<lambda>k q. k < i \<and> q = p) p"
  by (auto simp: skipAts_def intro!: wp_rules dest!: scanBack_le)

lemma unlisted_moves:
  assumes E: "asciiConverter E"
  shows "wp (unlisted E name dm i) (\<lambda>(_, _, _, k) q. k \<le> i \<and> keeps p q) p"
  by (auto simp: unlisted_def kind_simps intro!: wp_rules phrase_readI [OF E] dest!: scanBack_le)

lemma listName_keeps: "wp (listName i n buf) (\<lambda>_ q. keeps p q) p"
proof (induction n arbitrary: buf p)
  case Nil
  show ?case by (rule wp_unfold [OF listName.simps(1)]) simp
next
  case (Cons c cs)
  show ?case
    by (rule wp_unfold [OF listName.simps(2)]) (auto simp: keeps_def intro!: wp_rules wp_mono [OF Cons.IH])
qed

lemma suppressed_keeps: "wp (suppressed i) (\<lambda>_ q. keeps p q) p"
proof (cases "simplify (ap_lastComment p)")
  case (Inl e)
  with tame_simplify [of "ap_lastComment p"] show ?thesis by (simp add: wp_def suppressed_def tame_def)
next
  case (Inr n)
  then show ?thesis using listName_keeps [where i = i and n = n and buf = "[]" and p = p] by (simp add: wp_def suppressed_def)
qed

lemma spacedLocalpart_moves: "wp (spacedLocalpart lp i) (\<lambda>(_, k) q. k \<le> i \<and> q = p) p"
  by (auto simp: spacedLocalpart_def intro!: wp_rules dest!: scanBack_le)

lemmas part_rules =
  wp_mono [OF skipAts_moves] wp_mono [OF unlisted_moves] wp_mono [OF suppressed_keeps]
  wp_mono [OF spacedLocalpart_moves] wp_mono [OF skipChar_moves] phrase_readI localpart_readI

lemma angleAt_moves:
  assumes E: "asciiConverter E"
  shows "wp (angleAt E dm i) (\<lambda>(_, _, _, k) q. k \<le> i \<and> keeps p q) p"
  using E by (auto simp: angleAt_def kind_simps intro!: wp_rules part_rules)

lemma specAt_moves:
  assumes E: "asciiConverter E"
  shows "wp (specAt E name dm i) (\<lambda>(_, _, _, k) q. k \<le> i \<and> keeps p q) p"
  using E by (auto simp: specAt_def kind_simps intro!: wp_rules part_rules)

lemma angleParts_moves:
  assumes E: "asciiConverter E"
  shows "wp (angleParts E i) (\<lambda>(_, _, _, k) q. k \<le> i \<and> keeps p q) p"
  using E by (auto simp: angleParts_def kind_simps intro!: wp_rules wp_mono [OF angleAt_moves])

lemma ignoreNames_moves:
  assumes E: "asciiConverter E"
  shows "0 < n \<Longrightarrow> i + 1 < int n \<Longrightarrow> wp (ignoreNames n E name i) (\<lambda>(_, k) q. k \<le> i \<and> keeps p q) p"
proof (induction n arbitrary: name i p)
  case (Suc n)
  show ?case
    by (rule wp_unfold [OF ignoreNames.simps(2)])
      (use Suc.prems E in \<open>auto simp: both_def kind_simps split: if_splits
        intro!: wp_rules phrase_readI wp_mono [OF Suc.IH]\<close>)
qed simp

lemma angleName_moves:
  assumes E: "asciiConverter E"
  shows "wp (angleName E name i) (\<lambda>(_, k) q. k \<le> i \<and> keeps p q) p"
  using E by (auto simp: angleName_def kind_simps dest!: scanBack_le
      intro!: wp_rules phrase_readI wp_mono [OF ignoreNames_moves])

lemma nameAddr_moves:
  assumes E: "asciiConverter E"
  shows "wp (nameAddr E i) (\<lambda>r q. newPos r \<le> i \<and> grows p q) p"
  using E by (auto simp: nameAddr_def kind_simps Let_def
      intro!: wp_rules wp_mono [OF angleParts_moves] wp_mono [OF angleName_moves])

lemma encodedAddr_moves:
  assumes E: "asciiConverter E"
  shows "wp (encodedAddr E i) (\<lambda>r q. newPos r \<le> i \<and> grows p q) p"
  using E by (auto simp: encodedAddr_def kind_simps intro!: wp_rules part_rules)

lemma vms_moves:
  assumes E: "asciiConverter E"
  shows "wp (vmsQuoted E i) (\<lambda>r q. newPos r \<le> i \<and> grows p q) p"
    and "wp (vmsNode E i) (\<lambda>r q. newPos r \<le> i \<and> grows p q) p"
  using E by (auto simp: vmsQuoted_def vmsNode_def kind_simps dest!: scanBack_le intro!: wp_rules part_rules)

lemma tame_dateScan [simp]: "tame (dateScan date c dp)"
proof (induction date c dp rule: dateScan.induct)
  case (1 date c dp)
  show ?case by (subst dateScan.simps) (auto intro!: tame_bind 1 simp del: One_nat_def)
qed

lemma vmsDate_moves: "wp (vmsDate E i) (\<lambda>r q. newPos r \<le> i \<and> grows p q) p"
  by (auto simp: vmsDate_def kind_simps dest!: scanBack_le intro!: wp_rules)

lemma addrSpec_moves:
  assumes E: "asciiConverter E"
  shows "wp (addrSpec E i) (\<lambda>r q. newPos r \<le> i \<and> grows p q) p"
proof -
  have c: "wp (commentName E) Q p" if "\<And>n. Q n p" for Q p
    using that by (simp add: wp_def commentName_def)
  show ?thesis
    using E by (auto simp: addrSpec_def kind_simps intro!: c wp_rules wp_mono [OF specAt_moves])
qed

section \<open>Groups and quoted lists\<close>

text \<open>What the group parser relies on of the parser for one address, at positions before \<open>b\<close>.\<close>

definition addressBelow :: "string \<Rightarrow> int \<Rightarrow> (int \<Rightarrow> int apm) \<Rightarrow> bool" where
  "addressBelow s b addr \<longleftrightarrow>
     (\<forall>j p. 0 \<le> j \<longrightarrow> j < b \<longrightarrow> ap_s p = s \<longrightarrow> wp (addr j) (\<lambda>k q. k \<le> j \<and> grows p q) p)"

lemma addressBelowI:
  "addressBelow s b addr \<Longrightarrow> 0 \<le> j \<Longrightarrow> j < b \<Longrightarrow> ap_s p = s \<Longrightarrow> (\<And>k q. k \<le> j \<Longrightarrow> grows p q \<Longrightarrow> Q k q) \<Longrightarrow> wp (addr j) Q p"
  unfolding addressBelow_def by (blast intro: wp_mono)

lemma groupLoop_moves:
  assumes A: "addressBelow s b addr"
  shows "0 < n \<Longrightarrow> i + 1 < int n \<Longrightarrow> i < b \<Longrightarrow> ap_s p = s \<Longrightarrow>
    wp (groupLoop n addr none i) (\<lambda>r q. (case r of Inl k \<Rightarrow> k \<le> i | Inr (_, k) \<Rightarrow> k \<le> i) \<and> grows p q) p"
proof (induction n arbitrary: none i p)
  case (Suc n)
  show ?case
    by (subst wp_def, subst groupLoop.simps(2), fold wp_def)
      (use Suc.prems in \<open>auto simp: kind_simps both_def split: if_splits sum.splits prod.splits
        intro!: wp_rules addressBelowI [OF A] wp_mono [OF Suc.IH]\<close>)
qed simp

lemma groupAddress_moves:
  assumes E: "asciiConverter E" and A: "addressBelow (ap_s p) i addr"
  shows "wp (groupAddress E addr i) (\<lambda>r q. newPos r \<le> i \<and> grows p q) p"
  using E by (auto simp: groupAddress_def kind_simps split: sum.splits
      intro!: wp_rules phrase_readI wp_mono [OF groupLoop_moves [OF A]])

text \<open>What the parser relies on of the constructor for a quoted list: it is shorter.\<close>

definition parsesBelow :: "nat \<Rightarrow> (string \<Rightarrow> ap go) \<Rightarrow> bool" where
  "parsesBelow b wrapped \<longleftrightarrow>
     (\<forall>t. length t < b \<longrightarrow> tame (wrapped t) \<and> (\<forall>w. wrapped t = Inr w \<longrightarrow> list_all wfAddress (ap_Addresses w)))"

lemma length_unescape: "length (unescape s c q) \<le> length s"
  by (induction s c q rule: unescape.induct) (auto split: list.splits)

lemma unquote_shorter: "isQuoted s c q \<Longrightarrow> length (unquote s c q) < length s"
proof -
  assume q: "isQuoted s c q"
  then obtain body where s: "s = c # body @ [c]" by (rule isQuoted_shape)
  with q have "unquote s c q = unescape body c q" by (simp add: unquote_body isQuoted_body)
  with length_unescape [of body c q] s show ?thesis by simp
qed

lemma wrappedList_moves:
  assumes W: "parsesBelow (length (ap_s p)) wrapped" and i: "0 \<le> i"
    and q: "isQuoted (ap_s p) (CHR 0x22) (CHR 0x27)"
  shows "wp (wrappedList wrapped i) (\<lambda>r q. newPos r \<le> i \<and> grows p q) p"
proof -
  let ?t = "unquote (ap_s p) (CHR 0x22) (CHR 0x27)"
  have w: "tame (wrapped ?t)" "\<And>w. wrapped ?t = Inr w \<Longrightarrow> list_all wfAddress (ap_Addresses w)"
    using W unquote_shorter [OF q] by (auto simp: parsesBelow_def)
  have "wp (\<lambda>p. goOn (-1) (p\<lparr> ap_Addresses := ap_Addresses p @ ap_Addresses w \<rparr>)) (\<lambda>r q. newPos r \<le> i \<and> grows p q) p"
    if "list_all wfAddress (ap_Addresses w)" for w
    using that i by (simp add: wp_def goOn_def ap_ret_def grows_def)
  with w show ?thesis
    by (auto simp: wrappedList_def kind_simps intro!: wp_rules)
qed

section \<open>The parser ends\<close>

lemmas kind_moves =
  bounceAddress_moves broken_moves nameAddr_moves encodedAddr_moves vms_moves addrSpec_moves

lemma tame_conditions [simp]:
  "tame (prefixContains i t s)" "tame (isDigitAt i s)"
  by (simp_all add: prefixContains_def isDigitAt_def)

lemma addressKind_moves:
  assumes E: "asciiConverter E" and A: "addressBelow (ap_s p) i addr" and W: "parsesBelow (length (ap_s p)) wrapped"
  shows "wp (addressKind E wrapped addr i) (\<lambda>r q. newPos r \<le> i \<and> grows p q) p"
proof (cases "i < 0")
  case True
  then show ?thesis by (simp add: addressKind_def goOn_def grows_def)
next
  case False
  then show ?thesis
    unfolding addressKind_def if_not_P [OF False]
    by (intro wp_if kind_moves [OF E] vmsDate_moves groupAddress_moves [OF E A] wrappedList_moves [OF W]) auto
qed

lemma skipCommas_moves:
  "0 < n \<Longrightarrow> i + 1 < int n \<Longrightarrow> wp (skipCommas n E i) (\<lambda>k q. k \<le> i \<and> keeps p q) p"
proof (induction n arbitrary: i p)
  case (Suc n)
  show ?case
    by (rule wp_unfold [OF skipCommas.simps(2)])
      (use Suc.prems in \<open>auto simp: kind_simps intro!: wp_rules wp_mono [OF Suc.IH]\<close>)
qed simp

lemma skipAngles_le: "skipAngles s i = Inr k \<Longrightarrow> k \<le> i"
proof (induction s i rule: skipAngles.induct)
  case (1 s i)
  show ?case
    using 1(2) by (subst (asm) skipAngles.simps) (fastforce simp: go_bind_eq_Inr dest: 1(1) split: if_splits)
qed

lemma tame_skipAngles [simp]: "tame (skipAngles s i)"
proof (induction s i rule: skipAngles.induct)
  case (1 s i)
  show ?case by (subst skipAngles.simps) (auto intro!: tame_bind 1)
qed

lemma addressBody_moves:
  assumes E: "asciiConverter E" and A: "\<And>j. j \<le> i \<Longrightarrow> addressBelow (ap_s p) j addr"
    and W: "parsesBelow (length (ap_s p)) wrapped"
  shows "wp (addressBody E wrapped addr i) (\<lambda>k q. k \<le> i \<and> grows p q) p"
proof -
  have start: "wp (\<lambda>p. comment E i (p\<lparr> ap_lastComment := [], ap_recentError := None \<rparr>)) Q p"
    if "\<And>k q. k \<le> i \<Longrightarrow> keeps p q \<Longrightarrow> Q k q" for Q
  proof -
    have "wp (comment E i) Q (p\<lparr> ap_lastComment := [], ap_recentError := None \<rparr>)"
      by (rule cm.moveI) (auto intro!: that simp: keeps_def)
    then show ?thesis by (simp add: wp_def)
  qed
  have kind: "wp (addressKind E wrapped addr j) Q q"
    if "j \<le> i" "keeps p q" "\<And>r q'. newPos r \<le> j \<Longrightarrow> grows q q' \<Longrightarrow> Q r q'" for j Q q
    using that A [of j] W by (intro wp_mono [OF addressKind_moves [OF E]]) (auto simp: keeps_def)
  show ?thesis
    unfolding addressBody_def
    by (auto intro!: start kind wp_rules wp_mono [OF skipCommas_moves] dest!: skipAngles_le
        simp: kind_simps split: sum.splits)
qed

lemma address_moves:
  assumes E: "asciiConverter E" and W: "parsesBelow (length s) wrapped"
  shows "0 < n \<Longrightarrow> i + 1 < int n \<Longrightarrow> ap_s p = s \<Longrightarrow> wp (address n E wrapped i) (\<lambda>k q. k \<le> i \<and> grows p q) p"
proof (induction n arbitrary: i p)
  case (Suc n)
  have "addressBelow s j (address n E wrapped)" if "j \<le> i" for j
    using that Suc.prems by (auto simp: addressBelow_def intro!: Suc.IH)
  then show ?case
    using addressBody_moves [OF E, of i p "address n E wrapped" wrapped] W Suc.prems by (simp add: wp_def)
qed simp

lemma separators_moves:
  "0 < n \<Longrightarrow> i + 1 < int n \<Longrightarrow> wp (separators n colon j i) (\<lambda>k q. k \<le> i \<and> keeps p q) p"
proof (induction n arbitrary: i p)
  case (Suc n)
  show ?case
    by (rule wp_unfold [OF separators.simps(2)])
      (use Suc.prems in \<open>auto simp: kind_simps both_def split: if_splits intro!: wp_rules wp_mono [OF Suc.IH]\<close>)
qed simp

lemma planA_moves:
  assumes E: "asciiConverter E" and W: "parsesBelow (length s) wrapped"
  shows "0 < n \<Longrightarrow> i < j \<longrightarrow> i + 2 < int n \<Longrightarrow> ap_s p = s \<Longrightarrow> wp (planA n E wrapped colon i j) (\<lambda>k q. grows p q) p"
proof (induction n arbitrary: i j p)
  case (Suc n)
  have a: "wp (address (Suc (nat (i + 1))) E wrapped i) Q p"
    if "\<And>k q. k \<le> i \<Longrightarrow> grows p q \<Longrightarrow> Q k q" for Q
    using that by (intro wp_mono [OF address_moves [OF E W]]) (use Suc.prems in auto)
  show ?case
    by (rule wp_unfold [OF planA.simps(2)])
      (use Suc.prems in \<open>auto simp: kind_simps simp del: address.simps
        intro!: wp_rules a wp_mono [OF separators_moves] wp_mono [OF Suc.IH]\<close>)
qed simp

section \<open>The constructor\<close>

lemma tame_borderChar [simp]: "tame (borderChar s left right cs)"
  by (induction s left right cs rule: borderChar.induct) (auto simp: Let_def intro!: tame_bind)

lemma tame_tldEnd [simp]: "tame (tldEnd E s right b ts)"
  by (induction E s right b ts rule: tldEnd.induct) (auto simp: Let_def intro!: tame_bind)

lemma tame_domainBorder [simp]: "tame (domainBorder E s left right dot b)"
proof (induction E s left right dot b rule: domainBorder.induct)
  case (1 E s left right dot b)
  have A: "tame (domainBorder E s left right e (e + 1))"
    if "b \<le> right" "scanFwd (right + 1) isDomainChar s b = Inr e" "e \<noteq> b" "e \<le> right" "idxi s e = Inr (CHR ''.'')"
      "tldEnd E s right (e + 1) tlds = Inr None" for e
    using 1(1) [OF that(1-5) _ that(6) refl] by simp
  have B: "tame (domainBorder E s left right dot e)"
    if "b \<le> right" "scanFwd (right + 1) isDomainChar s b = Inr e" "e \<noteq> b" "\<not> e \<le> right" for e
    using 1(2) [OF that] .
  show ?case by (subst domainBorder.simps) (auto intro!: tame_bind A B split: option.splits)
qed

lemma tame_findBorder [simp]: "tame (findBorder E left right s)"
  by (auto simp: findBorder_def simp del: borderChar.simps intro!: tame_bind split: option.splits)

lemma tame_addressAround [simp]: "tame (addressAround s l a r)"
  by (auto simp: addressAround_def both_def Let_def intro!: tame_bind)

lemma addressAround_wf: "addressAround s l a r = Inr as \<Longrightarrow> list_all wfAddress as"
  by (auto simp: addressAround_def Let_def go_bind_eq_Inr wfAddress_def NewAddress_def split: if_splits)

lemma addressAround_append:
  "addressAround s l a r = Inr as \<Longrightarrow> list_all wfAddress (bs @ as) \<longleftrightarrow> list_all wfAddress bs"
  by (simp add: addressAround_wf)

lemma tame_planB [simp]: "tame (planB E s l a as)"
proof (induction E s l a as rule: planB.induct)
  case (1 E s l a as)
  show ?case by (subst planB.simps) (auto simp: Let_def intro!: tame_bind 1)
qed

lemma planB_wf: "planB E s l a as = Inr bs \<Longrightarrow> list_all wfAddress as \<Longrightarrow> list_all wfAddress bs"
proof (induction E s l a as rule: planB.induct)
  case (1 E s l a as)
  show ?case
    using 1(2,3)
    by (subst (asm) planB.simps)
      (auto simp: Let_def go_bind_eq_Inr addressAround_append simp del: list_all_append dest!: 1(1) split: if_splits)
qed

text \<open>
  What holds of a finished parser: the types of its addresses fit their fields, no two addresses have the same
  localpart and domain up to case, and a parser with an error has no addresses.
\<close>

definition finished :: "go_env \<Rightarrow> ap \<Rightarrow> bool" where
  "finished E p \<longleftrightarrow> list_all wfAddress (ap_Addresses p) \<and> distinct (map (address_key E) (ap_Addresses p)) \<and>
     (ap_firstError p \<noteq> None \<longrightarrow> ap_Addresses p = [])"

lemma Uniquify_wf:
  obtains vs where "Uniquify E as = Inr vs" "distinct (map (address_key E) vs)"
    "list_all wfAddress as \<Longrightarrow> list_all wfAddress vs"
  using Uniquify_keeps [of E as] by (auto simp: bestNames_def list_all_iff subset_iff)

lemma planC_finished: "ap_Addresses p = [] \<Longrightarrow> planC p = Inr q \<Longrightarrow> finished E q"
  by (auto simp: planC_def Let_def finished_def wfAddress_def NewAddress_def go_bind_eq_Inr split: if_splits option.splits)

lemma tame_planC [simp]: "tame (planC p)"
  by (auto simp: planC_def Let_def intro!: tame_bind split: option.splits)

definition finishing :: "go_env \<Rightarrow> ap go \<Rightarrow> bool" where
  "finishing E m \<longleftrightarrow> tame m \<and> (\<forall>p. m = Inr p \<longrightarrow> finished E p)"

lemma finishing_bind:
  "tame m \<Longrightarrow> (\<And>x. m = Inr x \<Longrightarrow> finishing E (f x)) \<Longrightarrow> finishing E (go_bind m f)"
  by (cases m) (auto simp: finishing_def tame_def)

lemma planBC_finishing:
  "finishing E (go_bind (planB E s 0 i []) (\<lambda>as.
     if as \<noteq> [] then
       go_bind (Uniquify E as) (\<lambda>as.
       Inr (p\<lparr> ap_Addresses := as, ap_firstError := None, ap_recentError := None \<rparr>))
     else planC (p\<lparr> ap_Addresses := [] \<rparr>)))"
proof (rule finishing_bind)
  fix as assume "planB E s 0 i [] = Inr as"
  then have wf: "list_all wfAddress as" by (rule planB_wf) simp
  obtain vs where "Uniquify E as = Inr vs" "distinct (map (address_key E) vs)" "list_all wfAddress vs"
    using Uniquify_wf [of E as] wf by metis
  then show "finishing E (if as \<noteq> [] then go_bind (Uniquify E as) (\<lambda>as.
       Inr (p\<lparr> ap_Addresses := as, ap_firstError := None, ap_recentError := None \<rparr>))
     else planC (p\<lparr> ap_Addresses := [] \<rparr>))"
    using planC_finished [of "p\<lparr> ap_Addresses := [] \<rparr>" _ E]
    by (cases "as = []") (simp add: finishing_def, simp add: finishing_def finished_def)
qed simp

lemma newAP_body_finishing:
  assumes E: "asciiConverter E" and W: "parsesBelow (length s) wrapped"
  shows "finishing E (newAP_body E wrapped s)"
proof -
  let ?p = "\<lparr> ap_s = s, ap_firstError = None, ap_recentError = None, ap_Addresses = [], ap_lastComment = [] \<rparr>"
  let ?A = "planA (length s + 2) E wrapped (contains s '':'') (int (length s) - 1) (int (length s) - 1 + 1) ?p"
  have A: "wp (planA (length s + 2) E wrapped (contains s '':'') (int (length s) - 1) (int (length s) - 1 + 1)) (\<lambda>k q. grows ?p q) ?p"
    by (rule planA_moves [OF E W]) auto
  then have fA: "tame ?A" by (auto simp: wp_def tame_def split: sum.splits)
  have wfA: "list_all wfAddress (ap_Addresses p)" if "?A = Inr (i, p)" for i p
    using A that by (simp add: wp_def grows_def)
  show ?thesis
    unfolding newAP_body_def Let_def
  proof (rule finishing_bind [OF fA], clarify)
    fix i p assume a: "?A = Inr (i, p)"
    obtain vs where vs: "Uniquify E (ap_Addresses p) = Inr vs" "distinct (map (address_key E) vs)" "list_all wfAddress vs"
      using Uniquify_wf [of E "ap_Addresses p"] wfA [OF a] by metis
    show "finishing E (go_bind (Uniquify E (ap_Addresses p)) (\<lambda>as.
       if i < 0 \<and> ap_firstError (p\<lparr> ap_Addresses := as \<rparr>) = None then Inr (p\<lparr> ap_Addresses := as \<rparr>)
       else go_bind (planB E s 0 (indexByteInt s (CHR ''@'')) []) (\<lambda>as'.
              if as' \<noteq> [] then
                go_bind (Uniquify E as') (\<lambda>as'.
                Inr (p\<lparr> ap_Addresses := as, ap_Addresses := as', ap_firstError := None, ap_recentError := None \<rparr>))
              else planC (p\<lparr> ap_Addresses := as, ap_Addresses := [] \<rparr>))))"
      using planBC_finishing [of E s "indexByteInt s (CHR ''@'')" "p\<lparr> ap_Addresses := vs \<rparr>"] vs
      by (cases "i < 0 \<and> ap_firstError p = None") (simp add: finishing_def finished_def, simp add: if_not_P)
  qed
qed

lemma newAP_finishing:
  assumes E: "asciiConverter E"
  shows "length s < n \<Longrightarrow> finishing E (newAP n E s)"
proof (induction n arbitrary: s)
  case (Suc n)
  have "finishing E (newAP n E t)" if "length t < length s" for t
    using that Suc.prems by (intro Suc.IH) simp
  then have "parsesBelow (length s) (newAP n E)"
    by (simp add: parsesBelow_def finishing_def finished_def)
  with newAP_body_finishing [OF E] show ?case by simp
qed simp

text \<open>
  C12. \<open>NewAddressParser\<close> ends on every string, when the US-ASCII converter makes nothing of the empty string: the
  fuel of all its loops and of the recursion through groups and quoted lists is enough, and its only panics are reads
  and slices out of range.
\<close>

theorem NewAddressParser_terminates:
  assumes "\<And>w. cs_writer E ''us-ascii'' = Some w \<Longrightarrow> fst (w []) = []"
  shows "tame (NewAddressParser E s)"
  using newAP_finishing [OF asciiConverterI, of E s "length s + 1"] assms
  by (simp add: NewAddressParser_def finishing_def del: newAP.simps)

theorem NewAddressParser_terminates_witness:
  "tame (NewAddressParser plainEnv ''Joe <joe@example.com>'')"
  by (rule NewAddressParser_terminates) (auto simp: plainEnv_def)



end
