(* ===== verification/AddressRoundtrip.thy ===== *)
theory AddressRoundtrip
  imports AddressLaws
begin

text \<open>
  What the address parser reads: lists of addresses with plain words as names, localparts and domains, in the
  form \<open>Address.String\<close> prints them, give the addresses back.
\<close>

section \<open>Positions\<close>

text \<open>
  The parser looks at the last character of a prefix \<open>pre\<close> of the string, at \<open>pos pre\<close>. White space and a
  closing parenthesis are what \<open>comment\<close> goes over.
\<close>

definition pos :: "string \<Rightarrow> int" where
  "pos pre = int (length pre) - 1"

definition stops :: "string \<Rightarrow> bool" where
  "stops pre \<longleftrightarrow> pre = [] \<or> \<not> isWsp (last pre) \<and> last pre \<noteq> CHR '')''"

lemma pos_Nil [simp]: "pos [] = -1"
  by (simp add: pos_def)

lemma pos_snoc [simp]: "pos (pre @ [c]) - 1 = pos pre"
  by (simp add: pos_def)

lemma pos_Suc [simp]: "pos pre + 1 = int (length pre)"
  by (simp add: pos_def)

lemma pos_sign [simp]: "0 \<le> pos pre \<longleftrightarrow> pre \<noteq> []" "pos pre < 0 \<longleftrightarrow> pre = []" "pos pre < int (length pre)"
  by (cases pre; simp add: pos_def)+

lemma idxi_pos [simp]: "pre \<noteq> [] \<Longrightarrow> idxi (pre @ post) (pos pre) = Inr (last pre)"
  by (cases pre rule: rev_cases) (simp_all add: pos_def idxi_def nth_append)

lemma charAt_pos [simp]: "pre \<noteq> [] \<Longrightarrow> charAt (pos pre) c (pre @ post) = Inr (last pre = c)"
  by (simp add: charAt_def)

lemma substri_prefix:
  "0 \<le> a \<Longrightarrow> a \<le> int (length pre) \<Longrightarrow> substri (pre @ post) a (int (length pre)) = Inr (drop (nat a) pre)"
  by (simp add: substri_def nat_diff_distrib)

lemma hasSuffix_last: "hasSuffix (drop k u) t \<Longrightarrow> t \<noteq> [] \<Longrightarrow> last u = last t"
  unfolding hasSuffix_iff by (metis append_is_Nil_conv drop_eq_Nil last_appendR last_drop not_le)

lemma scanBack_stop:
  assumes "pre = [] \<or> \<not> f (last pre)" "0 \<le> lo"
  shows "scanBack lo f (pre @ post) (pos pre) = Inr (pos pre)"
  using assms by (cases "pre = []") (simp_all add: scanBack.simps [of lo f _ "pos pre"] scanBack.simps [of lo f _ "-1"])

lemma scanBack_over:
  assumes "list_all f w" and "pre = [] \<or> \<not> f (last pre)"
  shows "scanBack 0 f (pre @ w @ post) (pos (pre @ w)) = Inr (pos pre)"
  using assms(1)
proof (induction w arbitrary: post rule: rev_induct)
  case Nil
  then show ?case using scanBack_stop [of pre f 0 post] assms(2) by simp
next
  case (snoc c w)
  have "idxi ((pre @ w @ [c]) @ post) (pos (pre @ w @ [c])) = Inr c" by (subst idxi_pos) auto
  moreover have "pos (pre @ w @ [c]) - 1 = pos (pre @ w)" using pos_snoc [of "pre @ w" c] by simp
  ultimately have "scanBack 0 f ((pre @ w @ [c]) @ post) (pos (pre @ w @ [c])) =
      scanBack 0 f (pre @ w @ c # post) (pos (pre @ w))"
    using snoc.prems by (subst scanBack.simps) simp
  with snoc show ?case by simp
qed

lemma comments_stop:
  assumes "ap_s p = pre @ post" and "stops pre"
  shows "comments E (Suc n) (pos pre) p = Inr (pos pre, p)"
  using assms by (cases "pre = []")
    (auto simp: ap_if_def ap_bind_def ap_read_def ap_ret_def both_def stops_def)

lemma comment_over:
  assumes "ap_s p = pre @ w @ post" and "list_all isWsp w" and "stops pre"
  shows "comment E (pos (pre @ w)) p = Inr (pos pre, p)"
proof -
  have "space (pos (pre @ w)) p = Inr (pos pre, p)"
    using assms scanBack_over [of isWsp w pre post] by (auto simp: space_def ap_read_def stops_def)
  moreover have "comments E (2 * length (ap_s p) + 3) (pos pre) p = Inr (pos pre, p)"
    using comments_stop [OF assms(1,3), of E "2 * length (ap_s p) + 2"] by (simp add: numeral_3_eq_3)
  ultimately show ?thesis by (simp add: comment_def ap_bind_def)
qed

lemma comment_stop: "ap_s p = pre @ post \<Longrightarrow> stops pre \<Longrightarrow> comment E (pos pre) p = Inr (pos pre, p)"
  using comment_over [of p pre "[]" post E] by simp

section \<open>Plain words\<close>

definition plainChar :: "char \<Rightarrow> bool" where
  "plainChar c \<longleftrightarrow> isAlnum c \<or> c = CHR ''-'' \<or> c = CHR ''_''"

definition plainWords :: "string list \<Rightarrow> bool" where
  "plainWords ws \<longleftrightarrow> ws \<noteq> [] \<and> list_all (\<lambda>w. w \<noteq> [] \<and> list_all plainChar w) ws"

lemma plainChar_atom: "plainChar c \<Longrightarrow> isAtomChar b c"
  by (auto simp: plainChar_def isAtomChar_def isAlnum_def)

lemma plainChar_not_special [simp]:
  "\<not> plainChar (CHR '' '')" "\<not> plainChar (CHR ''.'')" "\<not> plainChar (CHR ''@'')" "\<not> plainChar (CHR ''<'')"
  "\<not> plainChar (CHR ''>'')" "\<not> plainChar (CHR '','')" "\<not> plainChar (CHR '';'')" "\<not> plainChar (CHR '':'')"
  "\<not> plainChar (CHR ''='')" "\<not> plainChar (CHR ''%'')" "\<not> plainChar (CHR '')'')" "\<not> plainChar (CHR '']'')"
  "\<not> plainChar (CHR ''('')" "\<not> plainChar (CHR 0x22)" "\<not> plainChar (CHR 0x27)" "\<not> plainChar (CHR 0x5C)"
  "\<not> plainChar (CHR 0x09)" "\<not> plainChar (CHR 0x0A)" "\<not> plainChar (CHR 0x0D)"
  by (simp_all add: plainChar_def char_class less_eq_char_def)

lemma plainChar_not_blank: "plainChar c \<Longrightarrow> \<not> isWsp c"
  by (auto simp: isWsp_def)

lemma plainChar_differs: "plainChar c \<Longrightarrow> \<not> plainChar d \<Longrightarrow> c \<noteq> d"
  by auto

text \<open>Where an atom ends: before a character that is not one of an atom.\<close>

lemma not_atom [simp]:
  "\<not> isAtomChar b (CHR '' '')" "\<not> isAtomChar False (CHR ''.'')" "\<not> isAtomChar b (CHR ''@'')"
  "\<not> isAtomChar b (CHR ''<'')" "\<not> isAtomChar b (CHR '','')"
  by (simp_all add: isAtomChar_def char_class less_eq_char_def)

lemma atom_word:
  assumes s: "ap_s p = pre @ blank @ w @ post" and w: "w \<noteq> []" "list_all plainChar w"
    and blank: "list_all isWsp blank" and pre: "stops pre"
    and sep: "pre @ blank = [] \<or> \<not> isAtomChar False (last (pre @ blank))"
  shows "atom E (pos (pre @ blank @ w)) p = Inr ((w, pos pre), p)"
proof -
  let ?u = "pre @ blank @ w"
  have s': "ap_s p = ?u @ post" and u: "?u \<noteq> []" "last ?u = last w" using s w by simp_all
  have l: "plainChar (last w)" using w by (simp add: list_all_iff)
  then have "stops ?u" using w plainChar_not_blank by (auto simp: stops_def)
  then have c1: "comment E (pos ?u) p = Inr (pos ?u, p)" by (rule comment_stop [OF s'])
  have "\<not> hasSuffix (drop k ?u) ''?=''" for k
    using hasSuffix_last [of k ?u "''?=''"] l u by auto
  then have enc: "both (pos ?u - 1 > 0) (\<lambda>s. go_bind (substri s (pos ?u - 1) (pos ?u + 1)) (\<lambda>t. Inr (hasSuffix t ''?='')))
      (ap_s p) = Inr False"
    unfolding s' both_def pos_Suc
    using substri_prefix [of "pos ?u - 1" ?u post] by (auto simp: pos_def simp del: drop_append)
  have scan: "scanBack 0 (isAtomChar False) (ap_s p) (pos ?u) = Inr (pos (pre @ blank))"
    using scanBack_over [of "isAtomChar False" w "pre @ blank" post] w sep s
    by (auto simp: list_all_iff plainChar_atom)
  have r: "substri (ap_s p) (pos (pre @ blank) + 1) (pos ?u + 1) = Inr w"
    unfolding s' pos_Suc by (subst substri_prefix) simp_all
  have c2: "comment E (pos (pre @ blank)) p = Inr (pos pre, p)"
    using comment_over [OF _ blank pre, of p "w @ post" E] s by simp
  show ?thesis
    using c1 enc scan r c2 by (simp add: atom_def ap_bind_def ap_read_def ap_ret_def)
qed

section \<open>Domains and localparts\<close>

lemma joinWith_snoc: "ws \<noteq> [] \<Longrightarrow> joinWith sep (ws @ [w]) = joinWith sep ws @ sep @ w"
  by (induction sep ws rule: joinWith.induct) simp_all

lemma plainWords_snoc:
  "plainWords (ws @ [w]) \<longleftrightarrow> w \<noteq> [] \<and> list_all plainChar w \<and> (ws = [] \<or> plainWords ws)"
  by (auto simp: plainWords_def)

lemma plainWords_last: "plainWords ws \<Longrightarrow> joinWith sep ws \<noteq> [] \<and> plainChar (last (joinWith sep ws))"
proof (induction ws rule: rev_induct)
  case (snoc w ws)
  then have "w \<noteq> []" "plainChar (last w)" by (auto simp: plainWords_snoc list_all_iff)
  then show ?case by (cases "ws = []") (simp_all add: joinWith_snoc)
qed (simp add: plainWords_def)

lemma plainWords_length: "plainWords ws \<Longrightarrow> length ws \<le> length (joinWith sep ws)"
proof (induction ws rule: rev_induct)
  case (snoc w ws)
  then have "0 < length w" by (simp add: plainWords_snoc)
  with snoc show ?case
    by (cases "ws = []") (auto simp: joinWith_snoc plainWords_snoc Suc_le_eq simp del: length_greater_0_conv)
qed simp

text \<open>What follows a list of words read backwards: the start, or a separator that ends a localpart.\<close>

definition ends :: "string \<Rightarrow> bool" where
  "ends pre \<longleftrightarrow> pre = [] \<or> last pre \<in> {CHR ''@'', CHR ''<'', CHR '',''}"

lemma ends_stops: "ends pre \<Longrightarrow> stops pre"
  by (auto simp: ends_def stops_def isWsp_def)

lemma both_ends:
  "ends pre \<Longrightarrow> c \<notin> {CHR ''@'', CHR ''<'', CHR '',''} \<Longrightarrow>
   both (pre \<noteq> []) (charAt (pos pre) c) (pre @ post) = Inr False"
  by (cases "pre = []") (auto simp: both_def ends_def)

lemma stops_dot: "stops (pre @ ''.'')"
  by (simp add: stops_def isWsp_def)

lemma ends_sep:
  "ends pre \<Longrightarrow> blank = [] \<or> blank = '' '' \<Longrightarrow> pre @ blank = [] \<or> \<not> isAtomChar False (last (pre @ blank))"
  by (auto simp: ends_def)

text \<open>The last of several words, and the dot before it.\<close>

lemma atom_last:
  assumes s: "ap_s p = pre @ blank @ joinWith ''.'' (ws @ [w]) @ post" and w: "plainWords (ws @ [w])"
    and pre: "ends pre" and blank: "blank = [] \<or> blank = '' ''"
  shows "atom E (pos (pre @ blank @ joinWith ''.'' (ws @ [w]))) p =
    Inr ((w, pos (if ws = [] then pre else pre @ blank @ joinWith ''.'' ws @ ''.'')), p)"
proof (cases "ws = []")
  case True
  then show ?thesis
    using atom_word [of p pre blank w post] assms ends_stops [OF pre] ends_sep [OF pre blank]
    by (auto simp: plainWords_def isWsp_def)
next
  case False
  let ?pre = "pre @ blank @ joinWith ''.'' ws @ ''.''"
  have "stops ?pre" using stops_dot [of "pre @ blank @ joinWith ''.'' ws"] by simp
  then show ?thesis
    using atom_word [of p ?pre "[]" w post] assms False by (simp add: plainWords_snoc joinWith_snoc)
qed

lemmas ap_simps = ap_if_def ap_bind_def ap_read_def ap_ret_def both_def

lemma domain_loop_words:
  assumes pre: "ends pre" and blank: "blank = [] \<or> blank = '' ''"
  shows "ap_s p = pre @ blank @ joinWith ''.'' ws @ ''.'' @ post \<Longrightarrow> plainWords ws \<Longrightarrow> length ws < n \<Longrightarrow>
    domain_loop n E dm (pos (pre @ blank @ joinWith ''.'' ws @ ''.'')) p =
      Inr ((joinWith ''.'' ws @ ''.'' @ dm, pos pre), p)"
proof (induction ws arbitrary: n dm post rule: rev_induct)
  case (snoc w ws)
  let ?u = "pre @ blank @ joinWith ''.'' (ws @ [w])"
  obtain m where m: "n = Suc m" "length ws < m" using snoc.prems by (cases n) simp_all
  have c: "charAt (pos (?u @ ''.'')) (CHR ''.'') (ap_s p) = Inr True"
    using charAt_pos [of "?u @ ''.''" "CHR ''.''" post] snoc.prems by simp
  have "atom E (pos ?u) p = Inr ((w, pos (if ws = [] then pre else pre @ blank @ joinWith ''.'' ws @ ''.'')), p)"
    using atom_last [of p pre blank ws w "''.'' @ post" E] snoc.prems pre blank by simp
  moreover have "w \<noteq> []" using snoc.prems by (simp add: plainWords_snoc)
  ultimately have step: "domain_loop n E dm (pos (?u @ ''.'')) p =
      domain_loop m E (w @ ''.'' @ dm) (pos (if ws = [] then pre else pre @ blank @ joinWith ''.'' ws @ ''.'')) p"
    using m c pos_snoc [of ?u "CHR ''.''"] by (simp add: ap_simps)
  show ?case
  proof (cases "ws = []")
    case True
    obtain k where "m = Suc k" using m by (cases m) simp_all
    moreover have "both (pre \<noteq> []) (charAt (pos pre) (CHR ''.'')) (ap_s p) = Inr False"
      using snoc.prems(1) pre by (simp add: both_ends)
    ultimately show ?thesis using step True by (simp add: ap_if_def ap_bind_def ap_read_def ap_ret_def)
  next
    case False
    have "domain_loop m E (w @ ''.'' @ dm) (pos (pre @ blank @ joinWith ''.'' ws @ ''.'')) p =
        Inr ((joinWith ''.'' ws @ ''.'' @ w @ ''.'' @ dm, pos pre), p)"
      by (rule snoc.IH [of "w @ ''.'' @ post"]) (use snoc.prems False m in \<open>simp_all add: plainWords_snoc joinWith_snoc\<close>)
    with step False show ?thesis by (simp add: joinWith_snoc)
  qed
qed (simp add: plainWords_def)

text \<open>Not a number: the last character of a domain is a letter or a dash.\<close>

lemma domain_words:
  assumes s: "ap_s p = pre @ joinWith ''.'' ws @ post" and ws: "plainWords ws"
    and digit: "\<not> isDigit (last (joinWith ''.'' ws))" and pre: "ends pre"
  shows "domain E (pos (pre @ joinWith ''.'' ws)) p = Inr ((joinWith ''.'' ws, pos pre), p)"
proof -
  let ?u = "pre @ joinWith ''.'' ws"
  obtain us w where us: "ws = us @ [w]" using ws by (cases ws rule: rev_cases) (auto simp: plainWords_def)
  have l: "?u \<noteq> []" "plainChar (last ?u)" "\<not> isDigit (last ?u)" using plainWords_last [OF ws] digit by simp_all
  then have st: "stops ?u" using plainChar_not_blank by (auto simp: stops_def)
  have s': "ap_s p = ?u @ post" using s by simp
  let ?v = "if us = [] then pre else pre @ joinWith ''.'' us @ ''.''"
  have a: "atom E (pos ?u) p = Inr ((w, pos ?v), p)"
    using atom_last [of p pre "[]" us w post E] s ws pre us by simp
  have "stops ?v" using ends_stops [OF pre] stops_dot [of "pre @ joinWith ''.'' us"] by simp
  moreover have "\<exists>post. ap_s p = ?v @ post" using s us by (auto simp: joinWith_snoc)
  ultimately have c: "comment E (pos ?v) p = Inr (pos ?v, p)" using comment_stop by blast
  have loop: "domain_loop (Suc (nat (pos ?v + 1))) E w (pos ?v) p = Inr ((joinWith ''.'' ws, pos pre), p)"
  proof (cases "us = []")
    case True
    have "both (pre \<noteq> []) (charAt (pos pre) (CHR ''.'')) (ap_s p) = Inr False"
      using s pre by (simp add: both_ends)
    with True us show ?thesis by (simp add: ap_if_def ap_bind_def ap_read_def ap_ret_def)
  next
    case False
    then have "length us \<le> length (joinWith ''.'' us)" using ws us by (simp add: plainWords_snoc plainWords_length)
    then show ?thesis
      using domain_loop_words [of pre "[]" p us "w @ post" "Suc (nat (pos ?v + 1))" E w] s pre False ws us
      by (simp add: joinWith_snoc plainWords_snoc)
  qed
  have i: "idxi (ap_s p) (pos ?u) = Inr (last ?u)" unfolding s' by (rule idxi_pos [OF l(1)])
  have ip: "ipLiteral (pos ?u) p = Inr (None, p)"
    using l i by (simp add: ipLiteral_def ap_read_def)
  have "charAt (pos ?u) (CHR '']'') (ap_s p) = Inr False"
    using i l(2) by (auto simp: charAt_def)
  with l comment_stop [OF s' st, of E] ip a c loop show ?thesis
    by (simp add: domain_def ap_if_def ap_bind_def ap_read_def ap_ret_def del: domain_loop.simps)
qed

lemma localpart_loop_words:
  assumes E: "decodeAscii E ''.'' = ''.''" and pre: "ends pre" and blank: "blank = [] \<or> blank = '' ''"
  shows "ap_s p = pre @ blank @ joinWith ''.'' ws @ post \<Longrightarrow> plainWords ws \<Longrightarrow> length ws \<le> n \<Longrightarrow>
    localpart_loop n E r sep ao (pos (pre @ blank @ joinWith ''.'' ws)) p =
      Inr ((joinWith ''.'' ws @ decodeAscii E sep @ r, ao, pos pre), p)"
proof (induction ws arbitrary: n r sep post rule: rev_induct)
  case (snoc w ws)
  let ?u = "pre @ blank @ joinWith ''.'' (ws @ [w])"
  let ?v = "if ws = [] then pre else pre @ blank @ joinWith ''.'' ws @ ''.''"
  obtain m where m: "n = Suc m" "length ws \<le> m" using snoc.prems by (cases n) simp_all
  have l: "?u \<noteq> []" "plainChar (last ?u)" using plainWords_last [OF snoc.prems(2), of "''.''"] by simp_all
  have s': "ap_s p = ?u @ post" using snoc.prems by simp
  have "idxi (ap_s p) (pos ?u) = Inr (last ?u)" unfolding s' by (rule idxi_pos [OF l(1)])
  then have q: "charAt (pos ?u) (CHR 0x22) (ap_s p) = Inr False" using l by (auto simp: charAt_def)
  have a: "atom E (pos ?u) p = Inr ((w, pos ?v), p)"
    using atom_last [of p pre blank ws w post E] snoc.prems pre blank by simp
  have w: "w \<noteq> []" "\<not> hasPrefix w ''%''"
    using snoc.prems by (auto simp: plainWords_snoc hasPrefix_iff)
  show ?case
  proof (cases "ws = []")
    case True
    have "both (pre \<noteq> []) (charAt (pos pre) (CHR ''.'')) (ap_s p) = Inr False"
      using snoc.prems(1) pre by (simp add: both_ends)
    with q a w True m show ?thesis by (simp add: Let_def ap_if_def ap_bind_def ap_read_def ap_ret_def)
  next
    case False
    let ?t = "pre @ blank @ joinWith ''.'' ws"
    have "charAt (pos (?t @ ''.'')) (CHR ''.'') (ap_s p) = Inr True"
      using charAt_pos [of "?t @ ''.''" "CHR ''.''" "w @ post"] snoc.prems False by (simp add: joinWith_snoc)
    then have step: "localpart_loop n E r sep ao (pos ?u) p =
        localpart_loop m E (w @ decodeAscii E sep @ r) ''.'' ao (pos ?t) p"
      using q a False m pos_snoc [of ?t "CHR ''.''"]
      by (simp add: Let_def ap_simps)
    have "localpart_loop m E (w @ decodeAscii E sep @ r) ''.'' ao (pos ?t) p =
        Inr ((joinWith ''.'' ws @ decodeAscii E ''.'' @ w @ decodeAscii E sep @ r, ao, pos pre), p)"
      by (rule snoc.IH [of "''.'' @ w @ post"]) (use snoc.prems False m in \<open>simp_all add: plainWords_snoc joinWith_snoc\<close>)
    with step False E show ?thesis by (simp add: joinWith_snoc)
  qed
qed (simp add: plainWords_def)

lemma localpart_words:
  assumes E: "decodeAscii E ''.'' = ''.''" "decodeAscii E [] = []" and pre: "ends pre"
    and blank: "blank = [] \<or> blank = '' ''"
    and s: "ap_s p = pre @ blank @ joinWith ''.'' ws @ post" and ws: "plainWords ws"
  shows "localpart E (pos (pre @ blank @ joinWith ''.'' ws)) p = Inr ((joinWith ''.'' ws, pos pre), p)"
proof -
  let ?u = "pre @ blank @ joinWith ''.'' ws"
  have "?u \<noteq> []" "joinWith ''.'' ws \<noteq> []" using plainWords_last [OF ws] by simp_all
  moreover have "length ws \<le> Suc (nat (pos ?u + 1))"
    using plainWords_length [OF ws, of "''.''"] by simp
  ultimately show ?thesis
    using localpart_loop_words [OF E(1) pre blank s ws, of "Suc (nat (pos ?u + 1))" "[]" "[]" True] E
    by (simp add: localpart_def ap_bind_def ap_ret_def del: localpart_loop.simps)
qed

section \<open>Display names\<close>

lemma atom_none:
  assumes s: "ap_s p = pre @ post" and pre: "stops pre" "pre \<noteq> []" and sep: "\<And>b. \<not> isAtomChar b (last pre)"
  shows "atom E (pos pre) p = Inr (([], pos pre), p)"
proof -
  have c: "comment E (pos pre) p = Inr (pos pre, p)" by (rule comment_stop [OF s pre(1)])
  obtain b where b: "both (pos pre - 1 > 0) (\<lambda>s. go_bind (substri s (pos pre - 1) (pos pre + 1)) (\<lambda>t. Inr (hasSuffix t ''?='')))
      (ap_s p) = Inr b"
    unfolding s both_def pos_Suc
    using substri_prefix [of "pos pre - 1" pre post] by (cases "2 < length pre") (auto simp: pos_def)
  have scan: "scanBack 0 (isAtomChar b) (ap_s p) (pos pre) = Inr (pos pre)"
    unfolding s by (rule scanBack_stop) (use sep in simp_all)
  have r: "substri (ap_s p) (pos pre + 1) (pos pre + 1) = Inr []"
    unfolding s pos_Suc by (subst substri_prefix) simp_all
  show ?thesis
    using c b scan r by (simp add: atom_def ap_bind_def ap_read_def ap_ret_def)
qed

text \<open>One step of the loop over the words of a phrase.\<close>

lemma phrase_step_word:
  assumes s: "ap_s p = pre @ blank @ w @ post" and w: "w \<noteq> []" "list_all plainChar w"
    and blank: "list_all isWsp blank" and pre: "stops pre"
    and sep: "pre @ blank = [] \<or> \<not> isAtomChar False (last (pre @ blank))"
    and nobs: "pre = [] \<or> last pre \<noteq> CHR 0x5C"
  shows "phrase_step E d (pos (pre @ blank @ w)) p = Inr ((w, False, d, False, pos pre), p)"
proof -
  let ?u = "pre @ blank @ w"
  have l: "?u \<noteq> []" "plainChar (last ?u)" using w by (auto simp: list_all_iff)
  have s': "ap_s p = ?u @ post" using s by simp
  have i: "idxi (ap_s p) (pos ?u) = Inr (last ?u)" unfolding s' by (rule idxi_pos [OF l(1)])
  have "charAt (pos ?u) (CHR 0x22) (ap_s p) = Inr False" "charAt (pos ?u) (CHR ''.'') (ap_s p) = Inr False"
    using i l(2) by (auto simp: charAt_def)
  moreover have "pre = [] \<or> charAt (pos pre) (CHR 0x5C) (ap_s p) = Inr False"
    using s nobs by (cases "pre = []") auto
  then have "backslashed (Suc (nat (pos pre + 1))) E w (length w) (pos pre) p = Inr ((w, pos pre), p)"
    by (auto simp: ap_simps)
  moreover have "\<not> hasPrefix w ''=?''" using w by (auto simp: hasPrefix_iff)
  ultimately show ?thesis
    using atom_word [OF s w blank pre sep] w
    by (auto simp: phrase_step_def ap_simps atomWord_def simp del: backslashed.simps)
qed

lemma phrase_step_none:
  assumes s: "ap_s p = pre @ post" and pre: "pre \<noteq> []" "last pre = CHR '',''"
  shows "phrase_step E d (pos pre) p = Inr (([], False, d, True, pos pre), p)"
proof -
  have "atom E (pos pre) p = Inr (([], pos pre), p)"
    by (rule atom_none [OF s]) (use pre in \<open>auto simp: stops_def isWsp_def\<close>)
  moreover have "charAt (pos pre) c (ap_s p) = Inr (CHR '','' = c)" for c
    unfolding s using pre by simp
  ultimately show ?thesis by (auto simp: phrase_step_def ap_simps)
qed

lemma phrase_words_none:
  assumes s: "ap_s p = pre @ post" and pre: "pre = [] \<or> last pre = CHR '',''" and n: "2 \<le> n"
  shows "phrase_words n E r d enc False (pos pre) p = Inr ((r, d, pos pre), p)"
proof -
  obtain m where n: "n = Suc (Suc m)" using le_Suc_ex [OF n] by auto
  show ?thesis
  proof (cases "pre = []")
    case False
    then have "comment E (pos pre) p = Inr (pos pre, p)"
      using pre by (intro comment_stop [OF s]) (auto simp: stops_def isWsp_def)
    moreover have "joinWord [] False r enc = r" by (simp add: joinWord_def)
    ultimately show ?thesis
      using phrase_step_none [OF s False, of E d] False pre n by (simp add: ap_simps)
  qed (simp add: n ap_simps)
qed

lemma phrase_words_names:
  assumes pre: "pre = [] \<or> last pre = CHR '',''" and blank: "blank = [] \<or> blank = '' ''"
  shows "ap_s p = pre @ blank @ joinWith '' '' ws @ post \<Longrightarrow> plainWords ws \<Longrightarrow> length ws + 2 \<le> n \<Longrightarrow>
    phrase_words n E r d False False (pos (pre @ blank @ joinWith '' '' ws)) p =
      Inr ((if r = [] then joinWith '' '' ws else joinWith '' '' ws @ '' '' @ r, d, pos pre), p)"
proof (induction ws arbitrary: n r post rule: rev_induct)
  case (snoc w ws)
  have ends: "ends pre" using pre by (auto simp: ends_def)
  obtain m where m: "n = Suc m" "length ws + 2 \<le> m" using snoc.prems by (cases n) simp_all
  have w: "w \<noteq> []" "list_all plainChar w" using snoc.prems by (simp_all add: plainWords_snoc)
  then have "plainChar (last w)" by (simp add: list_all_iff)
  then have "last w \<noteq> CHR '' ''" by auto
  then have j: "joinWord w False r False = (if r = [] then w else w @ '' '' @ r)"
    using w by (simp add: joinWord_def)
  let ?v = "if ws = [] then pre else pre @ blank @ joinWith '' '' ws"
  let ?b = "if ws = [] then blank else '' ''"
  let ?u = "pre @ blank @ joinWith '' '' (ws @ [w])"
  have v: "?v @ ?b @ w = ?u" "ap_s p = ?v @ ?b @ w @ post" using snoc.prems by (auto simp: joinWith_snoc)
  have last: "ws \<noteq> [] \<Longrightarrow> plainChar (last (joinWith '' '' ws)) \<and> joinWith '' '' ws \<noteq> []"
    using snoc.prems plainWords_last [of ws "'' ''"] by (simp add: plainWords_snoc)
  have st: "stops ?v"
    using ends_stops [OF ends] last plainChar_not_blank by (auto simp: stops_def)
  have step: "phrase_step E d (pos ?u) p = Inr ((w, False, d, False, pos ?v), p)"
    unfolding v(1) [symmetric]
    by (rule phrase_step_word [OF v(2) w]) (use st ends_sep [OF ends blank] pre blank last in \<open>auto simp: isWsp_def\<close>)
  have c: "comment E (pos ?v) p = Inr (pos ?v, p)" by (rule comment_stop [OF v(2) st])
  have "?u \<noteq> []" using w by (cases "ws = []") (simp_all add: joinWith_snoc)
  with step c m have "phrase_words n E r d False False (pos ?u) p =
      phrase_words m E (joinWord w False r False) d False False (pos ?v) p"
    by (simp add: ap_simps)
  also have "\<dots> = Inr ((if r = [] then joinWith '' '' (ws @ [w]) else joinWith '' '' (ws @ [w]) @ '' '' @ r, d, pos pre), p)"
  proof (cases "ws = []")
    case True
    with phrase_words_none [of p pre "blank @ w @ post" m E "joinWord w False r False" d False] snoc.prems pre m j
    show ?thesis by simp
  next
    case False
    with snoc.IH [of "'' '' @ w @ post" m "joinWord w False r False"] snoc.prems m w show ?thesis
      unfolding j by (cases "r = []") (simp_all add: plainWords_snoc joinWith_snoc)
  qed
  finally show ?case .
qed (simp add: plainWords_def)

lemma phrase_name:
  assumes s: "ap_s p = pre @ blank @ joinWith '' '' ws @ '' '' @ post" and ws: "plainWords ws"
    and pre: "pre = [] \<or> last pre = CHR '',''" and blank: "blank = [] \<or> blank = '' ''"
  shows "phrase E (pos (pre @ blank @ joinWith '' '' ws @ '' '')) p = Inr ((joinWith '' '' ws, pos pre), p)"
proof -
  let ?u = "pre @ blank @ joinWith '' '' ws"
  have l: "?u \<noteq> []" "plainChar (last ?u)" using plainWords_last [OF ws] by simp_all
  have "stops ?u" using l plainChar_not_blank by (auto simp: stops_def)
  then have c: "comment E (pos (?u @ '' '')) p = Inr (pos ?u, p)"
    by (intro comment_over [of p ?u "'' ''" post]) (simp_all add: s isWsp_def)
  have "tidy (joinWith '' '' ws)"
    using ws plainChar_not_blank by (intro tidy_joinWith) (auto simp: plainWords_def list_all_iff)
  then have "simplify (joinWith '' '' ws) = Inr (joinWith '' '' ws)" by (rule simplify_tidy)
  moreover have "phrase_words (nat (pos ?u + 1) + 2) E [] False False False (pos ?u) p =
      Inr ((joinWith '' '' ws, False, pos pre), p)"
    using phrase_words_names [OF pre blank _ ws, of p "'' '' @ post" "nat (pos ?u + 1) + 2" E "[]" False]
      plainWords_length [OF ws, of "'' ''"] s by (simp del: phrase_words.simps)
  ultimately show ?thesis
    using c by (simp add: phrase_def ap_bind_def ap_read_def ap_ret_def del: phrase_words.simps add_2_eq_Suc')
qed

section \<open>Adding a plain address\<close>

lemma plainChar_ascii: "plainChar c \<Longrightarrow> isAsciiByte c"
  by (auto simp: plainChar_def char_class isAsciiByte_nat less_eq_char_def)

lemma upperByte_at: "upperByte c = CHR ''@'' \<Longrightarrow> c = CHR ''@''"
proof (cases "isLower c")
  case True
  assume "upperByte c = CHR ''@''"
  then have "byte_of (of_byte (byte_of c - 32)) = byte_of (CHR ''@'')" using True by (simp add: upperByte_def)
  then have "byte_of c = 96" by (simp add: algebra_simps)
  then have "unat (byte_of c) = 96" by simp
  then show ?thesis using True by (simp add: isLower_def less_eq_char_def)
qed (simp add: upperByte_def)

lemma toTitle_ascii:
  assumes "list_all isAsciiByte s"
  shows "toTitle E s = map upperByte s"
proof -
  have "encodeRune (titleRune E (of_char c)) = [upperByte c]" if "isAsciiByte c" for c
  proof -
    have "isAsciiByte (upperByte c)"
    proof (cases "isLower c")
      case True
      then have c: "(97 :: nat) \<le> of_char c" "of_char c \<le> (122 :: nat)" by (auto simp: isLower_def less_eq_char_def)
      have "unat (byte_of c - 32) = of_char c - 32" using c by (subst unat_sub_if_size) (auto simp: word_le_nat_alt)
      then show ?thesis using c True by (simp add: upperByte_def isAsciiByte_nat of_byte_def)
    qed (use that in \<open>simp add: upperByte_def\<close>)
    then have "encodeRune (of_char (upperByte c)) = [upperByte c]" by (rule encodeRune_ascii)
    then show ?thesis using that by (simp add: titleRune_def isAsciiByte_nat)
  qed
  then have "concat (map (\<lambda>c. encodeRune (titleRune E (of_char c))) s) = map upperByte s"
    using assms by (induction s) simp_all
  then show ?thesis by (simp add: toTitle_def runes_ascii [OF assms] comp_def)
qed

definition plainName :: "string list \<Rightarrow> bool" where
  "plainName ns \<longleftrightarrow> ns = [] \<or> plainWords ns"

lemma plainWords_chars:
  assumes sep: "list_all f sep" and plain: "\<And>c. plainChar c \<Longrightarrow> f c"
  shows "plainWords ws \<Longrightarrow> list_all f (joinWith sep ws)"
proof (induction ws rule: rev_induct)
  case (snoc w ws)
  then have "list_all f w" using plain by (auto simp: plainWords_snoc list_all_iff)
  with snoc sep show ?case by (cases "ws = []") (simp_all add: joinWith_snoc plainWords_snoc)
qed simp

lemma plainName_chars:
  "list_all f sep \<Longrightarrow> (\<And>c. plainChar c \<Longrightarrow> f c) \<Longrightarrow> plainName ns \<Longrightarrow> list_all f (joinWith sep ns)"
  using plainWords_chars by (auto simp: plainName_def)

lemma plainName_first: "plainName ns \<Longrightarrow> joinWith '' '' ns = [] \<or> plainChar (hd (joinWith '' '' ns))"
  by (cases ns) (auto simp: plainName_def plainWords_def joinWith_concat hd_append list_all_iff)

lemma tidy_name: "plainName ns \<Longrightarrow> tidy (joinWith '' '' ns)"
  using plainChar_not_blank by (intro tidy_joinWith) (auto simp: plainName_def plainWords_def list_all_iff)

lemma adjustName_plain:
  assumes ns: "plainName ns" and lp: "list_all isAsciiByte lp" and dm: "list_all isAsciiByte dm"
  shows "adjustName E (joinWith '' '' ns) lp dm = Inr (joinWith '' '' ns)"
proof -
  let ?n = "joinWith '' '' ns"
  have "?n = [] \<or> plainChar (?n ! 0)" using plainName_first [OF ns] by (metis hd_conv_nth)
  then have "?n = [] \<or> ?n ! 0 \<noteq> CHR 0x27 \<and> ?n ! 0 \<noteq> CHR 0x22" by auto
  then have q: "outerQuotes ?n 0 = 0" by (subst outerQuotes.simps) auto
  have "list_all isAsciiByte ?n" "list_all (\<lambda>c. c \<noteq> CHR ''@'') ?n"
    using ns plainChar_ascii by (auto intro!: plainName_chars simp: isAsciiByte_nat)
  then have "CHR ''@'' \<notin> set (toTitle E ?n)"
    by (auto simp: toTitle_ascii list_all_iff dest!: upperByte_at [OF sym])
  moreover have "CHR ''@'' \<in> set (toTitle E lp @ ''@'' @ toTitle E dm)" by simp
  ultimately have "toTitle E ?n \<noteq> toTitle E lp @ ''@'' @ toTitle E dm" by metis
  moreover have "\<not> (length ?n > 1 \<and> hd ?n = CHR ''('' \<and> last ?n = CHR '')'')"
    using plainName_first [OF ns] by (cases "?n = []") auto
  ultimately show ?thesis
    using q simplify_tidy [OF tidy_name [OF ns]] by (auto simp: adjustName_def Let_def)
qed

lemma add_plain:
  assumes "plainName ns" "plainWords ls" "plainWords ds" "length (joinWith ''.'' ls) \<le> 256"
  shows "add E (joinWith '' '' ns) (joinWith ''.'' ls) (joinWith ''.'' ds) p =
    Inr ((), p\<lparr> ap_Addresses := (NewAddress (joinWith '' '' ns) (joinWith ''.'' ls) (joinWith ''.'' ds))\<lparr> a_err := ap_recentError p \<rparr>
      # ap_Addresses p \<rparr>)"
proof -
  have "list_all isAsciiByte (joinWith ''.'' ls)" "list_all isAsciiByte (joinWith ''.'' ds)"
    using assms plainChar_ascii by (auto intro!: plainWords_chars simp: isAsciiByte_nat)
  then show ?thesis using adjustName_plain [of ns] assms by (simp add: add_def Let_def)
qed

section \<open>One address\<close>

text \<open>The text of a plain address, as \<open>Address.String\<close> prints it.\<close>

definition addrText :: "string list \<Rightarrow> string list \<Rightarrow> string list \<Rightarrow> string" where
  "addrText ns ls ds =
     (if ns = [] then joinWith ''.'' ls @ ''@'' @ joinWith ''.'' ds
      else joinWith '' '' ns @ '' <'' @ joinWith ''.'' ls @ ''@'' @ joinWith ''.'' ds @ ''>'')"

definition plainParts :: "string list \<times> string list \<times> string list \<Rightarrow> bool" where
  "plainParts a \<longleftrightarrow> (case a of (ns, ls, ds) \<Rightarrow>
     plainName ns \<and> plainWords ls \<and> plainWords ds \<and> length (joinWith ''.'' ls) \<le> 256 \<and> \<not> isDigit (last (joinWith ''.'' ds)))"

text \<open>What the parser relies on of the US-ASCII converter: nothing becomes nothing, a dot stays a dot.\<close>

definition dotConverter :: "go_env \<Rightarrow> bool" where
  "dotConverter E \<longleftrightarrow> decodeAscii E [] = [] \<and> decodeAscii E ''.'' = ''.''"

lemma route_ends: "ap_s p = pre @ post \<Longrightarrow> ends pre \<Longrightarrow> route E (pos pre) p = Inr (pos pre, p)"
  by (simp add: route_def both_ends ap_if_def ap_bind_def ap_read_def ap_ret_def)

lemma skipAts_stop:
  assumes "ap_s p = pre @ ''@'' @ post" "pre \<noteq> []" "last pre \<noteq> CHR ''@''"
  shows "skipAts (pos (pre @ ''@'')) p = Inr (pos pre, p)"
  using scanBack_stop [of pre "\<lambda>c. c = CHR ''@''" 1 "''@'' @ post"] assms
  by (simp add: skipAts_def ap_read_def)

text \<open>The localpart and the at-sign before the domain, with or without brackets.\<close>

lemma specAt_plain:
  assumes E: "dotConverter E" and s: "ap_s p = pre @ blank @ joinWith ''.'' ls @ ''@'' @ post" and ls: "plainWords ls"
    and pre: "ends pre" and blank: "blank = [] \<or> blank = '' ''"
  shows "specAt E name dm (pos (pre @ blank @ joinWith ''.'' ls @ ''@'')) p = Inr ((name, joinWith ''.'' ls, dm, pos pre), p)"
    and "pre \<noteq> [] \<Longrightarrow> last pre = CHR ''<'' \<Longrightarrow>
      angleAt E dm (pos (pre @ blank @ joinWith ''.'' ls @ ''@'')) p = Inr (([], joinWith ''.'' ls, dm, pos pre), p)"
proof -
  let ?u = "pre @ blank @ joinWith ''.'' ls"
  have l: "?u \<noteq> []" "plainChar (last ?u)" using plainWords_last [OF ls] by simp_all
  have s': "ap_s p = ?u @ ''@'' @ post" using s by simp
  have at: "skipAts (pos (?u @ ''@'')) p = Inr (pos ?u, p)"
    using l by (intro skipAts_stop [OF s']) auto
  have "stops ?u" using l plainChar_not_blank by (auto simp: stops_def)
  then have c: "comment E (pos ?u) p = Inr (pos ?u, p)" by (rule comment_stop [OF s'])
  have "charAt (pos ?u) (CHR '';'') (ap_s p) = Inr False"
    unfolding s' charAt_pos [OF l(1)] using l(2) by auto
  then have semi: "both (pos ?u \<ge> 1) (charAt (pos ?u) (CHR '';'')) (ap_s p) = Inr False" by (simp add: both_def)
  have lp: "localpart E (pos ?u) p = Inr ((joinWith ''.'' ls, pos pre), p)"
    by (rule localpart_words [OF _ _ pre blank s ls]) (use E in \<open>simp_all add: dotConverter_def\<close>)
  show "specAt E name dm (pos (pre @ blank @ joinWith ''.'' ls @ ''@'')) p = Inr ((name, joinWith ''.'' ls, dm, pos pre), p)"
    using at c semi lp by (simp add: specAt_def ap_if_def ap_bind_def ap_read_def ap_ret_def)
  assume pre: "pre \<noteq> []" "last pre = CHR ''<''"
  then have "spacedLocalpart (joinWith ''.'' ls) (pos pre) p = Inr ((joinWith ''.'' ls, pos pre), p)"
    using s by (simp add: spacedLocalpart_def ap_if_def ap_bind_def ap_read_def ap_ret_def)
  then show "angleAt E dm (pos (pre @ blank @ joinWith ''.'' ls @ ''@'')) p = Inr (([], joinWith ''.'' ls, dm, pos pre), p)"
    using at c semi lp by (simp add: angleAt_def ap_if_def ap_bind_def ap_read_def ap_ret_def)
qed

text \<open>The parser with an address put before those found so far.\<close>

definition found :: "string list \<times> string list \<times> string list \<Rightarrow> ap \<Rightarrow> ap" where
  "found a p = (case a of (ns, ls, ds) \<Rightarrow>
     p\<lparr> ap_Addresses := (NewAddress (joinWith '' '' ns) (joinWith ''.'' ls) (joinWith ''.'' ds))\<lparr> a_err := ap_recentError p \<rparr>
       # ap_Addresses p \<rparr>)"

lemma ap_s_found [simp]: "ap_s (found a p) = ap_s p"
  by (cases a) (simp add: found_def)

lemma commentName_none:
  assumes "dotConverter E" "ap_lastComment p = []"
  shows "commentName E p = Inr ([], p)"
  using assms by (auto simp: commentName_def dotConverter_def decodeAscii_def contains_def split: option.splits prod.splits bool.splits)

lemma plainWords_ends: "ends (pre @ ''@'')" "ends (pre @ ''<'')"
  by (simp_all add: ends_def)

lemma addrSpec_plain:
  assumes E: "dotConverter E" and a: "plainParts ([], ls, ds)"
    and s: "ap_s p = pre @ blank @ addrText [] ls ds @ post" and pre: "ends pre" and blank: "blank = [] \<or> blank = '' ''"
    and p: "ap_lastComment p = []"
  shows "addrSpec E (pos (pre @ blank @ addrText [] ls ds)) p = Inr (Inr (pos pre), found ([], ls, ds) p)"
proof -
  let ?v = "pre @ blank @ joinWith ''.'' ls @ ''@''"
  have ws: "plainWords ls" "plainWords ds" "\<not> isDigit (last (joinWith ''.'' ds))" using a by (simp_all add: plainParts_def)
  have dm: "domain E (pos (?v @ joinWith ''.'' ds)) p = Inr ((joinWith ''.'' ds, pos ?v), p)"
    using domain_words [of p ?v ds post E] s ws plainWords_ends(1) [of "pre @ blank @ joinWith ''.'' ls"]
    by (simp add: addrText_def)
  have at: "charAt (pos ?v) (CHR ''@'') (ap_s p) = Inr True"
    using charAt_pos [of ?v "CHR ''@''" "joinWith ''.'' ds @ post"] s by (simp add: addrText_def)
  have spec: "specAt E name dm (pos ?v) p = Inr ((name, joinWith ''.'' ls, dm, pos pre), p)" for name dm
    by (rule specAt_plain(1) [OF E _ ws(1) pre blank, of p "joinWith ''.'' ds @ post"]) (simp add: s addrText_def)
  have r: "route E (pos pre) p = Inr (pos pre, p)" "comment E (pos pre) p = Inr (pos pre, p)"
    using s pre by (auto intro: route_ends comment_stop ends_stops)
  have add: "add E [] (joinWith ''.'' ls) (joinWith ''.'' ds) p = Inr ((), found ([], ls, ds) p)"
    using add_plain [of "[]" ls ds E p] a by (simp add: plainParts_def found_def)
  have "joinWith ''.'' ls \<noteq> []" using plainWords_last [OF ws(1)] by simp
  moreover have "pos (pre @ blank @ addrText [] ls ds) = pos (?v @ joinWith ''.'' ds)" by (simp add: addrText_def)
  ultimately show ?thesis
    using dm at spec r add commentName_none [OF E p]
    by (simp add: addrSpec_def goOn_def ap_if_def ap_bind_def ap_read_def ap_ret_def both_def)
qed

lemma angleName_plain:
  assumes s: "ap_s p = pre @ blank @ joinWith '' '' ns @ '' <'' @ post" and ns: "plainWords ns"
    and pre: "pre = [] \<or> last pre = CHR '',''" and blank: "blank = [] \<or> blank = '' ''"
  shows "angleName E name (pos (pre @ blank @ joinWith '' '' ns @ '' <'')) p = Inr ((joinWith '' '' ns, pos pre), p)"
proof -
  let ?v = "pre @ blank @ joinWith '' '' ns @ '' ''"
  have s': "ap_s p = (?v @ ''<'') @ post" "ap_s p = ?v @ ''<'' @ post" using s by simp_all
  have lt: "charAt (pos (?v @ ''<'')) (CHR ''<'') (ap_s p) = Inr True"
    using charAt_pos [of "?v @ ''<''" "CHR ''<''" post] s by simp
  have scan: "scanBack 0 (\<lambda>c. c = CHR ''<'') (ap_s p) (pos ?v) = Inr (pos ?v)"
    unfolding s'(2) by (rule scanBack_stop) simp_all
  have ph: "phrase E (pos ?v) p = Inr ((joinWith '' '' ns, pos pre), p)"
    using phrase_name [of p pre blank ns "''<'' @ post" E] s ns pre blank by simp
  have "both (pre \<noteq> []) (\<lambda>s. go_bind (idxi s (pos pre)) (\<lambda>c. Inr (c = CHR ''@'' \<or> c = CHR ''<''))) (ap_s p) = Inr False"
    using s pre by (cases "pre = []") (auto simp: both_def)
  then have ig: "ignoreNames (Suc (nat (pos pre + 1))) E (joinWith '' '' ns) (pos pre) p = Inr ((joinWith '' '' ns, pos pre), p)"
    by (simp add: ap_bind_def ap_read_def ap_ret_def)
  have "joinWith '' '' ns \<noteq> []" "pos (?v @ ''<'') - 1 = pos ?v" using plainWords_last [OF ns] pos_snoc [of ?v "CHR ''<''"] by simp_all
  with lt scan ph ig show ?thesis
    using pos_sign(1) [of "?v @ ''<''"]
    by (simp add: angleName_def ap_if_def ap_bind_def ap_read_def ap_ret_def both_def del: ignoreNames.simps)
qed

lemma nameAddr_plain:
  assumes E: "dotConverter E" and a: "plainParts (ns, ls, ds)" and ns: "ns \<noteq> []"
    and s: "ap_s p = pre @ blank @ addrText ns ls ds @ post"
    and pre: "pre = [] \<or> last pre = CHR '',''" and blank: "blank = [] \<or> blank = '' ''"
  shows "nameAddr E (pos (pre @ blank @ addrText ns ls ds)) p = Inr (Inr (pos pre), found (ns, ls, ds) p)"
proof -
  let ?b = "pre @ blank @ joinWith '' '' ns @ '' <''"
  let ?v = "?b @ joinWith ''.'' ls @ ''@''"
  let ?u = "?v @ joinWith ''.'' ds"
  have u: "pre @ blank @ addrText ns ls ds = ?u @ ''>''" "ap_s p = ?u @ ''>'' @ post"
    using s ns by (simp_all add: addrText_def)
  have ws: "plainWords ns" "plainWords ls" "plainWords ds" "\<not> isDigit (last (joinWith ''.'' ds))"
    using a ns by (simp_all add: plainParts_def plainName_def)
  have b: "ends ?b" "?b \<noteq> []" "last ?b = CHR ''<''" by (simp_all add: ends_def)
  have dm: "domain E (pos ?u) p = Inr ((joinWith ''.'' ds, pos ?v), p)"
    using domain_words [of p ?v ds "''>'' @ post" E] u ws plainWords_ends(1) [of "?b @ joinWith ''.'' ls"] by simp
  have at: "charAt (pos ?v) (CHR ''@'') (ap_s p) = Inr True" "charAt (pos ?v) (CHR ''<'') (ap_s p) = Inr False"
    using charAt_pos [of ?v _ "joinWith ''.'' ds @ ''>'' @ post"] u by simp_all
  have spec: "angleAt E dm (pos ?v) p = Inr (([], joinWith ''.'' ls, dm, pos ?b), p)" for dm
    using specAt_plain(2) [of E p ?b "[]" ls "joinWith ''.'' ds @ ''>'' @ post" dm] E u ws b by simp
  have r: "route E (pos ?b) p = Inr (pos ?b, p)"
    using route_ends [of p ?b "joinWith ''.'' ls @ ''@'' @ joinWith ''.'' ds @ ''>'' @ post" E] u b by simp
  have parts: "angleParts E (pos (?u @ ''>'')) p = Inr (([], joinWith ''.'' ls, joinWith ''.'' ds, pos ?b), p)"
    using dm at spec r pos_snoc [of ?u "CHR ''>''"]
    by (simp add: angleParts_def ap_if_def ap_bind_def ap_read_def ap_ret_def)
  have name: "angleName E [] (pos ?b) p = Inr ((joinWith '' '' ns, pos pre), p)"
    using angleName_plain [of p pre blank ns "joinWith ''.'' ls @ ''@'' @ joinWith ''.'' ds @ ''>'' @ post"] u ws pre blank
    by simp
  have "list_all isDisplayable (joinWith '' '' ns)"
    using ws by (intro plainWords_chars) (auto simp: isDisplayable_def plainChar_def char_class less_eq_char_def less_char_def)
  then show ?thesis
    using parts name add_plain [of ns ls ds E p] a u(1)
    by (simp add: nameAddr_def goOn_def ap_bind_def ap_ret_def plainParts_def found_def)
qed

text \<open>The branch taken: by the last character and the one before it.\<close>

lemma addressKind_spec:
  assumes s: "ap_s p = u @ post" and u: "plainChar (last u)" "\<not> isDigit (last u)" "u \<noteq> []"
    and q: "\<not> isQuoted (ap_s p) (CHR 0x22) (CHR 0x27)"
  shows "addressKind E wrapped addr (pos u) p = addrSpec E (pos u) p"
proof -
  have i: "idxi (ap_s p) (pos u) = Inr (last u)" unfolding s by (rule idxi_pos [OF u(3)])
  have c: "charAt (pos u) d (ap_s p) = Inr (last u = d)" for d using i by (simp add: charAt_def)
  have ne: "last u \<noteq> CHR ''>''" "last u \<noteq> CHR ''=''" "last u \<noteq> CHR '';''" "last u \<noteq> CHR 0x22" using u(1) by auto
  have "both (pos u > 0) (andAlso (charAt (pos u - 1) (CHR ''<'')) (charAt (pos u) (CHR ''>''))) (ap_s p) = Inr False"
  proof (cases "pos u > 0")
    case True
    then have "0 \<le> pos u - 1" "pos u - 1 < int (length (ap_s p))" using s by (simp_all add: pos_def)
    then show ?thesis using c ne by (simp add: both_def andAlso_def charAt_def [of "pos u - 1"])
  qed (simp add: both_def)
  then show ?thesis
    using c ne q i u
    by (simp add: addressKind_def ap_if_def ap_bind_def ap_read_def both_def andAlso_def isDigitAt_def)
qed

lemma addressKind_angle:
  assumes s: "ap_s p = u @ ''>'' @ post" and u: "plainChar (last u)" "u \<noteq> []"
  shows "addressKind E wrapped addr (pos (u @ ''>'')) p = nameAddr E (pos (u @ ''>'')) p"
proof -
  have c: "charAt (pos (u @ ''>'')) d (ap_s p) = Inr (d = CHR ''>'')" for d
    using charAt_pos [of "u @ ''>''" d post] s by auto
  have d: "charAt (pos (u @ ''>'') - 1) d (ap_s p) = Inr (last u = d)" for d
    using charAt_pos [of u d "''>'' @ post"] s u pos_snoc [of u "CHR ''>''"] by simp
  have ne: "last u \<noteq> CHR ''<''" "last u \<noteq> CHR '';''" using u(1) by auto
  show ?thesis
    using c d ne pos_sign(1) [of "u @ ''>''"]
    by (simp add: addressKind_def ap_if_def ap_bind_def ap_read_def both_def andAlso_def)
qed

abbreviation textOf :: "string list \<times> string list \<times> string list \<Rightarrow> string" where
  "textOf a \<equiv> (case a of (ns, ls, ds) \<Rightarrow> addrText ns ls ds)"

abbreviation addrOf :: "string list \<times> string list \<times> string list \<Rightarrow> Address" where
  "addrOf a \<equiv> (case a of (ns, ls, ds) \<Rightarrow> NewAddress (joinWith '' '' ns) (joinWith ''.'' ls) (joinWith ''.'' ds))"

abbreviation fresh :: "ap \<Rightarrow> ap" where
  "fresh p \<equiv> p\<lparr> ap_lastComment := [], ap_recentError := None \<rparr>"

lemma skipCommas_stop:
  assumes "ap_s p = u @ post" "u \<noteq> []" "last u \<noteq> CHR '',''"
  shows "skipCommas (Suc n) E (pos u) p = Inr (pos u, p)"
  using assms by (simp add: ap_simps)

lemma skipAngles_stop:
  assumes "u \<noteq> []" "last u = CHR ''>'' \<longrightarrow> butlast u \<noteq> [] \<and> last (butlast u) \<noteq> CHR ''>''"
  shows "skipAngles (u @ post) (pos u) = Inr (pos u)"
proof -
  have "andAlso (charAt (pos u) (CHR ''>'')) (charAt (pos u - 1) (CHR ''>'')) (u @ post) = Inr False"
  proof (cases "last u = CHR ''>''")
    case True
    with assms obtain v where v: "u = v @ ''>''" "v \<noteq> []" "last v \<noteq> CHR ''>''"
      by (metis append_butlast_last_id)
    then show ?thesis
      using charAt_pos [of v "CHR ''>''" "''>'' @ post"] charAt_pos [of u "CHR ''>''" post] pos_snoc [of v "CHR ''>''"]
      by (simp add: andAlso_def)
  qed (use assms in \<open>simp add: andAlso_def\<close>)
  then show ?thesis by (subst skipAngles.simps) (simp add: both_def)
qed

lemma address_plain:
  assumes E: "dotConverter E" and a: "plainParts a" and s: "ap_s p = pre @ blank @ textOf a @ post"
    and pre: "pre = [] \<or> last pre = CHR '',''" and blank: "blank = [] \<or> blank = '' ''"
    and q: "\<not> isQuoted (ap_s p) (CHR 0x22) (CHR 0x27)"
  shows "address (Suc n) E wrapped (pos (pre @ blank @ textOf a)) p = Inr (pos pre, found a (fresh p))"
proof -
  obtain ns ls ds where t: "a = (ns, ls, ds)" by (cases a)
  let ?u = "pre @ blank @ textOf a"
  have ends: "ends pre" using pre by (auto simp: ends_def)
  have ds: "joinWith ''.'' ds \<noteq> []" "plainChar (last (joinWith ''.'' ds))" "\<not> isDigit (last (joinWith ''.'' ds))"
    using a t plainWords_last [of ds "''.''"] by (auto simp: plainParts_def)
  have s': "ap_s (fresh p) = ?u @ post" "ap_s (fresh p) = pre @ blank @ textOf a @ post" using s by simp_all
  have u: "?u \<noteq> []" "last ?u = CHR ''>'' \<longrightarrow> butlast ?u \<noteq> [] \<and> plainChar (last (butlast ?u))"
      "last ?u = CHR ''>'' \<or> plainChar (last ?u)"
    using ds t by (auto simp: addrText_def butlast_append)
  then have l: "last ?u \<noteq> CHR '',''" "stops ?u"
    using plainChar_not_blank by (auto simp: stops_def isWsp_def)
  have c: "comment E (pos ?u) (fresh p) = Inr (pos ?u, fresh p)" by (rule comment_stop [OF s'(1) l(2)])
  have sc: "skipCommas (Suc k) E (pos ?u) (fresh p) = Inr (pos ?u, fresh p)" for k
    by (rule skipCommas_stop [OF s'(1) u(1) l(1)])
  have sa: "skipAngles (ap_s (fresh p)) (pos ?u) = Inr (pos ?u)"
    unfolding s'(1) by (rule skipAngles_stop) (use u in auto)
  have kind: "addressKind E wrapped addr (pos ?u) (fresh p) = Inr (Inr (pos pre), found a (fresh p))" for addr
  proof (cases "ns = []")
    case True
    have "addressKind E wrapped addr (pos ?u) (fresh p) = addrSpec E (pos ?u) (fresh p)"
      by (rule addressKind_spec [OF s'(1)]) (use True t ds u q in \<open>simp_all add: addrText_def\<close>)
    then show ?thesis
      using addrSpec_plain [OF E _ _ ends blank, of ls ds "fresh p" post] True t a s by simp
  next
    case False
    then obtain v where v: "?u = v @ ''>''" "v \<noteq> []" "plainChar (last v)"
      using t ds by (auto simp: addrText_def)
    have "addressKind E wrapped addr (pos (v @ ''>'')) (fresh p) = nameAddr E (pos (v @ ''>'')) (fresh p)"
      by (rule addressKind_angle [where post = post]) (use v s in \<open>simp_all flip: append_assoc\<close>)
    then show ?thesis
      using nameAddr_plain [OF E _ False _ pre blank, of ls ds "fresh p" post] t a s v by simp
  qed
  have "comment E (pos pre) (found a (fresh p)) = Inr (pos pre, found a (fresh p))"
    using s by (intro comment_stop [OF _ ends_stops [OF ends]]) simp
  with c sc sa kind show ?thesis
    by (simp add: addressBody_def ap_bind_def ap_read_def del: skipCommas.simps)
qed

section \<open>Lists of addresses\<close>

abbreviation listText :: "(string list \<times> string list \<times> string list) list \<Rightarrow> string" where
  "listText as \<equiv> joinWith '', '' (map textOf as)"

lemma textOf_last: "plainParts a \<Longrightarrow> textOf a \<noteq> [] \<and> (last (textOf a) = CHR ''>'' \<or> plainChar (last (textOf a)))"
  using plainWords_last [of "snd (snd a)" "''.''"] by (cases a) (auto simp: plainParts_def addrText_def)

lemma textOf_first: "plainParts a \<Longrightarrow> plainChar (hd (textOf a))"
proof -
  assume "plainParts a"
  then obtain ns ls ds where a: "a = (ns, ls, ds)" "plainName ns" "plainWords ls" by (cases a) (auto simp: plainParts_def)
  have "joinWith sep ws \<noteq> [] \<and> plainChar (hd (joinWith sep ws))" if "plainWords ws" for sep ws
    using that by (cases ws) (auto simp: plainWords_def joinWith_concat hd_append list_all_iff)
  with a show ?thesis by (auto simp: addrText_def plainName_def)
qed

lemma listText_last:
  "as \<noteq> [] \<Longrightarrow> list_all plainParts as \<Longrightarrow>
   listText as \<noteq> [] \<and> (last (listText as) = CHR ''>'' \<or> plainChar (last (listText as)))"
proof (induction as rule: rev_induct)
  case (snoc a as)
  then show ?case using textOf_last [of a] by (cases "as = []") (auto simp: joinWith_snoc)
qed simp

lemma listText_not_quoted:
  assumes "as \<noteq> []" "list_all plainParts as"
  shows "\<not> isQuoted (listText as) (CHR 0x22) (CHR 0x27)"
proof
  assume "isQuoted (listText as) (CHR 0x22) (CHR 0x27)"
  then have "hd (listText as) = CHR 0x22" by (elim isQuoted_shape) simp
  moreover obtain a bs where as: "as = a # bs" using assms by (cases as) auto
  then have "plainChar (hd (listText as))"
    using assms textOf_first [of a] textOf_last [of a] by (simp add: joinWith_concat hd_append)
  ultimately show False by simp
qed

lemma separators_none:
  "pre = [] \<or> last pre \<noteq> CHR '','' \<and> last pre \<noteq> CHR '';'' \<Longrightarrow> ap_s p = pre @ post \<Longrightarrow>
   separators (Suc n) colon j (pos pre) p = Inr (pos pre, p)"
  by (cases "pre = []") (auto simp: ap_simps)

lemma separators_comma:
  assumes s: "ap_s p = pre @ '','' @ post" and pre: "pre \<noteq> []" "\<not> isWsp (last pre)" "last pre \<noteq> CHR '',''" "last pre \<noteq> CHR '';''"
    and j: "pos (pre @ '','') < j"
  shows "separators (Suc (Suc n)) colon j (pos (pre @ '','')) p = Inr (pos pre, p)"
proof -
  have "idxi (ap_s p) (pos (pre @ '','')) = Inr (CHR '','')" using idxi_pos [of "pre @ '',''" post] s by simp
  moreover have "space (pos pre) p = Inr (pos pre, p)"
    using scanBack_stop [of pre isWsp 0 "'','' @ post"] s pre by (simp add: space_def ap_read_def)
  ultimately show ?thesis
    using separators_none [of pre p "'','' @ post" n colon j] s pre j
    by (simp add: ap_bind_def ap_read_def both_def del: separators.simps add: separators.simps(2) [of "Suc n"])
qed

lemma planA_plain:
  assumes E: "dotConverter E"
  shows "as \<noteq> [] \<Longrightarrow> list_all plainParts as \<Longrightarrow> ap_s p = listText as @ post \<Longrightarrow>
    \<not> isQuoted (ap_s p) (CHR 0x22) (CHR 0x27) \<Longrightarrow> pos (listText as) < j \<Longrightarrow> length as < n \<Longrightarrow>
    \<exists>q. planA n E wrapped colon (pos (listText as)) j p = Inr (-1, q) \<and>
      ap_Addresses q = map addrOf as @ ap_Addresses p \<and> ap_firstError q = ap_firstError p"
proof (induction as arbitrary: n j p post rule: rev_induct)
  case (snoc a as)
  let ?pre = "if as = [] then [] else listText as @ '',''"
  let ?blank = "if as = [] then [] else '' ''"
  let ?u = "?pre @ ?blank @ textOf a"
  have u: "listText (as @ [a]) = ?u" "ap_s p = ?pre @ ?blank @ textOf a @ post"
    using snoc.prems by (auto simp: joinWith_snoc)
  have a: "plainParts a" "list_all plainParts as" using snoc.prems by simp_all
  obtain m where m: "n = Suc m" "length as < m" using snoc.prems by (cases n) simp_all
  define q where "q = found a (fresh p)"
  have q: "ap_s q = ap_s p" "ap_firstError q = ap_firstError p" "ap_Addresses q = addrOf a # ap_Addresses p"
    by (cases a; simp add: q_def found_def NewAddress_def)+
  have "address (Suc k) E wrapped (pos ?u) p = Inr (pos ?pre, q)" for k
    unfolding q_def by (rule address_plain [OF E a(1) u(2)]) (use snoc.prems in auto)
  moreover have "?u \<noteq> []" using textOf_last [OF a(1)] by simp
  ultimately have step: "planA n E wrapped colon (pos ?u) j p =
      ap_bind (separators (Suc (nat (pos ?pre + 1))) colon (pos ?u)  (pos ?pre)) (\<lambda>k. planA m E wrapped colon k (pos ?u)) q"
    using m snoc.prems u(1) by (simp add: ap_bind_def del: separators.simps address.simps)
  show ?case
  proof (cases "as = []")
    case True
    then have "planA n E wrapped colon (pos ?u) j p = planA m E wrapped colon (-1) (pos ?u) q"
      using step separators_none [of "[]" q "ap_s q" 0 colon "pos ?u"] by (simp add: ap_bind_def del: separators.simps)
    with True m q u(1) show ?thesis by (cases m) (auto simp: ap_ret_def)
  next
    case False
    then have l: "listText as \<noteq> []" "last (listText as) = CHR ''>'' \<or> plainChar (last (listText as))"
      using listText_last a(2) by blast+
    then have "separators (Suc (Suc (length (listText as)))) colon (pos ?u) (pos (listText as @ '','')) q = Inr (pos (listText as), q)"
      using False u(2) q(1) plainChar_not_blank
      by (intro separators_comma [where post = "'' '' @ textOf a @ post"]) (auto simp: pos_def isWsp_def)
    then have "planA n E wrapped colon (pos ?u) j p = planA m E wrapped colon (pos (listText as)) (pos ?u) q"
      using step False by (simp add: ap_bind_def nat_add_distrib del: separators.simps)
    moreover obtain r where "planA m E wrapped colon (pos (listText as)) (pos ?u) q = Inr (-1, r)"
        "ap_Addresses r = map addrOf as @ ap_Addresses q" "ap_firstError r = ap_firstError q"
      using snoc.IH [OF False a(2), of q "'', '' @ textOf a @ post" "pos ?u" m] snoc.prems q m False u
      by (auto simp: pos_def)
    ultimately show ?thesis using u(1) q by auto
  qed
qed simp

section \<open>Printing and reading\<close>

lemma firstSeen_distinct: "distinct (seen @ ks) \<Longrightarrow> firstSeen seen ks = seen @ ks"
  by (induction seen ks rule: firstSeen.induct) auto

lemma Uniquify_distinct:
  assumes "distinct (map (address_key E) as)"
  shows "Uniquify E as = Inr as"
proof -
  obtain vs where vs: "Uniquify E as = Inr vs" "map (address_key E) vs = map (address_key E) as" "set vs \<subseteq> set as"
    using Uniquify_keeps [of E as] assms by (auto simp: firstSeen_distinct bestNames_def)
  have "inj_on (address_key E) (set vs \<union> set as)"
    using assms vs(3) by (simp add: distinct_map Un_absorb1)
  with vs show ?thesis using map_inj_on by blast
qed

lemma length_listText: "list_all plainParts as \<Longrightarrow> length as \<le> length (listText as)"
proof (induction as rule: rev_induct)
  case (snoc a as)
  then have "0 < length (textOf a)" using textOf_last [of a] by simp
  with snoc show ?case by (cases "as = []") (auto simp: joinWith_snoc Suc_le_eq simp del: length_greater_0_conv)
qed simp

lemma newAP_plain:
  assumes E: "dotConverter E" and as: "as \<noteq> []" "list_all plainParts as"
  shows "\<exists>q. newAP (Suc n) E (listText as) = Inr q \<and> Uniquify E (map addrOf as) = Inr (ap_Addresses q) \<and> ap_firstError q = None"
proof -
  let ?s = "listText as"
  let ?p = "\<lparr> ap_s = ?s, ap_firstError = None, ap_recentError = None, ap_Addresses = [], ap_lastComment = [] \<rparr>"
  obtain q where q: "planA (length ?s + 2) E (newAP n E) (contains ?s '':'') (pos ?s) (pos ?s + 1) ?p = Inr (-1, q)"
      "ap_Addresses q = map addrOf as" "ap_firstError q = None"
    using planA_plain [OF E as, of ?p "[]" "pos ?s + 1" "length ?s + 2" "newAP n E" "contains ?s '':''"]
      listText_not_quoted [OF as] length_listText [OF as(2)] by auto
  moreover obtain us where "Uniquify E (map addrOf as) = Inr us" using Uniquify_keeps [of E "map addrOf as"] by blast
  ultimately show ?thesis by (simp add: newAP_body_def Let_def pos_def del: planA.simps)
qed

lemma noDoubleDot_append:
  "noDoubleDot (u @ v) \<longleftrightarrow>
   noDoubleDot u \<and> noDoubleDot v \<and> (u = [] \<or> v = [] \<or> last u \<noteq> CHR ''.'' \<or> hd v \<noteq> CHR ''.'')"
proof (induction u rule: noDoubleDot.induct)
  case "2_2"
  then show ?case by (cases v) auto
qed auto

lemma noDoubleDot_plain: "list_all plainChar v \<Longrightarrow> noDoubleDot v"
  by (induction v rule: noDoubleDot.induct) auto

lemma noDoubleDot_words: "plainWords ws \<Longrightarrow> noDoubleDot (joinWith ''.'' ws)"
proof (induction ws rule: rev_induct)
  case (snoc w ws)
  then have w: "w \<noteq> []" "noDoubleDot w" "plainChar (hd w)"
    by (auto simp: plainWords_snoc noDoubleDot_plain list_all_iff)
  show ?case
  proof (cases "ws = []")
    case False
    then have "plainWords ws" using snoc.prems by (simp add: plainWords_snoc)
    then have l: "noDoubleDot (joinWith ''.'' ws)" "plainChar (last (joinWith ''.'' ws))" "joinWith ''.'' ws \<noteq> []"
      using snoc.IH plainWords_last [of ws "''.''"] by auto
    have "noDoubleDot (''.'' @ w)" using w by (subst noDoubleDot_append) auto
    then show ?thesis using l False by (auto simp: joinWith_snoc noDoubleDot_append [of "joinWith ''.'' ws"])
  qed (use w in simp)
qed (simp add: plainWords_def)

lemma localpartText_plain:
  assumes "plainWords ls" "a_localpart a = joinWith ''.'' ls"
  shows "localpartText a = Inr (joinWith ''.'' ls)"
proof -
  have l: "joinWith ''.'' ls \<noteq> []" "plainChar (last (joinWith ''.'' ls))" using plainWords_last [OF assms(1)] by auto
  then have "last (joinWith ''.'' ls) \<noteq> CHR ''.''" by auto
  moreover have "list_all (\<lambda>c. c = CHR ''.'' \<or> isSensibleChar c) (joinWith ''.'' ls)"
    using assms(1) by (intro plainWords_chars) (auto simp: isSensibleChar_def plainChar_def isAlnum_def)
  ultimately have "localpartIsSensible_loop (joinWith ''.'' ls) = Inr True"
    using noDoubleDot_words [OF assms(1)] by (simp add: sensible_loop_True list_all_iff)
  then show ?thesis using assms l by (simp add: localpartText_def localpartIsSensible_def)
qed

lemma toString_plain:
  assumes "plainParts a"
  shows "Address_toString (addrOf a) False = Inr (textOf a)"
proof -
  obtain ns ls ds where a: "a = (ns, ls, ds)" by (cases a)
  have ws: "plainName ns" "plainWords ls" "plainWords ds" using assms a by (auto simp: plainParts_def)
  let ?a = "addrOf a"
  have lp: "localpartText ?a = Inr (joinWith ''.'' ls)"
    by (rule localpartText_plain [OF ws(2)]) (simp add: a NewAddress_def)
  have "list_all isNameAtomChar (joinWith '' '' ns)"
    using ws(1) by (intro plainName_chars) (auto simp: isNameAtomChar_def plainChar_def isAlnum_def)
  moreover have "list_all (\<lambda>c. c < CHR 0x80) (joinWith '' '' ns)"
    using ws(1) plainChar_ascii by (intro plainName_chars) (auto simp: isAsciiByte_def less_char_def)
  ultimately have name: "Name ?a False = Inr (joinWith '' '' ns)"
    by (simp add: a Name_def NewAddress_def name_scan_spec list_all_iff)
  have "joinWith ''.'' ds \<noteq> []" "ns \<noteq> [] \<Longrightarrow> joinWith '' '' ns \<noteq> []"
    using plainWords_last [of ds "''.''"] plainWords_last [of ns "'' ''"] ws by (auto simp: plainName_def)
  with lp name show ?thesis
    by (auto simp: Address_toString_def a NewAddress_def addrText_def)
qed

text \<open>
  A plain address: name, localpart and domain are made of words of letters, digits, dashes and underscores, separated by
  single blanks or dots, and the domain does not end in a digit.
\<close>

definition plainAddress :: "Address \<Rightarrow> bool" where
  "plainAddress a \<longleftrightarrow>
     a = NewAddress (a_name a) (a_localpart a) (a_domain a) \<and>
     (a_name a = [] \<or> plainWords (splitOn '' '' (a_name a))) \<and>
     plainWords (splitOn ''.'' (a_localpart a)) \<and> length (a_localpart a) \<le> 256 \<and>
     plainWords (splitOn ''.'' (a_domain a)) \<and> \<not> isDigit (last (a_domain a))"

lemma plainAddress_parts:
  assumes "plainAddress a"
  obtains b where "plainParts b" "a = addrOf b"
proof
  let ?b = "(if a_name a = [] then [] else splitOn '' '' (a_name a), splitOn ''.'' (a_localpart a), splitOn ''.'' (a_domain a))"
  show "plainParts ?b" "a = addrOf ?b"
    using assms by (auto simp: plainAddress_def plainParts_def plainName_def joinWith_splitOn)
qed

lemma plainAddresses_parts:
  assumes "list_all plainAddress as"
  obtains bs where "list_all plainParts bs" "as = map addrOf bs" "length bs = length as"
  using assms
proof (induction as arbitrary: thesis)
  case (Cons a as)
  from Cons.prems(2) have "plainAddress a" "list_all plainAddress as" by simp_all
  obtain b where "plainParts b" "a = addrOf b" using plainAddress_parts [OF \<open>plainAddress a\<close>] .
  moreover obtain bs where "list_all plainParts bs" "as = map addrOf bs" "length bs = length as"
    using Cons.IH \<open>list_all plainAddress as\<close> by blast
  ultimately show ?case using Cons.prems(1) [of "b # bs"] by simp
qed simp



end
