(* ===== verification/AddressFaults.thy ===== *)
theory AddressFaults
  imports AddressParser
begin

text \<open>
  Inputs on which the address parser panics or loses text: the places where the source reads before the start or
  past the end of the string.
\<close>

text \<open>A group whose first member is a plain address: its name is taken for a route, and the loop reads \<open>s[-1]\<close>.\<close>

lemma group_panics: "NewAddressParser plainEnv ''G:a@b.c;'' = Inl IndexOutOfRange"
  by code_simp

text \<open>A number: the scan for an IPv4 address has no bound.\<close>

lemma number_panics: "NewAddressParser plainEnv ''1'' = Inl IndexOutOfRange"
  by code_simp

text \<open>A closing bracket without an opening one.\<close>

lemma bracket_panics: "NewAddressParser plainEnv ''a>'' = Inl IndexOutOfRange"
  by code_simp

text \<open>A comment after blanks, and a parenthesis that closes nothing.\<close>

lemma comment_panics: "NewAddressParser plainEnv '' (a))'' = Inl IndexOutOfRange"
  by code_simp

text \<open>Plan B passes blanks to \<open>simplify\<close>.\<close>

lemma planB_panics: "NewAddressParser plainEnv ''( @x'' = Inl SliceOutOfRange"
  by code_simp

text \<open>An error far from the start: \<open>setError\<close> takes the text up to position 20.\<close>

lemma setError_panics:
  "setError msg 29 \<lparr> ap_s = replicate 40 (CHR ''a''), ap_firstError = None, ap_recentError = None, ap_Addresses = [], ap_lastComment = [] \<rparr> =
     Inl SliceOutOfRange"
  by (simp add: setError_def recordError_def substri_def)

text \<open>Three quotes as a name.\<close>

lemma adjustName_panics: "adjustName E (replicate 3 (CHR 0x27)) lp dm = Inl SliceOutOfRange"
  by (simp add: adjustName_def outerQuotes.simps numeral_3_eq_3 substri_def)

text \<open>A domain literal loses its last character and keeps the opening bracket.\<close>

lemma domain_literal_cut:
  "\<exists>p. NewAddressParser plainEnv ''j@[1.2]'' = Inr p \<and> map a_domain (ap_Addresses p) = [''[1.'']"
proof -
  have "map_sum id (\<lambda>p. map a_domain (ap_Addresses p)) (NewAddressParser plainEnv ''j@[1.2]'') = Inr [''[1.'']"
    by code_simp
  then show ?thesis by (cases "NewAddressParser plainEnv ''j@[1.2]''") simp_all
qed

text \<open>A list of recipients that is only a comment: the comment at the start of the string is not skipped.\<close>

lemma comment_at_start:
  "map_sum id fst (comment plainEnv 3 \<lparr> ap_s = ''(ab)'', ap_firstError = None, ap_recentError = None, ap_Addresses = [], ap_lastComment = [] \<rparr>) = Inr 0"
  by code_simp

text \<open>Whenever every character of the date is one of a date, the scan reads past its end.\<close>

lemma dateScan_panics:
  "dp < length date \<Longrightarrow> c = date ! dp \<Longrightarrow> list_all isDateChar (drop dp date) \<Longrightarrow> dateScan date c dp = Inl IndexOutOfRange"
proof (induction date c dp rule: dateScan.induct)
  case (1 date c dp)
  have "isDateChar c" using "1.prems" by (simp add: drop_eq_Cons_nth)
  then show ?case
  proof (cases "dp + 1 < length date")
    case True
    then have "dateScan date (date ! (dp + 1)) (dp + 1) = Inl IndexOutOfRange"
      using "1.IH" [of "date ! (dp + 1)"] "1.prems" \<open>isDateChar c\<close> by (simp add: drop_eq_Cons_nth)
    then show ?thesis using "1.prems" True \<open>isDateChar c\<close> by (subst dateScan.simps) simp
  next
    case False
    then show ?thesis using "1.prems" \<open>isDateChar c\<close> by (subst dateScan.simps) simp
  qed
qed

end
