(* ===== verification/HeaderCase.thy ===== *)
theory HeaderCase
  imports GoLib
begin

text \<open>
  The spelling of header field names (\<open>strings.go\<close>, \<open>headerCase\<close>), through which field names are
  compared without regard to case.
\<close>

section \<open>The operation\<close>

fun headerCase_loop :: "string \<Rightarrow> bool \<Rightarrow> string" where
  "headerCase_loop [] u = []"
| "headerCase_loop (c # cs) u =
     (if u \<and> CHR ''a'' \<le> c \<and> c \<le> CHR ''z'' then of_byte (byte_of c - 32)
      else if \<not> u \<and> CHR ''A'' \<le> c \<and> c \<le> CHR ''Z'' then of_byte (byte_of c + 32)
      else c)
     # headerCase_loop cs
         (\<not> (CHR ''A'' \<le> c \<and> c \<le> CHR ''Z'' \<or> CHR ''a'' \<le> c \<and> c \<le> CHR ''z'' \<or>
             CHR ''0'' \<le> c \<and> c \<le> CHR ''9''))"

definition headerCase :: "string \<Rightarrow> string" where
  "headerCase str =
     (let s = headerCase_loop str True;
          l = length s;
          s = (if 5 < l \<and> take 5 s = ''Mime-'' then ''MIME-'' @ drop 5 s else s)
      in if 3 < l \<and> drop (l - 3) s = ''-Id'' then take (l - 3) s @ ''-ID'' else s)"

section \<open>Case of single bytes\<close>

lemma of_char_lowerByte: "of_char (lowerByte c) = (if isUpper c then of_char c + 32 else of_char c :: nat)"
proof (cases "isUpper c")
  case True
  then have "of_char c \<le> (90::nat)" by (simp add: isUpper_def less_eq_char_def)
  then have "unat (byte_of c + 32) = of_char c + 32"
    by (simp add: unat_word_ariths)
  with True \<open>of_char c \<le> 90\<close> show ?thesis by (simp add: lowerByte_def of_byte_def)
qed (simp add: lowerByte_def)

lemma of_char_upperByte: "of_char (upperByte c) = (if isLower c then of_char c - 32 else of_char c :: nat)"
proof (cases "isLower c")
  case True
  then have b: "97 \<le> (of_char c :: nat)" "of_char c \<le> (122::nat)"
    by (simp_all add: isLower_def less_eq_char_def)
  then have "32 \<le> byte_of c" by (simp add: word_le_nat_alt)
  then have "unat (byte_of c - 32) = of_char c - 32"
    by (simp add: unat_sub)
  with True b show ?thesis by (simp add: upperByte_def of_byte_def)
qed (simp add: upperByte_def)

lemmas byte_case = char_eq_nat of_char_lowerByte of_char_upperByte
  isLower_def isUpper_def isDigit_def isAlnum_def less_eq_char_def

lemma lowerByte_lowerByte [simp]: "lowerByte (lowerByte c) = lowerByte c"
  by (simp only: byte_case) auto

lemma upperByte_lowerByte [simp]: "upperByte (lowerByte c) = upperByte c"
  by (simp only: byte_case) auto

lemma lowerByte_upperByte [simp]: "lowerByte (upperByte c) = lowerByte c"
  by (simp only: byte_case) auto

lemma isAlnum_lowerByte [simp]: "isAlnum (lowerByte c) = isAlnum c"
  by (simp only: byte_case) auto

section \<open>Field names up to case\<close>

definition foldCase :: "string \<Rightarrow> string" where
  "foldCase s = map lowerByte s"

lemma headerCase_loop_Cons:
  "headerCase_loop (c # cs) u =
     (if u then upperByte c else lowerByte c) # headerCase_loop cs (\<not> isAlnum c)"
proof -
  have "(CHR ''A'' \<le> c \<and> c \<le> CHR ''Z'' \<or> CHR ''a'' \<le> c \<and> c \<le> CHR ''z'' \<or>
    CHR ''0'' \<le> c \<and> c \<le> CHR ''9'') = isAlnum c"
    by (auto simp: isAlnum_def isLower_def isUpper_def isDigit_def)
  then show ?thesis
    by (simp add: upperByte_def lowerByte_def isLower_def isUpper_def)
qed

declare headerCase_loop.simps(2) [simp del]
declare headerCase_loop_Cons [simp]

lemma length_headerCase_loop [simp]: "length (headerCase_loop s u) = length s"
  by (induction s arbitrary: u) simp_all

lemma headerCase_loop_fold: "headerCase_loop (foldCase s) u = headerCase_loop s u"
  by (induction s arbitrary: u) (simp_all add: foldCase_def)

lemma fold_headerCase_loop: "foldCase (headerCase_loop s u) = foldCase s"
  by (induction s arbitrary: u) (simp_all add: foldCase_def)

lemma foldCase_append: "foldCase (s @ t) = foldCase s @ foldCase t"
  by (simp add: foldCase_def)

lemma foldCase_special: "foldCase ''MIME-'' = foldCase ''Mime-''" "foldCase ''-ID'' = foldCase ''-Id''"
  by (simp_all add: foldCase_def byte_case)

lemma fold_headerCase: "foldCase (headerCase s) = foldCase s"
proof -
  define a where "a = headerCase_loop s True"
  define b where "b = (if 5 < length a \<and> take 5 a = ''Mime-'' then ''MIME-'' @ drop 5 a else a)"
  have ab: "foldCase b = foldCase a"
  proof (cases "5 < length a \<and> take 5 a = ''Mime-''")
    case True
    then have "a = ''Mime-'' @ drop 5 a" by (metis append_take_drop_id)
    then have "foldCase a = foldCase ''Mime-'' @ foldCase (drop 5 a)" by (metis foldCase_append)
    with True show ?thesis by (simp only: b_def if_True foldCase_append foldCase_special simp_thms)
  qed (simp only: b_def if_False)
  have "headerCase s = (if 3 < length a \<and> drop (length a - 3) b = ''-Id'' then take (length a - 3) b @ ''-ID'' else b)"
    by (simp only: headerCase_def Let_def a_def b_def)
  moreover have "foldCase (take (length a - 3) b @ ''-ID'') = foldCase b" if "drop (length a - 3) b = ''-Id''"
  proof -
    have "b = take (length a - 3) b @ ''-Id''" using that by (metis append_take_drop_id)
    then show ?thesis by (metis foldCase_append foldCase_special(2))
  qed
  ultimately have "foldCase (headerCase s) = foldCase b" by metis
  then show ?thesis by (simp add: ab a_def fold_headerCase_loop)
qed

lemma headerCase_cong: "foldCase s = foldCase t \<Longrightarrow> headerCase s = headerCase t"
proof -
  assume "foldCase s = foldCase t"
  then have "headerCase_loop s True = headerCase_loop t True"
    using headerCase_loop_fold [of s True] headerCase_loop_fold [of t True] by simp
  then show ?thesis by (simp add: headerCase_def)
qed

lemma headerCase_idem [simp]: "headerCase (headerCase s) = headerCase s"
  by (rule headerCase_cong) (rule fold_headerCase)

text \<open>
  C36. Two field names get the same spelling from \<open>headerCase\<close> exactly when they differ only in the
  case of ASCII letters: the spelling is a canonical form.
\<close>

theorem headerCase_canonical: "headerCase s = headerCase t \<longleftrightarrow> map lowerByte s = map lowerByte t"
proof
  assume "headerCase s = headerCase t"
  then have "foldCase s = foldCase t"
    using fold_headerCase [of s] fold_headerCase [of t] by simp
  then show "map lowerByte s = map lowerByte t" by (simp add: foldCase_def)
next
  assume "map lowerByte s = map lowerByte t"
  then show "headerCase s = headerCase t" by (intro headerCase_cong) (simp add: foldCase_def)
qed

end
