(* ===== verification/Productions.thy ===== *)
theory Productions
  imports ParserLaws HeaderCase
begin

text \<open>
  What the productions of \<^verbatim>\<open>parser.go\<close> return on well-formed input: quoted strings, dot-atoms, plain text.
  The input that is left is \<open>rest\<close>.
\<close>

section \<open>The input that is left\<close>

definition rest :: "parser \<Rightarrow> string" where
  "rest p = drop (p_at p) (p_str p)"

lemma rest_newParser [simp]: "rest (newParser s) = s" "p_str (newParser s) = s"
  by (simp_all add: rest_def newParser_def)

lemma rest_Step [simp]: "rest (Step n p) = drop n (rest p)"
  by (simp add: rest_def add.commute)

lemma AtEnd_rest: "AtEnd p \<longleftrightarrow> rest p = []"
  by (simp add: AtEnd_def rest_def)

lemma NextChar_rest: "NextChar p = (if rest p = [] then CHR 0x00 else hd (rest p))"
  by (simp add: NextChar_def rest_def hd_drop_conv_nth)

lemma span_rest: "span P p = (takeWhile P (rest p), Step (length (takeWhile P (rest p))) p)"
  by (simp add: span_def rest_def Let_def)

lemma Step_0 [simp]: "Step 0 p = p"
  by (simp add: Step_def)

lemma Step_Step [simp]: "Step m (Step n p) = Step (n + m) p"
  by (simp add: Step_def add.assoc)

text \<open>The loop of the source, unrolled once.\<close>

lemma span_step:
  "span P p =
     (if \<not> AtEnd p \<and> P (NextChar p)
      then (NextChar p # fst (span P (Step 1 p)), snd (span P (Step 1 p))) else ([], p))"
  by (cases "rest p") (auto simp: span_rest AtEnd_rest NextChar_rest)

lemma toLower_single: "isAsciiByte c \<Longrightarrow> toLower E [c] = [lowerByte c]"
  by (simp add: toLower_def)

lemma Present_rest:
  "s \<noteq> [] \<Longrightarrow> Present E s p =
     (if length s \<le> length (rest p) \<and> toLower E (take (length s) (rest p)) = toLower E s
      then (True, Step (length s) p) else (False, p))"
  by (cases s) (auto simp: Present_def rest_def)

text \<open>A punctuation character is present exactly when it is the next one.\<close>

lemma lowerByte_punct: "\<not> isLower c \<Longrightarrow> \<not> isUpper c \<Longrightarrow> lowerByte x = c \<longleftrightarrow> x = c"
proof (cases "isUpper x")
  case True
  assume c: "\<not> isLower c" "\<not> isUpper c"
  have "isLower (lowerByte x)"
    using True of_char_lowerByte [of x] by (simp add: isLower_def isUpper_def less_eq_char_def)
  with True c show ?thesis by auto
qed (simp add: lowerByte_def)

lemma Present_char:
  assumes "rest p = [] \<or> isAsciiByte (hd (rest p))" and "isAsciiByte c" and "\<not> isLower c" and "\<not> isUpper c"
  shows "Present E [c] p = (if rest p \<noteq> [] \<and> hd (rest p) = c then (True, Step 1 p) else (False, p))"
proof (cases "rest p")
  case (Cons x xs)
  moreover have "lowerByte c = c" using assms(4) by (simp add: lowerByte_def)
  ultimately show ?thesis
    using assms lowerByte_punct [OF assms(3,4), of x]
    by (simp add: Present_rest toLower_single Suc_le_eq)
qed (simp add: Present_rest)

lemma Whitespace_none: "rest p = [] \<or> \<not> isSpace (hd (rest p)) \<Longrightarrow> Whitespace p = ([], p)"
  by (cases "rest p") (auto simp: Whitespace_def span_rest)

text \<open>No comment and no white space at the cursor: \<open>Comment\<close> does nothing.\<close>

definition plainAt :: "parser \<Rightarrow> bool" where
  "plainAt p \<longleftrightarrow> rest p = [] \<or> (isAsciiByte (hd (rest p)) \<and> \<not> isSpace (hd (rest p)) \<and> hd (rest p) \<noteq> CHR ''('')"

lemma Comment_none: "plainAt p \<Longrightarrow> Comment E p = ([], p)"
  using Present_char [of p "CHR ''(''" E]
  by (auto simp: plainAt_def Comment_def Whitespace_none comment_loop.simps char_class isAsciiByte_def)

section \<open>Quoted strings\<close>

abbreviation dquote :: char where "dquote \<equiv> CHR 0x22"
abbreviation backslash :: char where "backslash \<equiv> CHR 0x5C"

lemma quote_loop_hd:
  "isSpace x \<Longrightarrow> quote_loop (x # s) dquote backslash = x # quote_loop s dquote backslash"
  by (auto simp: isSpace_def)

lemma quote_loop_spaces:
  "takeWhile isSpace (quote_loop s dquote backslash @ dquote # u) = takeWhile isSpace s"
  "quote_loop s dquote backslash =
     takeWhile isSpace s @ quote_loop (dropWhile isSpace s) dquote backslash"
  by (induction s) (auto simp: isSpace_def)

lemma quoted_loop_quote:
  "rest p = quote_loop s dquote backslash @ dquote # u \<Longrightarrow> CR \<notin> set s \<Longrightarrow> LF \<notin> set s \<Longrightarrow>
   quoted_loop p buf = Inr (buf @ s, Step (length (quote_loop s dquote backslash) + 1) p)"
proof (induction s arbitrary: p buf rule: length_induct)
  case (1 s)
  show ?case
  proof (cases s)
    case Nil
    with "1.prems" show ?thesis by (simp add: quoted_loop.simps [of p] AtEnd_rest NextChar_rest)
  next
    case (Cons x xs)
    consider "x = dquote \<or> x = backslash" | "x = CHR 0x09 \<or> x = CHR '' ''"
      | "x \<noteq> dquote" "x \<noteq> backslash" "x \<noteq> CHR 0x09" "x \<noteq> CHR '' ''" by blast
    then show ?thesis
    proof cases
      case 1
      with "1.prems" Cons "1.IH" [rule_format, of xs "Step 2 p" "buf @ [x]"] show ?thesis
        by (auto simp: quoted_loop.simps [of p] AtEnd_rest NextChar_rest Let_def numeral_2_eq_2)
    next
      case 2
      let ?w = "takeWhile isSpace xs" and ?xs = "dropWhile isSpace xs"
      have x: "quote_loop s dquote backslash = x # ?w @ quote_loop ?xs dquote backslash"
        using Cons 2 quote_loop_spaces(2) [of xs] by auto
      have W: "Whitespace (Step 1 p) = (?w, Step (Suc (length ?w)) p)"
        using "1.prems" Cons 2 quote_loop_spaces(1) [of xs u] by (auto simp: Whitespace_def span_rest)
      have r: "rest (Step (Suc (length ?w)) p) = quote_loop ?xs dquote backslash @ dquote # u"
        using "1.prems"(1) x by simp
      have "length ?xs < length s" using Cons length_dropWhile_le [of isSpace xs] by simp
      moreover have "set ?xs \<subseteq> set s" "set ?w \<subseteq> set s"
        using Cons by (auto dest: set_dropWhileD set_takeWhileD)
      moreover from calculation "1.prems"(2,3) have "\<not> containsAny (x # ?w) [CR, LF]"
        using Cons by (auto simp: containsAny_def list_ex_iff)
      moreover have "substr (p_str p) (p_at p) (p_at p + Suc (length ?w)) = Inr (x # ?w)"
      proof -
        have rp: "rest p = x # ?w @ quote_loop ?xs dquote backslash @ dquote # u" using "1.prems"(1) x by simp
        have "length (p_str p) - p_at p = length (rest p)" by (simp add: rest_def)
        then have "p_at p + Suc (length ?w) \<le> length (p_str p)" unfolding rp by simp
        moreover have "take (Suc (length ?w)) (drop (p_at p) (p_str p)) = x # ?w"
          using rp by (simp add: rest_def)
        ultimately show ?thesis by simp
      qed
      moreover have "\<not> AtEnd p" "NextChar p = x"
        using "1.prems"(1) x by (simp_all add: AtEnd_rest NextChar_rest)
      moreover from calculation have "quoted_loop (Step (Suc (length ?w)) p) (buf @ x # ?w) =
          Inr ((buf @ x # ?w) @ ?xs, Step (length (quote_loop ?xs dquote backslash) + 1) (Step (Suc (length ?w)) p))"
        using "1.IH" [rule_format, of ?xs "Step (Suc (length ?w)) p" "buf @ x # ?w"] r "1.prems"(2,3) by auto
      ultimately show ?thesis
        using 2 W x Cons by (subst quoted_loop.simps) (auto simp: Let_def)
    next
      case 3
      with "1.prems" Cons "1.IH" [rule_format, of xs "Step 1 p" "buf @ [x]"] show ?thesis
        by (auto simp: quoted_loop.simps [of p] AtEnd_rest NextChar_rest Let_def)
    qed
  qed
qed

text \<open>
  C24. The parser reads back what \<open>quote\<close> prints: on a quoted string without line ends, \<open>String\<close> returns its
  text and stops after the closing quote.
\<close>

theorem String_quote:
  assumes "rest p = quote s dquote backslash @ u" and "CR \<notin> set s" and "LF \<notin> set s"
  shows "String E p = Inr (s, Step (length (quote s dquote backslash)) p)"
proof -
  have "Comment E p = ([], p)"
    by (rule Comment_none) (use assms(1) in \<open>simp add: plainAt_def quote_def isSpace_def isAsciiByte_def\<close>)
  then show ?thesis
    using assms quoted_loop_quote [of "Step 1 p" s u "[]"]
    by (simp add: String_def NextChar_rest quote_def)
qed

theorem String_quote_witness:
  "String plainEnv (newParser (quote ''a \"b'' dquote backslash)) =
     Inr (''a \"b'', Step 7 (newParser (quote ''a \"b'' dquote backslash)))"
  using String_quote [of "newParser (quote ''a \"b'' dquote backslash)" "''a \"b''" "[]" plainEnv]
  by (simp add: quote_def eval_nat_numeral)

section \<open>Dot-atoms\<close>

lemma isAtext_plain: "isAtext c \<Longrightarrow> isAsciiByte c \<and> \<not> isSpace c \<and> c \<noteq> CHR ''('' \<and> c \<noteq> CHR ''.''"
  by (auto simp: isAtext_def isAsciiByte_def isSpace_def char_class less_char_def less_eq_char_def split: if_splits)

definition atomText :: "string \<Rightarrow> bool" where
  "atomText a \<longleftrightarrow> a \<noteq> [] \<and> list_all isAtext a"

lemma takeWhile_atom:
  "list_all isAtext a \<Longrightarrow> u = [] \<or> \<not> isAtext (hd u) \<Longrightarrow> takeWhile isAtext (a @ u) = a"
  by (induction a) (cases u; auto)+

lemma Atom_reads:
  assumes "rest p = a @ u" and "atomText a" and "u = [] \<or> \<not> isAtext (hd u)"
  shows "Atom E p = (a, Step (length a) p)"
proof -
  have "plainAt p" using assms isAtext_plain by (cases a) (auto simp: plainAt_def atomText_def)
  with assms show ?thesis by (simp add: Atom_def Comment_none span_rest takeWhile_atom atomText_def)
qed

lemma Atom_none: "plainAt p \<Longrightarrow> rest p = [] \<or> \<not> isAtext (hd (rest p)) \<Longrightarrow> Atom E p = ([], p)"
  by (cases "rest p") (auto simp: Atom_def Comment_none span_rest)

lemma plainAt_mark [simp]: "plainAt (snd (mark p)) = plainAt p" "rest (snd (mark p)) = rest p"
  by (simp_all add: plainAt_def rest_def)

lemma dotAtom_next_Some:
  assumes "rest p = CHR ''.'' # a @ u" and "atomText a" and "u = [] \<or> \<not> isAtext (hd u)"
  shows "\<exists>q. dotAtom_next E p = Inr (Some a, q) \<and> rest q = u \<and> p_str q = p_str p"
proof -
  obtain m p1 where p1: "mark p = (m, p1)" by fastforce
  then have r: "rest p1 = CHR ''.'' # a @ u" and f: "p_err p1 = None" "p_str p1 = p_str p"
    using assms(1) plainAt_mark(2) [of p] mark_frame [of p] by auto
  then have "Comment E p1 = ([], p1)"
    by (intro Comment_none) (simp add: plainAt_def isAsciiByte_def isSpace_def)
  moreover have "require E ''.'' p1 = Inr (Step 1 p1)"
    using r Present_char [of p1 "CHR ''.''" E] by (simp add: require_def isAsciiByte_def char_class)
  moreover have "Comment E (Step 1 p1) = ([], Step 1 p1)"
    using r assms(2) isAtext_plain by (intro Comment_none) (cases a; auto simp: plainAt_def atomText_def)
  moreover have "Atom E (Step 1 p1) = (a, Step (length a) (Step 1 p1))"
    by (rule Atom_reads) (use r assms in auto)
  moreover have "a \<noteq> []" using assms(2) by (simp add: atomText_def)
  ultimately show ?thesis
    using r f p1 by (intro exI [of _ "Step (1 + length a) p1"]) (simp add: dotAtom_next_def Valid_def)
qed

text \<open>What may follow a dot-atom: nothing, or an ASCII character that does not continue it.\<close>

definition dotAtomEnd :: "string \<Rightarrow> bool" where
  "dotAtomEnd u \<longleftrightarrow> u = [] \<or> (isAsciiByte (hd u) \<and> \<not> isAtext (hd u) \<and> \<not> isSpace (hd u) \<and> hd u \<notin> set ''(.'')"

lemma following_returns: "rest p = [] \<or> \<not> isSpace (hd (rest p)) \<Longrightarrow> \<exists>f. following p = Inr f"
proof (cases "rest p")
  case Nil
  then show ?thesis by (auto simp: following_def rest_def)
next
  case (Cons x xs)
  assume "rest p = [] \<or> \<not> isSpace (hd (rest p))"
  with Cons have "\<not> isWsp x" by (auto simp: isSpace_def isWsp_def)
  moreover have "\<exists>ys. (if 15 < length (rest p) then take 15 (rest p) else rest p) = x # ys"
    using Cons by (simp add: take_Cons')
  ultimately have "\<exists>f. simplify (if 15 < length (rest p) then take 15 (rest p) else rest p) = Inr f"
    using simplify_not_blank by (metis list.pred_inject(2))
  moreover have "\<not> length (p_str p) \<le> p_at p" using Cons by (auto simp: rest_def)
  ultimately show ?thesis by (simp add: following_def rest_def [symmetric] Let_def)
qed

lemma dotAtom_next_None:
  assumes "dotAtomEnd (rest p)"
  shows "\<exists>q. dotAtom_next E p = Inr (None, q) \<and> rest q = rest p \<and> p_str q = p_str p"
proof -
  obtain m p1 where p1: "mark p = (m, p1)" by fastforce
  then have r: "rest p1 = rest p" and m: "m = p_mark p" "marked p p1"
    using plainAt_mark(2) [of p] marked_mark [OF p1] by auto
  have plain: "plainAt p1" using assms r by (auto simp: plainAt_def dotAtomEnd_def)
  then have C: "Comment E p1 = ([], p1)" by (rule Comment_none)
  obtain f where f: "following p1 = Inr f"
    using following_returns [of p1] plain by (auto simp: plainAt_def)
  have "Present E ''.'' p1 = (False, p1)"
    using assms r Present_char [of p1 "CHR ''.''" E] by (auto simp: dotAtomEnd_def isAsciiByte_def char_class)
  with f have R: "require E ''.'' p1 = Inr (setErr (Expected ''.'' f) p1)" by (simp add: require_def)
  let ?p2 = "setErr (Expected ''.'' f) p1"
  have r2: "rest ?p2 = rest p" "plainAt ?p2" using r plain by (simp_all add: rest_def plainAt_def)
  have "Atom E ?p2 = ([], ?p2)" by (rule Atom_none) (use r2 assms in \<open>auto simp: dotAtomEnd_def\<close>)
  with C R r2 p1 have "dotAtom_next E p = Inr (None, restore m (setErr TrailingDot ?p2))"
    by (simp add: dotAtom_next_def Comment_none Valid_def Let_def)
  moreover have "marked p (setErr TrailingDot ?p2)"
    using m(2) by (rule marked_settled) (rule settled_trans [OF settled_setErr settled_setErr])
  ultimately show ?thesis using m by (simp add: restore_marked rest_def)
qed

lemma dotAtom_loop_reads:
  "rest p = concat (map (\<lambda>a. CHR ''.'' # a) as) @ u \<Longrightarrow> list_all atomText as \<Longrightarrow> dotAtomEnd u \<Longrightarrow>
   \<exists>q. dotAtom_loop E p r = Inr (r @ concat (map (\<lambda>a. CHR ''.'' # a) as), q) \<and> rest q = u \<and> p_str q = p_str p"
proof (induction as arbitrary: p r)
  case Nil
  with dotAtom_next_None [of p E] show ?case by (auto simp: dotAtom_loop.simps [of E p])
next
  case (Cons a as)
  let ?u = "concat (map (\<lambda>a. CHR ''.'' # a) as) @ u"
  have "?u = [] \<or> \<not> isAtext (hd ?u)"
    using Cons.prems(3) by (cases as) (auto simp: dotAtomEnd_def isAtext_def char_class)
  with Cons.prems dotAtom_next_Some [of p a ?u E] obtain q where
    q: "dotAtom_next E p = Inr (Some a, q)" "rest q = ?u" "p_str q = p_str p" by auto
  from Cons.IH [OF q(2), of "r @ ''.'' @ a"] Cons.prems q show ?case by (auto simp: dotAtom_loop.simps [of E p])
qed

text \<open>
  C25. On atoms separated by dots, \<open>DotAtom\<close> returns all of them with their dots and stops at what follows.
\<close>

theorem DotAtom_reads:
  assumes "rest p = joinWith ''.'' (a # as) @ u" and "list_all atomText (a # as)" and "dotAtomEnd u"
  shows "\<exists>q. DotAtom E p = Inr (joinWith ''.'' (a # as), q) \<and> rest q = u \<and> p_str q = p_str p"
proof -
  let ?t = "concat (map (\<lambda>a. CHR ''.'' # a) as)"
  have j: "joinWith ''.'' (a # as) = a @ ?t"
    by (induction as arbitrary: a) auto
  have "?t @ u = [] \<or> \<not> isAtext (hd (?t @ u))"
    using assms(3) by (cases as) (auto simp: dotAtomEnd_def isAtext_def char_class)
  then have "Atom E p = (a, Step (length a) p)"
    using assms(1,2) j by (intro Atom_reads [of p a "?t @ u"]) auto
  moreover have "\<exists>q. dotAtom_loop E (Step (length a) p) a = Inr (a @ ?t, q) \<and> rest q = u \<and> p_str q = p_str p"
    using dotAtom_loop_reads [of "Step (length a) p" as u E a] assms j by simp
  moreover have "a \<noteq> []" using assms(2) by (simp add: atomText_def)
  ultimately show ?thesis unfolding j by (simp add: DotAtom_def)
qed

theorem DotAtom_reads_witness:
  "\<exists>q. DotAtom plainEnv (newParser ''a.bc@d'') = Inr (''a.bc'', q) \<and> rest q = ''@d'' \<and> p_str q = ''a.bc@d''"
  using DotAtom_reads [of "newParser ''a.bc@d''" "''a''" "[''bc'']" "''@d''" plainEnv]
  by (simp add: atomText_def dotAtomEnd_def isAtext_def isAsciiByte_def isSpace_def char_class)

section \<open>Plain text\<close>

definition plainText :: "string \<Rightarrow> bool" where
  "plainText s \<longleftrightarrow> list_all (\<lambda>c. isAsciiByte c \<and> c \<noteq> CR \<and> c \<noteq> LF) s \<and> \<not> contains s ''=?''"

lemma contains_drop: "contains (drop n s) t \<Longrightarrow> contains s t"
proof -
  assume "contains (drop n s) t"
  then obtain i where "indexOf (drop n s) t = Some i" by (auto simp: contains_def)
  then have "hasPrefix (drop (i + n) s) t" using indexOf_Some [of "drop n s" t i] by simp
  then show "contains s t" using indexOf_None [of s t "i + n"] by (auto simp: contains_def)
qed

lemma plainText_drop: "plainText s \<Longrightarrow> plainText (drop n s)"
  using contains_drop by (auto simp: plainText_def list_all_iff dest: in_set_dropD)

lemma plainText_no_word: "plainText (rest p) \<Longrightarrow> Present E ''=?'' p = (False, p)"
proof (rule ccontr)
  assume p: "plainText (rest p)" and "Present E ''=?'' p \<noteq> (False, p)"
  then have l: "2 \<le> length (rest p)" and eq: "toLower E (take 2 (rest p)) = toLower E ''=?''"
    by (auto simp: Present_rest numeral_2_eq_2 split: if_splits)
  then obtain x y zs where xy: "rest p = x # y # zs"
    by (cases "rest p" rule: remdups_adj.cases) auto
  with p eq have "[lowerByte x, lowerByte y] = ''=?''"
    by (simp add: plainText_def toLower_def isAsciiByte_def lowerByte_def char_class)
  then have "x = CHR ''=''" "y = CHR ''?''"
    using lowerByte_punct [of "CHR ''=''" x] lowerByte_punct [of "CHR ''?''" y] by (auto simp: char_class)
  with xy have "hasPrefix (rest p) ''=?''" by (simp add: hasPrefix_def)
  with xy have "contains (rest p) ''=?''" by (simp add: contains_def)
  with p show False by (simp add: plainText_def)
qed

lemma text_word_plain:
  assumes "plainText (rest p)"
  shows "\<exists>q. text_word E p = Inr (takeWhile isTextChar (rest p), q) \<and>
    p_at q = p_at p + length (takeWhile isTextChar (rest p)) \<and> p_str q = p_str p"
proof -
  obtain m p1 where p1: "mark p = (m, p1)" by fastforce
  then have f: "rest p1 = rest p" "p_at p1 = p_at p" "p_str p1 = p_str p"
    using plainAt_mark(2) [of p] mark_frame [of p] by auto
  with assms plainText_no_word [of p1 E] p1 show ?thesis
    by (simp add: text_word_def Let_def span_rest)
qed

lemma isTextChar_iff: "isAsciiByte c \<Longrightarrow> c \<noteq> CR \<Longrightarrow> c \<noteq> LF \<Longrightarrow> isTextChar c \<longleftrightarrow> \<not> isSpace c"
  by (auto simp: isTextChar_def isSpace_def isAsciiByte_def less_char_def less_eq_char_def)

lemma text_loop_plain:
  "plainText (rest p) \<Longrightarrow> rest p = [] \<or> \<not> isSpace (hd (rest p)) \<Longrightarrow> p_at p \<le> length (p_str p) \<Longrightarrow>
   \<exists>q. text_loop E p sp out = Inr (out @ sp @ rest p, q) \<and> p_at q = length (p_str p)"
proof (induction E p sp out rule: text_loop.induct)
  case (1 E p sp out)
  let ?w = "takeWhile isTextChar (rest p)"
  from text_word_plain [OF 1(2)] obtain q where
    q: "text_word E p = Inr (?w, q)" "p_at q = p_at p + length ?w" "p_str q = p_str p" by blast
  have rq: "rest q = dropWhile isTextChar (rest p)"
    using q by (simp add: rest_def dropWhile_eq_drop add.commute)
  show ?case
  proof (cases "?w = []")
    case True
    have "rest p = []"
    proof (rule ccontr)
      assume ne: "rest p \<noteq> []"
      then have "isTextChar (hd (rest p))"
        using 1(2,3) isTextChar_iff [of "hd (rest p)"] by (cases "rest p") (auto simp: plainText_def)
      with True ne show False by (cases "rest p") auto
    qed
    with 1(4) q True show ?thesis by (auto simp: text_loop.simps [of E p] rest_def)
  next
    case False
    let ?v = "takeWhile isSpace (rest q)"
    have W: "Whitespace q = (?v, Step (length ?v) q)" by (simp add: Whitespace_def span_rest)
    have set: "set ?v \<subseteq> set (rest p)" using rq by (auto dest!: set_takeWhileD set_dropWhileD)
    have "\<not> containsAny ?v [CR, LF]"
    proof
      assume "containsAny ?v [CR, LF]"
      then obtain c where "c \<in> set (rest p)" "c = CR \<or> c = LF"
        using set by (auto simp: containsAny_def list_ex_iff)
      with 1(2) show False by (auto simp: plainText_def list_all_iff)
    qed
    moreover have r2: "rest (Step (length ?v) q) = dropWhile isSpace (rest q)" by (simp add: dropWhile_eq_drop)
    have "rest q = drop (length ?w) (rest p)" by (simp add: rq dropWhile_eq_drop)
    then have "plainText (rest (Step (length ?v) q))"
      using plainText_drop [OF plainText_drop [OF 1(2)]] by (simp only: rest_Step)
    moreover have "rest (Step (length ?v) q) = [] \<or> \<not> isSpace (hd (rest (Step (length ?v) q)))"
      unfolding r2 using hd_dropWhile [of isSpace "rest q"] by auto
    moreover have "p_at (Step (length ?v) q) \<le> length (p_str (Step (length ?v) q))"
      using length_takeWhile_le [of isTextChar "rest p"] length_takeWhile_le [of isSpace "rest q"] q 1(4)
      by (simp add: rest_def)
    moreover have "p_at q \<noteq> p_at p" using q False by simp
    moreover have "?w @ ?v @ dropWhile isSpace (rest q) = rest p" by (simp add: rq)
    ultimately show ?thesis
      using 1(1) [OF q(1) refl _ W [symmetric] refl] W q r2
      by (subst text_loop.simps) simp
  qed
qed

text \<open>
  C26. \<open>Text\<close> returns plain text as it is, white space included, and reads all of it: ASCII without line ends
  and without the start of an encoded word.
\<close>

theorem Text_plain:
  assumes "plainText s"
  shows "\<exists>q. Text E (newParser s) = Inr (s, q) \<and> AtEnd q"
proof -
  let ?w = "takeWhile isSpace s"
  let ?p = "Step (length ?w) (newParser s)"
  have W: "Whitespace (newParser s) = (?w, ?p)" by (simp add: Whitespace_def span_rest)
  have r: "rest ?p = dropWhile isSpace s" by (simp add: dropWhile_eq_drop)
  have "plainText (rest ?p)" using plainText_drop [OF assms] by simp
  moreover have "rest ?p = [] \<or> \<not> isSpace (hd (rest ?p))" unfolding r using hd_dropWhile [of isSpace s] by auto
  moreover have "p_at ?p \<le> length (p_str ?p)" using length_takeWhile_le [of isSpace s] by (simp add: newParser_def)
  ultimately obtain q where "text_loop E ?p ?w [] = Inr ([] @ ?w @ rest ?p, q)" "p_at q = length (p_str ?p)"
    using text_loop_plain by blast
  moreover from this have "reads ?p q" using extends_reads [OF extends_text_loop] by blast
  ultimately show ?thesis using W r by (auto simp: Text_def AtEnd_def reads_def)
qed

theorem Text_plain_witness: "\<exists>q. Text plainEnv (newParser ''a  b '') = Inr (''a  b '', q) \<and> AtEnd q"
  by (rule Text_plain) code_simp

section \<open>Where the parser panics or misreads\<close>

text \<open>
  White space after a broken encoded word is all the error message could show, and \<open>simplify\<close> panics on it.
\<close>

lemma Text_panics: "Text plainEnv (newParser ''=?x '') = Inl SliceOutOfRange"
  by code_simp

text \<open>A backspace in an encoded word is taken out with the character before it, then searched for past the end.\<close>

lemma encodedWord_backspace_panics:
  "encodedWord plainEnv EncodedText (newParser ''=?us-ascii?q?ab=08?='') = Inl SliceOutOfRange"
  by code_simp

text \<open>The underscore of the Q encoding is not decoded to a space, as it is by \<open>de2047\<close>.\<close>

lemma encodedWord_underscore:
  "\<exists>q. encodedWord plainEnv EncodedText (newParser ''=?us-ascii?q?a_b?='') = Inr (''a_b'', q)"
  "de2047 plainEnv ''=?us-ascii?q?a_b?='' = Inr ''a b''"
proof -
  have "map_sum id fst (encodedWord plainEnv EncodedText (newParser ''=?us-ascii?q?a_b?='')) = Inr ''a_b''"
    by code_simp
  then show "\<exists>q. encodedWord plainEnv EncodedText (newParser ''=?us-ascii?q?a_b?='') = Inr (''a_b'', q)"
    by (cases "encodedWord plainEnv EncodedText (newParser ''=?us-ascii?q?a_b?='')") auto
qed code_simp

end
