(* ===== verification/HeaderFields.thy ===== *)
theory HeaderFields
  imports AddressParser Productions
begin

text \<open>
  Header fields (\<^verbatim>\<open>fields.go\<close>): the names, the struct \<open>HeaderField\<close> with the parsers of the unstructured
  fields, and \<open>DateField\<close>. The structs that embed \<open>HeaderField\<close> extend its record.
\<close>

section \<open>Field names\<close>

abbreviation FromFieldName :: string where "FromFieldName \<equiv> ''From''"
abbreviation ResentFromFieldName :: string where "ResentFromFieldName \<equiv> ''Resent-From''"
abbreviation SenderFieldName :: string where "SenderFieldName \<equiv> ''Sender''"
abbreviation ResentSenderFieldName :: string where "ResentSenderFieldName \<equiv> ''Resent-Sender''"
abbreviation ReturnPathFieldName :: string where "ReturnPathFieldName \<equiv> ''Return-Path''"
abbreviation ReplyToFieldName :: string where "ReplyToFieldName \<equiv> ''Reply-To''"
abbreviation ToFieldName :: string where "ToFieldName \<equiv> ''To''"
abbreviation CcFieldName :: string where "CcFieldName \<equiv> ''Cc''"
abbreviation BccFieldName :: string where "BccFieldName \<equiv> ''Bcc''"
abbreviation ResentToFieldName :: string where "ResentToFieldName \<equiv> ''Resent-To''"
abbreviation ResentCcFieldName :: string where "ResentCcFieldName \<equiv> ''Resent-Cc''"
abbreviation ResentBccFieldName :: string where "ResentBccFieldName \<equiv> ''Resent-Bcc''"
abbreviation MessageIDFieldName :: string where "MessageIDFieldName \<equiv> ''Message-ID''"
abbreviation ResentMessageIDFieldName :: string where "ResentMessageIDFieldName \<equiv> ''Resent-Message-ID''"
abbreviation InReplyToFieldName :: string where "InReplyToFieldName \<equiv> ''In-Reply-To''"
abbreviation ReferencesFieldName :: string where "ReferencesFieldName \<equiv> ''References''"
abbreviation DateFieldName :: string where "DateFieldName \<equiv> ''Date''"
abbreviation OrigDateFieldName :: string where "OrigDateFieldName \<equiv> ''Orig-Date''"
abbreviation ResentDateFieldName :: string where "ResentDateFieldName \<equiv> ''Resent-Date''"
abbreviation SubjectFieldName :: string where "SubjectFieldName \<equiv> ''Subject''"
abbreviation CommentsFieldName :: string where "CommentsFieldName \<equiv> ''Comments''"
abbreviation KeywordsFieldName :: string where "KeywordsFieldName \<equiv> ''Keywords''"
abbreviation ContentTypeFieldName :: string where "ContentTypeFieldName \<equiv> ''Content-Type''"
abbreviation ContentTransferEncodingFieldName :: string where
  "ContentTransferEncodingFieldName \<equiv> ''Content-Transfer-Encoding''"
abbreviation ContentDispositionFieldName :: string where "ContentDispositionFieldName \<equiv> ''Content-Disposition''"
abbreviation ContentDescriptionFieldName :: string where "ContentDescriptionFieldName \<equiv> ''Content-Description''"
abbreviation ContentIDFieldName :: string where "ContentIDFieldName \<equiv> ''Content-ID''"
abbreviation MIMEVersionFieldName :: string where "MIMEVersionFieldName \<equiv> ''MIME-Version''"
abbreviation ReceivedFieldName :: string where "ReceivedFieldName \<equiv> ''Received''"
abbreviation ContentLanguageFieldName :: string where "ContentLanguageFieldName \<equiv> ''Content-Language''"
abbreviation ContentLocationFieldName :: string where "ContentLocationFieldName \<equiv> ''Content-Location''"
abbreviation ContentMd5FieldName :: string where "ContentMd5FieldName \<equiv> ''Content-Md5''"
abbreviation ListIdFieldName :: string where "ListIdFieldName \<equiv> ''List-Id''"
abbreviation ContentBaseFieldName :: string where "ContentBaseFieldName \<equiv> ''Content-Base''"
abbreviation ErrorsToFieldName :: string where "ErrorsToFieldName \<equiv> ''Errors-To''"

definition addressFieldNames :: "string list" where
  "addressFieldNames =
     [FromFieldName, ResentFromFieldName, SenderFieldName, ResentSenderFieldName, ReturnPathFieldName,
      ReplyToFieldName, ToFieldName, CcFieldName, BccFieldName, ResentToFieldName, ResentCcFieldName,
      ResentBccFieldName]"

definition fieldNames :: "string list" where
  "fieldNames =
     addressFieldNames @
     [MessageIDFieldName, ResentMessageIDFieldName, InReplyToFieldName, ReferencesFieldName, DateFieldName,
      OrigDateFieldName, ResentDateFieldName, SubjectFieldName, CommentsFieldName, KeywordsFieldName,
      ContentTypeFieldName, ContentTransferEncodingFieldName, ContentDispositionFieldName,
      ContentDescriptionFieldName, ContentIDFieldName, MIMEVersionFieldName, ReceivedFieldName,
      ContentLanguageFieldName, ContentLocationFieldName, ContentMd5FieldName, ListIdFieldName,
      ContentBaseFieldName, ErrorsToFieldName]"

definition isKnownField :: "string \<Rightarrow> bool" where
  "isKnownField n \<longleftrightarrow> n \<in> set fieldNames"

section \<open>The struct HeaderField\<close>

text \<open>One constructor per error the parsers of the fields record, with the values its text is formatted from.\<close>

datatype field_error =
    ParsingText
  | JunkAt nat string
  | CharsetError
  | NoScheme
  | AddressError addr_error
  | InvalidMailbox string
  | OnlyOneAddress
  | NeedExactlyOne
  | BounceNotLegal
  | ParsingContentID
  | NoBounce
  | ParsingDate
  | InvalidContentType string
  | EmptyType string
  | NeedsBoundary
  | InvalidCTE string
  | InvalidDisposition
  | Unparseable string

record HeaderField =
  hf_name :: string
  hf_value :: string
  hf_unparsedValue :: string
  hf_err :: "field_error option"

definition newHeaderField :: "string \<Rightarrow> HeaderField" where
  "newHeaderField name = \<lparr> hf_name = name, hf_value = [], hf_unparsedValue = [], hf_err = None \<rparr>"

definition hf_Valid :: "'a HeaderField_scheme \<Rightarrow> bool" where
  "hf_Valid f \<longleftrightarrow> hf_err f = None"

text \<open>The two results of \<open>decode\<close>: the text, and whether there was an error.\<close>

definition decodeAs :: "go_env \<Rightarrow> string \<Rightarrow> string \<Rightarrow> string \<times> bool" where
  "decodeAs E s cs = (case decode E s cs of None \<Rightarrow> ([], True) | Some r \<Rightarrow> r)"

abbreviation decodeUsAscii :: "go_env \<Rightarrow> string \<Rightarrow> string \<times> bool" where
  "decodeUsAscii E s \<equiv> decodeAs E s ''us-ascii''"

section \<open>Text fields\<close>

lemma Whitespace_progress: "(w, q) = Whitespace p \<Longrightarrow> w \<noteq> [] \<Longrightarrow> p_at p < p_at q \<and> p_at p < length (p_str p)"
  by (cases "p_at p < length (p_str p)") (auto simp: Whitespace_def span_def Let_def Step_def)

text \<open>The loop that separates the encoded words from the text around them.\<close>

function separateWords :: "go_env \<Rightarrow> parser \<Rightarrow> bool \<Rightarrow> string \<Rightarrow> string" where
  "separateWords E p inWord tmp =
     (if AtEnd p then tmp
      else
        case Present E ''=?'' p of
          (True, q) \<Rightarrow> separateWords E q True (tmp @ '' =?'')
        | (False, _) \<Rightarrow>
            (case Present E ''?='' p of
               (True, q) \<Rightarrow> separateWords E q False (tmp @ ''?= '')
             | (False, _) \<Rightarrow>
                 (case Whitespace p of
                    ([], _) \<Rightarrow> separateWords E (Step 1 p) inWord (tmp @ [NextChar p])
                  | (_ # _, q) \<Rightarrow> separateWords E q inWord (tmp @ (if inWord then ''_'' else '' '')))))"
  by pat_completeness auto
termination
proof (relation "measure (\<lambda>(E, p, _, _). length (p_str p) - p_at p)", goal_cases)
  case (5 E p inWord tmp a r a2 r2 w q c cs)
  with Whitespace_progress [of w q p] Whitespace_moves [of w q p] show ?case by auto
qed (auto simp: AtEnd_def dest: Present_moves)

declare separateWords.simps [simp del]

definition parseText :: "go_env \<Rightarrow> string \<Rightarrow> HeaderField \<Rightarrow> HeaderField go" where
  "parseText E s f =
     go_bind (Text E (newParser s)) (\<lambda>(t, p).
     go_bind (if AtEnd p then Inr (True, trim t)
              else
                go_bind (simplify s) (\<lambda>s.
                go_bind (Text E (newParser s)) (\<lambda>(t, p).
                Inr (if AtEnd p then (True, t) else (False, hf_value f))))) (\<lambda>(h, v).
     go_bind (if (\<not> h \<and> contains s ''=?'' \<and> contains s ''?='') \<or> (contains v ''=?'' \<and> contains v ''?='') then
                go_bind (simplify s) (\<lambda>s.
                go_bind (Text E (newParser (separateWords E (newParser s) False []))) (\<lambda>(t, p2).
                go_bind (simplify t) (\<lambda>t.
                Inr (if AtEnd p2 \<and> \<not> contains t ''?='' then (True, t) else (h, v)))))
              else Inr (h, v)) (\<lambda>(h, v).
     Inr (f\<lparr> hf_value := v, hf_err := (if h then hf_err f else Some ParsingText) \<rparr>))))"

definition parseMIMEVersion :: "go_env \<Rightarrow> string \<Rightarrow> HeaderField \<Rightarrow> HeaderField go" where
  "parseMIMEVersion E s f =
     (let p = snd (Comment E (newParser s))
      in go_bind (DotAtom E p) (\<lambda>(v, p).
         let p = snd (Comment E p)
         in go_bind (simplify (p_lc p)) (\<lambda>lc.
            let (c, err) = decodeUsAscii E lc;
                c = (if err \<or> containsAny c [CHR ''('', CHR '')'', CHR 0x5C] then [] else c);
                c = (if v \<noteq> ''1.0'' \<or> \<not> AtEnd p then ''Note: Original mime-version had syntax problems'' else c)
            in Inr (f\<lparr> hf_value := ''1.0'' @ (if c \<noteq> [] then '' ('' @ c @ '')'' else []) \<rparr>))))"

section \<open>Locations\<close>

text \<open>The next byte of a URL, with the escape \<open>%XX\<close> undone; an escape that is no number reads as NUL.\<close>

definition locationByte :: "parser \<Rightarrow> char \<times> parser" where
  "locationByte p =
     (let c = NextChar p; p = Step 1 p
      in if c = CHR ''%'' then
           (let h0 = NextChar p; p = Step 1 p; h1 = NextChar p; p = Step 1 p
            in (case parseHex2 h0 h1 of None \<Rightarrow> CHR 0x00 | Some c \<Rightarrow> c, p))
         else (c, p))"

text \<open>What is written for a byte; \<open>None\<close> ends the loop.\<close>

definition locationText :: "char \<Rightarrow> string option" where
  "locationText c =
     (if isLower c \<or> isUpper c \<or> isDigit c \<or> c \<in> set ''$-_.+!*(),'' \<or> c = CHR 0x27 then Some [c]
      else if c \<in> set '';/?:@&='' then Some [c]
      else if c = CHR ''%'' \<or> CHR 0x7F \<le> c then Some (CHR ''%'' # formatHex2 c)
      else if c = CHR '' '' then Some ''%20''
      else if c = CR \<or> c = LF then Some []
      else None)"

lemma locationByte_moves: "(c, q) = locationByte p \<Longrightarrow> p_at p < p_at q \<and> p_str q = p_str p"
  by (auto simp: locationByte_def Let_def split: if_splits)

lemma locationByte_end: "(c, q) = locationByte p \<Longrightarrow> locationText c = Some t \<Longrightarrow> p_at p < length (p_str p)"
  by (cases "AtEnd p") (auto simp: locationByte_def NextChar_def AtEnd_def locationText_def char_class split: if_splits)

function location_loop :: "parser \<Rightarrow> nat \<Rightarrow> string \<Rightarrow> string \<times> nat \<times> parser" where
  "location_loop p e buf =
     (case locationByte p of
        (c, p1) \<Rightarrow>
          (case locationText c of
             None \<Rightarrow> (buf, e, p1)
           | Some t \<Rightarrow>
               (let p2 = (if c = CR \<or> c = LF then snd (Whitespace p1) else p1)
                in location_loop p2 (p_at p2) (buf @ t))))"
  by pat_completeness auto
termination
proof (relation "measure (\<lambda>(p, _, _). length (p_str p) - p_at p)", goal_cases)
  case (2 p e buf c p1 t p2)
  have m: "(c, p1) = locationByte p" using 2(1) by simp
  have "p_at p1 \<le> p_at p2 \<and> p_str p2 = p_str p1"
    using 2(3) Whitespace_moves [of "fst (Whitespace p1)" "snd (Whitespace p1)" p1] by (auto split: if_splits)
  with locationByte_moves [OF m] locationByte_end [OF m 2(2)] show ?case by auto
qed simp

declare location_loop.simps [simp del]

definition parseContentLocation :: "go_env \<Rightarrow> string \<Rightarrow> HeaderField \<Rightarrow> HeaderField go" where
  "parseContentLocation E s f =
     (let p = snd (Whitespace (newParser (unquote (trim s) (CHR 0x22) (CHR 0x27))));
          (buf, e, p) = location_loop p (p_at p) [];
          p = snd (Whitespace p);
          (v, err) = decodeUsAscii E buf;
          f = f\<lparr> hf_value := v \<rparr>
      in if \<not> AtEnd p then go_bind (substr s e (length s)) (\<lambda>t. Inr (f\<lparr> hf_err := Some (JunkAt e t) \<rparr>))
         else if err then Inr (f\<lparr> hf_err := Some CharsetError \<rparr>)
         else Inr f)"

definition parseOther :: "go_env \<Rightarrow> string \<Rightarrow> HeaderField \<Rightarrow> HeaderField go" where
  "parseOther E s f =
     (let (v, err) = decodeUsAscii E s
      in Inr (f\<lparr> hf_err := (if err then Some CharsetError else hf_err f), hf_value := v \<rparr>))"

definition parseContentBase :: "go_env \<Rightarrow> string \<Rightarrow> HeaderField \<Rightarrow> HeaderField go" where
  "parseContentBase E s f =
     go_bind (parseContentLocation E s f) (\<lambda>f.
     Inr (if \<not> hf_Valid f then f
          else if \<not> contains (hf_value f) '':'' then f\<lparr> hf_err := Some NoScheme \<rparr>
          else f))"

definition parseErrorsTo :: "go_env \<Rightarrow> string \<Rightarrow> HeaderField \<Rightarrow> HeaderField go" where
  "parseErrorsTo E s f =
     go_bind (NewAddressParser E s) (\<lambda>p.
     case ap_Addresses p of
       [a] \<Rightarrow>
         if ap_firstError p \<noteq> None \<or> a_t a \<noteq> NormalAddressType then Inr f
         else go_bind (lpdomain a) (\<lambda>t.
              let (v, err) = decodeUsAscii E t
              in Inr (f\<lparr> hf_value := v, hf_err := (if err then Some CharsetError else None) \<rparr>))
     | _ \<Rightarrow> Inr f)"

section \<open>Parsing and printing\<close>

text \<open>The names whose fields have a parser of their own.\<close>

definition specialFieldNames :: "string list" where
  "specialFieldNames =
     addressFieldNames @
     [MessageIDFieldName, ContentIDFieldName, ResentMessageIDFieldName, ReferencesFieldName, DateFieldName,
      OrigDateFieldName, ResentDateFieldName, ContentTypeFieldName, ContentTransferEncodingFieldName,
      ContentDispositionFieldName, ContentLanguageFieldName]"

definition HeaderField_Parse :: "go_env \<Rightarrow> string \<Rightarrow> HeaderField \<Rightarrow> HeaderField go" where
  "HeaderField_Parse E s f =
     (let n = hf_name f
      in if n \<in> set specialFieldNames then Inr f
         else if n \<in> {ContentDescriptionFieldName, SubjectFieldName, CommentsFieldName} then parseText E s f
         else if n = MIMEVersionFieldName then parseMIMEVersion E s f
         else if n = ContentLocationFieldName then parseContentLocation E s f
         else if n \<in> {InReplyToFieldName, KeywordsFieldName, ReceivedFieldName, ContentMd5FieldName} then
           parseOther E s f
         else if n = ContentBaseFieldName then parseContentBase E s f
         else if n = ErrorsToFieldName then parseErrorsTo E s f
         else parseOther E s f)"

definition HeaderField_rfc822 :: "'a HeaderField_scheme \<Rightarrow> bool \<Rightarrow> string go" where
  "HeaderField_rfc822 f avoidUTF8 =
     (if hf_name f = SubjectFieldName \<or> hf_name f = CommentsFieldName \<or> hf_name f = ContentDescriptionFieldName
      then wrap (if avoidUTF8 then encodeText (hf_value f) else hf_value f) 78 [] '' '' False
      else Inr (hf_value f))"

section \<open>Dates\<close>

record DateField = HeaderField +
  df_Date :: "gotime option"

definition NewDateField :: DateField where
  "NewDateField = HeaderField.extend (newHeaderField DateFieldName) \<lparr> df_Date = None \<rparr>"

definition dateLayouts :: "string list" where
  "dateLayouts =
     concat (map (\<lambda>dow. concat (map (\<lambda>day. concat (map (\<lambda>year. concat (map (\<lambda>second.
       map (\<lambda>zone. dow @ day @ '' Jan '' @ year @ '' 15:04'' @ second @ '' '' @ zone)
         [''-0700'', ''MST'', ''-0700 (MST)'']) ['':05'', []])) [''2006'', ''06''])) [''2'', ''02'']))
       [[], ''Mon, ''])"

fun tryLayouts :: "go_env \<Rightarrow> string list \<Rightarrow> string \<Rightarrow> gotime option" where
  "tryLayouts E [] s = None"
| "tryLayouts E (layout # layouts) s =
     (case time_Parse (local_time E) layout s of Some t \<Rightarrow> Some t | None \<Rightarrow> tryLayouts E layouts s)"

definition parseDate :: "go_env \<Rightarrow> string \<Rightarrow> gotime option go" where
  "parseDate E s =
     go_bind (simplify (stripcomments s)) (\<lambda>s. Inr (tryLayouts E dateLayouts s))"

abbreviation dateFormat :: string where "dateFormat \<equiv> ''Mon, 02 Jan 2006 15:04:05 -0700''"

definition DateField_Parse :: "go_env \<Rightarrow> string \<Rightarrow> DateField \<Rightarrow> DateField go" where
  "DateField_Parse E s f =
     go_bind (parseDate E s) (\<lambda>t.
     Inr (case t of
            Some t \<Rightarrow> f\<lparr> hf_value := time_Format dateFormat t, df_Date := Some t \<rparr>
          | None \<Rightarrow> f\<lparr> hf_err := Some ParsingDate \<rparr>))"

end
