(* ===== verification/AddressFields.thy ===== *)
theory AddressFields
  imports HeaderFields
begin

text \<open>
  Address fields (\<^verbatim>\<open>fields.go\<close>): the struct \<open>AddressField\<close>, its parsers, \<open>references\<close>, and how it is printed.

  A nil list of addresses is the empty list. The sources compare with nil only where the list of a From or
  Sender field is nil exactly when it is empty.
\<close>

section \<open>The struct\<close>

record AddressField = HeaderField +
  af_Addresses :: "Address list"

definition NewAddressField :: "string \<Rightarrow> AddressField" where
  "NewAddressField name = HeaderField.extend (newHeaderField name) \<lparr> af_Addresses = [] \<rparr>"

section \<open>Printing\<close>

text \<open>The value of a field without addresses, wrapped as it is after the field's name.\<close>

definition wrappedValue :: "AddressField \<Rightarrow> string go" where
  "wrappedValue f =
     go_bind (simplify (hf_name f @ '': '' @ ascii (hf_value f))) (\<lambda>s.
     go_bind (wrap s 78 [] '' '' False) (\<lambda>s.
     let p = scanWhile (\<lambda>c. c = CHR '' '' \<or> c = CR \<or> c = LF) s (length (hf_name f) + 1)
     in substr s p (length s)))"

text \<open>The loop over the addresses: \<open>c\<close> is the length of the current line, \<open>more\<close> whether addresses follow.\<close>

fun listAddresses ::
    "bool \<Rightarrow> string \<Rightarrow> string \<Rightarrow> int \<Rightarrow> bool \<Rightarrow> bool \<Rightarrow> int \<Rightarrow> string \<Rightarrow> Address list \<Rightarrow> string go" where
  "listAddresses angle wsep lsep lpos avoidUTF8 first c s [] = Inr s"
| "listAddresses angle wsep lsep lpos avoidUTF8 first c s (addr # addrs) =
     go_bind (Address_toString addr avoidUTF8) (\<lambda>a.
     let a = (if angle then ''<'' @ a @ ''>'' else a);
         n = c + int (length wsep) + int (length a);
         (s, c) =
           (if first then (s, c)
            else if n > 78 \<or> (n = 78 \<and> addrs \<noteq> []) then (s @ lsep, lpos)
            else (s @ wsep, c + int (length wsep)))
     in listAddresses angle wsep lsep lpos avoidUTF8 False (c + int (length a)) (s @ a) addrs)"

definition AddressField_rfc822 :: "AddressField \<Rightarrow> bool \<Rightarrow> string go" where
  "AddressField_rfc822 f avoidUTF8 =
     (let name = hf_name f; as = af_Addresses f
      in if name = ReturnPathFieldName then
           (case as of
              [] \<Rightarrow> Inr []
            | a # _ \<Rightarrow>
                if a_t a = BounceAddressType then Inr ''<>''
                else if a_t a = NormalAddressType then go_bind (lpdomain a) (\<lambda>t. Inr (''<'' @ t @ ''>''))
                else Inr [])
         else if name = MessageIDFieldName \<or> name = ResentMessageIDFieldName \<or> name = ContentIDFieldName \<or>
                 name = ReferencesFieldName \<and> as = [] then
           (case as of
              [] \<Rightarrow> wrappedValue f
            | a # _ \<Rightarrow> go_bind (Address_toString a False) (\<lambda>t. Inr (''<'' @ t @ ''>'')))
         else if name = ReferencesFieldName then
           listAddresses True '' '' (crlf @ '' '') 1 avoidUTF8 True (int (length name) + 2) [] as
         else if name \<in> set addressFieldNames then
           listAddresses False '', '' ('','' @ crlf @ ''    '') 4 avoidUTF8 True (int (length name) + 2) [] as
         else Inr [])"

definition AddressField_Value :: "go_env \<Rightarrow> AddressField \<Rightarrow> string go" where
  "AddressField_Value E f =
     (if af_Addresses f = [] then Inr (hf_value f)
      else go_bind (AddressField_rfc822 f True) (\<lambda>s.
           go_bind (simplify s) (\<lambda>s. Inr (fst (decodeUsAscii E s)))))"

section \<open>Message identifiers\<close>

text \<open>One message identifier that ends at \<open>i\<close>: whether it is one, its parts, and the position before it.\<close>

definition refMsgID :: "go_env \<Rightarrow> int \<Rightarrow> (bool \<times> string \<times> string \<times> int) apm" where
  "refMsgID E i =
     ap_if (charAt i (CHR ''>''))
       (ap_bind (domain E (i - 1)) (\<lambda>(dm, i).
        ap_bind (ap_if (both (i \<ge> 0) (charAt i (CHR ''@''))) (ap_ret (True, i - 1)) (ap_ret (False, i))) (\<lambda>(ok, i).
        ap_bind (localpart E i) (\<lambda>(lp, i).
        ap_bind (ap_if (both (i \<ge> 0) (charAt i (CHR ''<''))) (ap_ret (ok, i - 1)) (ap_ret (False, i))) (\<lambda>(ok, i).
        ap_bind (comment E i) (\<lambda>i.
        ap_bind (ap_if (both (i \<ge> 0) (charAt i (CHR '',''))) (comment E (i - 1)) (ap_ret i)) (\<lambda>i.
        ap_ret (ok, dm, lp, i))))))))
       (ap_ret (False, [], [], i))"

primrec references_loop :: "nat \<Rightarrow> go_env \<Rightarrow> int \<Rightarrow> unit apm" where
  "references_loop 0 E i p = Inl OutOfFuel"
| "references_loop (Suc n) E i p =
     (if i > 0 then
        ap_bind (refMsgID E i) (\<lambda>(ok, dm, lp, k).
        if ok \<and> dm \<noteq> [] \<and> lp \<noteq> [] then ap_bind (add E [] lp dm) (\<lambda>_. references_loop n E k)
        else
          ap_bind (ap_read (\<lambda>s. scanBack 0 (\<lambda>c. c \<noteq> CHR '' '') s (i - 1))) (\<lambda>k.
          ap_bind (comment E k) (references_loop n E)))
      else ap_ret ()) p"

definition references :: "go_env \<Rightarrow> string \<Rightarrow> ap go" where
  "references E r =
     go_bind (NewAddressParser E []) (\<lambda>p.
     go_bind (ap_bind (comment E (int (length r) - 1)) (references_loop (length r + 1) E) (p\<lparr> ap_s := r \<rparr>)) (\<lambda>(_, p).
     Inr (p\<lparr> ap_firstError := None \<rparr>)))"

section \<open>Parsing\<close>

definition parseAddressList :: "go_env \<Rightarrow> string \<Rightarrow> AddressField \<Rightarrow> AddressField go" where
  "parseAddressList E s f =
     go_bind (NewAddressParser E s) (\<lambda>p.
     Inr (f\<lparr> hf_err := map_option AddressError (ap_firstError p), af_Addresses := ap_Addresses p \<rparr>))"

text \<open>The first address that is a group, if there is one, is an error.\<close>

fun outlawGroups :: "Address list \<Rightarrow> field_error option go" where
  "outlawGroups [] = Inr None"
| "outlawGroups (a # as) =
     (if a_t a = EmptyGroupAddressType then go_bind (Address_toString a False) (\<lambda>t. Inr (Some (InvalidMailbox t)))
      else outlawGroups as)"

definition parseMailboxList :: "go_env \<Rightarrow> string \<Rightarrow> AddressField \<Rightarrow> AddressField go" where
  "parseMailboxList E s f =
     go_bind (parseAddressList E s f) (\<lambda>f.
     if hf_Valid f then go_bind (outlawGroups (af_Addresses f)) (\<lambda>e. Inr (f\<lparr> hf_err := e \<rparr>)) else Inr f)"

definition parseMailbox :: "go_env \<Rightarrow> string \<Rightarrow> AddressField \<Rightarrow> AddressField go" where
  "parseMailbox E s f =
     go_bind (parseAddressList E s f) (\<lambda>f.
     Inr (if hf_Valid f \<and> length (af_Addresses f) > 1 then f\<lparr> hf_err := Some OnlyOneAddress \<rparr> else f))"

definition parseReferences :: "go_env \<Rightarrow> string \<Rightarrow> AddressField \<Rightarrow> AddressField go" where
  "parseReferences E s f =
     go_bind (references E s) (\<lambda>p.
     Inr (f\<lparr> af_Addresses := ap_Addresses p, hf_err := map_option AddressError (ap_firstError p) \<rparr>))"

definition parseMessageID :: "go_env \<Rightarrow> string \<Rightarrow> AddressField \<Rightarrow> AddressField go" where
  "parseMessageID E s f =
     go_bind (references E s) (\<lambda>p.
     Inr (case ap_firstError p of
            Some e \<Rightarrow> f\<lparr> hf_err := Some (AddressError e) \<rparr>
          | None \<Rightarrow>
              if length (ap_Addresses p) = 1 then f\<lparr> af_Addresses := ap_Addresses p \<rparr>
              else f\<lparr> hf_err := Some NeedExactlyOne \<rparr>))"

definition parseContentID :: "go_env \<Rightarrow> string \<Rightarrow> AddressField \<Rightarrow> AddressField go" where
  "parseContentID E s f =
     go_bind (NewAddressParser E s) (\<lambda>p.
     let f = f\<lparr> hf_err := map_option AddressError (ap_firstError p) \<rparr>
     in Inr (case ap_Addresses p of
               [a] \<Rightarrow>
                 (case a_t a of
                    NormalAddressType \<Rightarrow> f\<lparr> af_Addresses := [a] \<rparr>
                  | BounceAddressType \<Rightarrow> f\<lparr> hf_err := Some BounceNotLegal \<rparr>
                  | EmptyGroupAddressType \<Rightarrow> f\<lparr> hf_err := Some ParsingContentID \<rparr>
                  | LocalAddressType \<Rightarrow> f\<lparr> af_Addresses := [a] \<rparr>
                  | InvalidAddressType \<Rightarrow> f\<lparr> hf_err := Some ParsingContentID \<rparr>)
             | _ \<Rightarrow> f\<lparr> hf_err := Some NeedExactlyOne \<rparr>))"

definition outlawBounce :: "AddressField \<Rightarrow> AddressField" where
  "outlawBounce f =
     (if list_ex (\<lambda>a. a_t a = BounceAddressType) (af_Addresses f) then f\<lparr> hf_err := Some NoBounce \<rparr> else f)"

text \<open>The repairs of an address list: control characters in Cc, a single character, and \<open><>\<close> beside other addresses.\<close>

definition repairCc :: "string \<Rightarrow> AddressField \<Rightarrow> AddressField" where
  "repairCc s f =
     (if hf_name f = CcFieldName \<and> \<not> hf_Valid f \<and> length (af_Addresses f) \<le> 1 \<and>
         list_ex (\<lambda>c. \<not> (c \<ge> CHR '' '' \<and> c \<noteq> CHR 0x7F)) s
      then f\<lparr> hf_err := None, af_Addresses := [] \<rparr> else f)"

definition repairSingle :: "string \<Rightarrow> AddressField \<Rightarrow> AddressField go" where
  "repairSingle s f =
     (if hf_Valid f then Inr f
      else go_bind (simplify s) (\<lambda>t.
           Inr (if length t = 1 then f\<lparr> hf_err := None, af_Addresses := [] \<rparr> else f)))"

definition repairBounces :: "string \<Rightarrow> AddressField \<Rightarrow> AddressField" where
  "repairBounces s f =
     (if hf_Valid f \<and> contains s ''<>'' then
        (let as = af_Addresses f;
             bounces = length (filter (\<lambda>a. a_t a = BounceAddressType) as);
             otherProblems = length (filter (\<lambda>a. a_t a \<noteq> BounceAddressType \<and> a_err a \<noteq> None) as);
             f = (if bounces > 0 \<and> otherProblems = 0
                  then f\<lparr> af_Addresses := filter (\<lambda>a. a_t a \<noteq> BounceAddressType) as \<rparr> else f);
             f = (if \<not> hf_Valid f \<and> af_Addresses f = [] \<and> \<not> contains s ''@'' then f\<lparr> hf_err := None \<rparr> else f)
         in if \<not> hf_Valid f \<and> length (af_Addresses f) \<le> 1 \<and> (hasPrefix s ''@'' \<or> contains s ''<@'')
            then f\<lparr> af_Addresses := [], hf_err := None \<rparr> else f)
      else f)"

definition AddressField_Parse :: "go_env \<Rightarrow> string \<Rightarrow> AddressField \<Rightarrow> AddressField go" where
  "AddressField_Parse E s f =
     (let name = hf_name f
      in go_bind
          (if name = SenderFieldName then
             go_bind (parseMailbox E s f) (\<lambda>f.
             Inr (if \<not> hf_Valid f \<and> af_Addresses f = [] then f\<lparr> hf_err := None \<rparr> else f))
           else if name = ReturnPathFieldName then
             go_bind (parseMailbox E s f) (\<lambda>f.
             Inr (case af_Addresses f of
                    [a] \<Rightarrow> if hf_Valid f \<and> (a_t a = BounceAddressType \<or> a_t a = NormalAddressType) then f
                           else f\<lparr> hf_err := None, af_Addresses := [] \<rparr>
                  | _ \<Rightarrow> f\<lparr> hf_err := None, af_Addresses := [] \<rparr>))
           else if name = ResentSenderFieldName then parseMailbox E s f
           else if name = FromFieldName \<or> name = ResentFromFieldName then parseMailboxList E s f
           else if name \<in> {ToFieldName, CcFieldName, BccFieldName, ReplyToFieldName, ResentToFieldName,
                           ResentCcFieldName, ResentBccFieldName} then
             go_bind (parseAddressList E s f) (\<lambda>f.
             go_bind (repairSingle s (repairCc s f)) (\<lambda>f.
             Inr (repairBounces s f)))
           else if name = ContentIDFieldName then parseContentID E s f
           else if name = MessageIDFieldName \<or> name = ResentMessageIDFieldName then parseMessageID E s f
           else if name = ReferencesFieldName then parseReferences E s f
           else Inr f) (\<lambda>f.
         Inr (if hf_name f \<noteq> ReturnPathFieldName then outlawBounce f else f)))"

end
