(* ===== verification/MimeFields.thy ===== *)
theory MimeFields
  imports HeaderFields
begin

text \<open>
  MIME fields (\<^verbatim>\<open>fields.go\<close>): the struct \<open>MIMEField\<close> with its parameters, and the fields that embed it:
  Content-Type, Content-Transfer-Encoding, Content-Disposition and Content-Language.
\<close>

section \<open>Parameters\<close>

record MIMEParameter =
  mp_Name :: string
  mp_Value :: string
  mp_Parts :: "string list"

definition NewMIMEParameter :: "string \<Rightarrow> string \<Rightarrow> MIMEParameter" where
  "NewMIMEParameter name value = \<lparr> mp_Name = name, mp_Value = value, mp_Parts = [] \<rparr>"

record MIMEField = HeaderField +
  mf_baseValue :: string
  mf_Parameters :: "MIMEParameter list"

definition newMIMEField :: "string \<Rightarrow> MIMEField" where
  "newMIMEField name = HeaderField.extend (newHeaderField name) \<lparr> mf_baseValue = [], mf_Parameters = [] \<rparr>"

text \<open>Looking up, setting and removing a parameter, on the list of parameters.\<close>

fun getParam :: "string \<Rightarrow> MIMEParameter list \<Rightarrow> string" where
  "getParam s [] = []"
| "getParam s (p # ps) = (if mp_Name p = s then mp_Value p else getParam s ps)"

definition hasParam :: "string \<Rightarrow> MIMEParameter list \<Rightarrow> bool" where
  "hasParam s ps \<longleftrightarrow> list_ex (\<lambda>p. mp_Name p = s) ps"

definition setParam :: "go_env \<Rightarrow> string \<Rightarrow> string \<Rightarrow> MIMEParameter list \<Rightarrow> MIMEParameter list" where
  "setParam E n v ps =
     (let s = toLower E n
      in if hasParam s ps then map (\<lambda>p. if mp_Name p = s then p\<lparr> mp_Value := v \<rparr> else p) ps
         else ps @ [\<lparr> mp_Name = n, mp_Value = v, mp_Parts = [] \<rparr>])"

fun delParam :: "string \<Rightarrow> MIMEParameter list \<Rightarrow> MIMEParameter list" where
  "delParam s [] = []"
| "delParam s (p # ps) = (if mp_Name p = s then ps else p # delParam s ps)"

definition parameter :: "go_env \<Rightarrow> string \<Rightarrow> 'a MIMEField_scheme \<Rightarrow> string" where
  "parameter E n f = getParam (toLower E n) (mf_Parameters f)"

definition addParameter :: "go_env \<Rightarrow> string \<Rightarrow> string \<Rightarrow> 'a MIMEField_scheme \<Rightarrow> 'a MIMEField_scheme" where
  "addParameter E n v f = f\<lparr> mf_Parameters := setParam E n v (mf_Parameters f) \<rparr>"

definition removeParameter :: "go_env \<Rightarrow> string \<Rightarrow> 'a MIMEField_scheme \<Rightarrow> 'a MIMEField_scheme" where
  "removeParameter E n f = f\<lparr> mf_Parameters := delParam (toLower E n) (mf_Parameters f) \<rparr>"

section \<open>Parsing parameters\<close>

text \<open>A production that returns something has read something.\<close>

lemma span_progress:
  assumes "span P p = (w, q)" and "w \<noteq> []"
  shows "p_at p < p_at q \<and> p_at p < length (p_str p) \<and> p_str q = p_str p"
proof -
  from assms have w: "w = takeWhile P (drop (p_at p) (p_str p))" and q: "q = Step (length w) p"
    by (auto simp: span_def Let_def)
  from assms(2) w have "p_at p < length (p_str p)" by (cases "p_at p < length (p_str p)") auto
  moreover have "0 < length w" using assms(2) by simp
  ultimately show ?thesis using q by (simp del: length_greater_0_conv)
qed

lemma commented_span_progress:
  assumes "(let (_, p) = Comment E p in span P p) = (w, q)" and "w \<noteq> []"
  shows "p_at p < p_at q \<and> p_at p < length (p_str p) \<and> p_str q = p_str p"
proof -
  obtain c p1 where p1: "Comment E p = (c, p1)" by fastforce
  with assms(1) have "span P p1 = (w, q)" by simp
  from span_progress [OF this assms(2)] advancesD [OF advances_Comment [of p E]] p1 show ?thesis by auto
qed

lemma MIMEToken_progress:
  "MIMEToken E p = (w, q) \<Longrightarrow> w \<noteq> [] \<Longrightarrow> p_at p < p_at q \<and> p_at p < length (p_str p) \<and> p_str q = p_str p"
  unfolding MIMEToken_def by (rule commented_span_progress)

lemma Atom_progress:
  "Atom E p = (w, q) \<Longrightarrow> w \<noteq> [] \<Longrightarrow> p_at p < p_at q \<and> p_at p < length (p_str p) \<and> p_str q = p_str p"
  unfolding Atom_def by (rule commented_span_progress)

lemma readsD: "reads p q \<Longrightarrow> p_at p \<le> p_at q \<and> p_str q = p_str p"
  by (simp add: reads_def)

lemma DotAtom_progress:
  assumes "DotAtom E p = Inr (a, q)" and "a \<noteq> []"
  shows "p_at p < p_at q \<and> p_at p < length (p_str p) \<and> p_str q = p_str p"
proof -
  obtain w p1 where p1: "Atom E p = (w, p1)" by fastforce
  with assms have "w \<noteq> []" and l: "dotAtom_loop E p1 w = Inr (a, q)"
    by (auto simp: DotAtom_def split: if_splits)
  with Atom_progress [OF p1] readsD [OF extends_reads [OF extends_dotAtom_loop [OF l]]] show ?thesis by auto
qed

lemma MIMEValue_progress:
  assumes "MIMEValue E p = Inr (a, q)" and "a \<noteq> []"
  shows "p_at p < p_at q \<and> p_at p < length (p_str p) \<and> p_str q = p_str p"
proof -
  obtain c p1 where p1: "Comment E p = (c, p1)" by fastforce
  have le: "p_at p \<le> p_at p1 \<and> p_str p1 = p_str p"
    using advancesD [OF advances_Comment [of p E]] p1 by simp
  show ?thesis
  proof (cases "NextChar p1 = CHR 0x22")
    case True
    obtain c2 p2 where p2: "Comment E p1 = (c2, p2)" by fastforce
    have le2: "p_at p1 \<le> p_at p2 \<and> p_str p2 = p_str p1"
      using advancesD [OF advances_Comment [of p1 E]] p2 by simp
    from True have lt: "p_at p1 < length (p_str p1)" by (auto simp: NextChar_def split: if_splits)
    from assms(1) p1 p2 True consider "Atom E p2 = (a, q)" | "quoted_loop (Step 1 p2) [] = Inr (a, q)"
      by (auto simp: MIMEValue_def String_def split: if_splits)
    then have "p_at p2 < p_at q \<and> p_str q = p_str p2"
    proof cases
      case 1
      with Atom_progress [OF 1 assms(2)] show ?thesis by simp
    next
      case 2
      with advancesD [OF advances_quoted_loop [OF 2]] show ?thesis by auto
    qed
    with le le2 lt show ?thesis by auto
  next
    case False
    with assms p1 have "MIMEToken E p1 = (a, q)" by (auto simp: MIMEValue_def)
    with MIMEToken_progress [OF this assms(2)] le show ?thesis by auto
  qed
qed

text \<open>The loop that reads on behind an unquoted value.\<close>

function paramValue_loop :: "go_env \<Rightarrow> parser \<Rightarrow> (bool \<times> parser) go" where
  "paramValue_loop E p =
     (if \<not> AtEnd p \<and> NextChar p \<noteq> CHR '';'' \<and> NextChar p \<noteq> CHR 0x22 then
        go_bind (DotAtom E p) (\<lambda>(a, p1).
        if a \<noteq> [] then paramValue_loop E p1
        else go_bind (MIMEValue E p1) (\<lambda>(m, p2).
             if m = [] then Inr (False, p2) else paramValue_loop E p2))
      else Inr (True, p))"
  by pat_completeness auto
termination
proof (relation "measure (\<lambda>(E, p). length (p_str p) - p_at p)", goal_cases)
  case (2 E p x a p1)
  with DotAtom_progress [of E p a p1] show ?case by auto
next
  case (3 E p x a p1 y m p2)
  then have d: "DotAtom E p = Inr (a, p1)" and m: "MIMEValue E p1 = Inr (m, p2)" "m \<noteq> []" by auto
  have "p_at p \<le> p_at p1 \<and> p_str p1 = p_str p" using d by (blast dest: extends_DotAtom extends_reads readsD)
  with MIMEValue_progress [OF m] show ?case by auto
qed simp

declare paramValue_loop.simps [simp del]

definition paramValue :: "go_env \<Rightarrow> parser \<Rightarrow> (string \<times> parser) go" where
  "paramValue E p =
     (if NextChar p = CHR 0x22 then MIMEValue E p
      else
        go_bind (MIMEValue E p) (\<lambda>(v, q).
        go_bind (paramValue_loop E q) (\<lambda>(ok, q).
        if ok then go_bind (substr (p_str q) (p_at p) (p_at q)) (\<lambda>v. Inr (v, q)) else Inr (v, q))))"

text \<open>The name of a parameter and the number of the part, as in \<open>filename*1\<close>.\<close>

definition paramPart :: "string \<Rightarrow> string \<times> int option" where
  "paramPart n =
     (case indexOf n ''*'' of
        None \<Rightarrow> (n, None)
      | Some star \<Rightarrow> (case atoi (drop (star + 1) n) of None \<Rightarrow> (n, None) | Some k \<Rightarrow> (take star n, Some k)))"

fun modifyParam :: "string \<Rightarrow> (MIMEParameter \<Rightarrow> MIMEParameter go) \<Rightarrow> MIMEParameter list \<Rightarrow> MIMEParameter list go" where
  "modifyParam n g [] = go_bind (g (NewMIMEParameter n [])) (\<lambda>p. Inr [p])"
| "modifyParam n g (p # ps) =
     (if mp_Name p = n then go_bind (g p) (\<lambda>q. Inr (q # ps))
      else go_bind (modifyParam n g ps) (\<lambda>qs. Inr (p # qs)))"

text \<open>Empty parts up to the number of a part; \<open>make\<close> panics if there are too many.\<close>

definition extendParts :: "go_env \<Rightarrow> int \<Rightarrow> string list \<Rightarrow> string list go" where
  "extendParts E partNumber parts =
     (let gap = int64 (partNumber - int (length parts))
      in if gap > int (max_strings E) then Inl SliceOutOfRange else Inr (parts @ replicate (nat gap) []))"

definition storeParam :: "go_env \<Rightarrow> string \<Rightarrow> int option \<Rightarrow> string \<Rightarrow> MIMEParameter list \<Rightarrow> MIMEParameter list go" where
  "storeParam E n part v ps =
     modifyParam n (\<lambda>p.
       case part of
         Some k \<Rightarrow> go_bind (extendParts E k (mp_Parts p)) (\<lambda>parts. Inr (p\<lparr> mp_Parts := parts @ [v] \<rparr>))
       | None \<Rightarrow> Inr (p\<lparr> mp_Value := v \<rparr>)) ps"

text \<open>
  One round of the loop: \<open>None\<close> if it returns, otherwise the state after it. The loop at the end of the method
  changes copies of the parameters, so it has no effect.
\<close>

definition isParamSep :: "char \<Rightarrow> bool" where
  "isParamSep c \<longleftrightarrow> c = CHR '';'' \<or> c = CHR '' '' \<or> c = CHR 0x09 \<or> c = CR \<or> c = LF \<or> c = CHR 0x22"

definition paramAssign ::
    "go_env \<Rightarrow> string \<Rightarrow> int option \<Rightarrow> MIMEParameter list \<Rightarrow> parser \<Rightarrow> (bool \<times> MIMEParameter list \<times> parser) go" where
  "paramAssign E n part ps p =
     (let known = (NextChar p = CHR '':'' \<and> isKnownField n)
      in if \<not> known \<and> NextChar p \<noteq> CHR ''='' then Inr (False, ps, p)
         else
           let n = (if known then [] else n);
               p = (if known then Step (length (p_str p)) p else p);
               p = snd (Whitespace (Step 1 p))
           in go_bind (paramValue E p) (\<lambda>(v, p).
              let p = snd (Comment E p)
              in go_bind (if n \<noteq> [] then storeParam E n part v ps else Inr ps) (\<lambda>ps. Inr (True, ps, p))))"

definition paramStep ::
    "go_env \<Rightarrow> string \<Rightarrow> MIMEParameter list \<Rightarrow> parser \<Rightarrow> (bool \<times> MIMEParameter list \<times> parser) go" where
  "paramStep E name ps p =
     (let (n, p) = MIMEToken E p;
          n = toLower E n;
          p = snd (Comment E p)
      in if n = [] then Inr (False, ps, p)
         else
           let (n, part) = paramPart n
           in if name = ContentTypeFieldName \<and> AtEnd p \<and> cs_info E n \<noteq> None \<and> \<not> hasParam ''charset'' ps
              then Inr (False, ps @ [NewMIMEParameter ''charset'' n], p)
              else paramAssign E n part ps p)"

text \<open>The fuel is the length of the input: each round reads the name of a parameter.\<close>

primrec params_loop ::
    "nat \<Rightarrow> go_env \<Rightarrow> string \<Rightarrow> bool \<Rightarrow> MIMEParameter list \<Rightarrow> parser \<Rightarrow> (MIMEParameter list \<times> parser) go" where
  "params_loop 0 E name first ps p = Inl OutOfFuel"
| "params_loop (Suc k) E name first ps p =
     (let q = snd (span isParamSep p)
      in if \<not> (p_at p < p_at q \<or> first) \<or> AtEnd q then Inr (ps, q)
         else go_bind (paramStep E name ps q) (\<lambda>(more, ps, p).
              if more then params_loop k E name False ps p else Inr (ps, p)))"

definition parseParameters :: "go_env \<Rightarrow> parser \<Rightarrow> 'a MIMEField_scheme \<Rightarrow> ('a MIMEField_scheme \<times> parser) go" where
  "parseParameters E p f =
     (if hf_Valid f then
        go_bind (params_loop (length (p_str p) + 1) E (hf_name f) True (mf_Parameters f) p) (\<lambda>(ps, p).
        Inr (f\<lparr> mf_Parameters := ps \<rparr>, p))
      else Inr (f, p))"

section \<open>Printing\<close>

definition paramWord :: "MIMEParameter \<Rightarrow> string" where
  "paramWord p =
     mp_Name p @ ''='' @
     (if isBoring (mp_Value p) MIMEBoring then mp_Value p else quote (mp_Value p) (CHR 0x22) (CHR 0x27))"

text \<open>The loop that fills the lines: the first word that still fits, otherwise a new line with the first word.\<close>

function placeWords :: "nat \<Rightarrow> string \<Rightarrow> string list \<Rightarrow> string" where
  "placeWords lineLength s words =
     (if words = [] then s
      else
        let i = length (takeWhile (\<lambda>w. lineLength + 2 + length w > 78) words)
        in if i < length words
           then placeWords (lineLength + 2 + length (words ! i)) (s @ ''; '' @ words ! i)
                  (take i words @ drop (i + 1) words)
           else placeWords (1 + length (hd words)) (s @ '';'' @ crlf @ '' '' @ hd words) (tl words))"
  by pat_completeness auto
termination by (relation "measure (\<lambda>(_, _, words). length words)") (auto simp: length_greater_0_conv [symmetric] simp del: length_greater_0_conv)

declare placeWords.simps [simp del]

definition MIMEField_rfc822 :: "'a MIMEField_scheme \<Rightarrow> bool \<Rightarrow> string" where
  "MIMEField_rfc822 f avoidUTF8 =
     placeWords (length (hf_name f) + 2 + length (mf_baseValue f)) (mf_baseValue f) (map paramWord (mf_Parameters f))"

definition MIMEField_Value :: "'a MIMEField_scheme \<Rightarrow> string" where
  "MIMEField_Value f = MIMEField_rfc822 f False"

end
