(* ===== verification/MimeKinds.thy ===== *)
theory MimeKinds
  imports MimeFields
begin

text \<open>
  The four kinds of MIME field (\<^verbatim>\<open>fields.go\<close>): \<open>ContentType\<close>, \<open>ContentTransferEncoding\<close>,
  \<open>ContentDisposition\<close> and \<open>ContentLanguage\<close>, each with its constructor and its parser.
\<close>

section \<open>Content-Type\<close>

record ContentType = MIMEField +
  ct_Type :: string
  ct_Subtype :: string

definition NewContentType :: ContentType where
  "NewContentType = MIMEField.extend (newMIMEField ContentTypeFieldName) \<lparr> ct_Type = [], ct_Subtype = [] \<rparr>"

definition setType :: "string \<Rightarrow> string \<Rightarrow> ContentType \<Rightarrow> ContentType" where
  "setType t u f = f\<lparr> ct_Type := t, ct_Subtype := u \<rparr>"

text \<open>A type without a subtype: the ones of RFC 1049.\<close>

definition rfc1049 :: "string \<Rightarrow> ContentType \<Rightarrow> ContentType" where
  "rfc1049 s f =
     (if s = ''text'' then setType ''text'' ''plain'' f
      else if s = ''postscript'' then setType ''application'' ''postscript'' f
      else if s = ''sgml'' then setType ''text'' ''sgml'' f
      else if s = ''tex'' then setType ''application'' ''x-tex'' f
      else if s = ''troff'' then setType ''application'' ''x-troff'' f
      else if s = ''dvi'' then setType ''application'' ''x-dvi'' f
      else if hasPrefix s ''x-'' then setType ''application'' (''x-rfc1049-'' @ s) f
      else f\<lparr> hf_err := Some (InvalidContentType s) \<rparr>)"

text \<open>Leading colons and white space.\<close>

function skipColons :: "go_env \<Rightarrow> parser \<Rightarrow> parser" where
  "skipColons E p = (case Present E '':'' p of (True, q) \<Rightarrow> skipColons E (snd (Whitespace q)) | (False, _) \<Rightarrow> p)"
  by pat_completeness auto
termination
proof (relation "measure (\<lambda>(E, p). length (p_str p) - p_at p)", goal_cases)
  case (2 E p b q)
  with Present_moves [of q E "'':''" p] Whitespace_moves [of "fst (Whitespace q)" "snd (Whitespace q)" q]
  show ?case by auto
qed simp

declare skipColons.simps [simp del]

text \<open>
  The type, the subtype and the parameters: the field, the parser after them, and whether the type has to be
  guessed.
\<close>

definition readType :: "go_env \<Rightarrow> string \<Rightarrow> parser \<Rightarrow> ContentType \<Rightarrow> (ContentType \<times> parser \<times> bool) go" where
  "readType E s p f =
     (if AtEnd p then Inr (setType ''text'' ''plain'' f, p, False)
      else
        let (x, p) = mark p;
            slash = (NextChar p = CHR ''/'');
            (t, p) = (if slash then (ct_Type f, p) else (let (t, p) = MIMEToken E p in (toLower E t, p)));
            f = f\<lparr> ct_Type := t \<rparr>
        in if AtEnd p then Inr (rfc1049 s f, p, slash)
           else
             let (f, p, guess) =
               (if NextChar p = CHR ''/'' then
                  (let (u, p) = MIMEToken E (Step 1 p);
                       u = toLower E u
                   in (f\<lparr> ct_Subtype := u \<rparr>, p, slash \<or> u = []))
                else if NextChar p = CHR ''='' then (setType ''text'' ''plain'' f, restore x p, True)
                else
                  (setType ''application'' ''octet-stream''
                     (addParameter E ''original-type'' (ct_Type f @ ''/'' @ ct_Subtype f) f), p, True))
             in go_bind (parseParameters E p f) (\<lambda>(f, p). Inr (f, p, guess)))"

text \<open>The guess, from the name of the file.\<close>

definition guessType :: "go_env \<Rightarrow> ContentType \<Rightarrow> ContentType" where
  "guessType E f =
     (let fn = parameter E ''name'' f;
          fn = (if fn = [] then parameter E ''filename'' f else fn);
          fn = rev (dropWhile (\<lambda>c. c = CHR ''.'') (rev fn));
          fn = toLower E fn;
          original = addParameter E ''original-type'' (ct_Type f @ ''/'' @ ct_Subtype f) f
      in if hasSuffix fn ''jpg'' \<or> hasSuffix fn ''jpeg'' then setType ''image'' ''jpeg'' f
         else if hasSuffix fn ''htm'' \<or> hasSuffix fn ''html'' then setType ''text'' ''html'' f
         else if fn = [] \<and> ct_Subtype f = [] \<and> ct_Type f = ''text'' then f\<lparr> ct_Subtype := ''plain'' \<rparr>
         else if ct_Type f = ''text'' then original\<lparr> ct_Subtype := ''plain'' \<rparr>
         else setType ''application'' ''octet-stream'' original)"

text \<open>The rescue of a boundary the parser of the parameters did not reach.\<close>

definition unquoteBoundary :: "string \<Rightarrow> string" where
  "unquoteBoundary b =
     (let b = (if \<not> isQuoted b (CHR 0x22) (CHR 0x27) then filter (\<lambda>c. c \<noteq> CHR 0x5C) b else b)
      in if isQuoted b (CHR 0x22) (CHR 0x27) then unquote b (CHR 0x22) (CHR 0x27)
         else if isQuoted b (CHR 0x27) (CHR 0x27) then unquote b (CHR 0x27) (CHR 0x27)
         else b)"

definition findBoundary :: "go_env \<Rightarrow> string \<Rightarrow> string go" where
  "findBoundary E s =
     go_bind (case indexOf (toLower E s) ''boundary'' of
                None \<Rightarrow> Inl SliceOutOfRange
              | Some i \<Rightarrow> substr s i (length s)) (\<lambda>t.
     go_bind (require E ''boundary'' (newParser t)) (\<lambda>csp.
     let csp = snd (Whitespace csp);
         csp = (case Present E ''='' csp of (True, q) \<Rightarrow> snd (Whitespace q) | (False, _) \<Rightarrow> csp);
         (m, csp) = mark csp
     in go_bind (String E csp) (\<lambda>(b, csp).
        if b = [] \<or> p_err csp \<noteq> None then
          (let csp = restore m csp
           in go_bind (substr (p_str csp) (p_at csp) (length (p_str csp))) (\<lambda>t.
              go_bind (str_section t '';'' 1) (\<lambda>t.
              go_bind (simplify t) (\<lambda>b. Inr (unquoteBoundary b)))))
        else Inr b)))"

definition rescueBoundary :: "go_env \<Rightarrow> string \<Rightarrow> parser \<Rightarrow> ContentType \<Rightarrow> ContentType go" where
  "rescueBoundary E s p f =
     (if hf_Valid f \<and> \<not> AtEnd p \<and> ct_Type f = ''multipart'' \<and> parameter E ''boundary'' f = [] then
        go_bind (containsWord (toLower E s) ''boundary'') (\<lambda>w.
        if w then go_bind (findBoundary E s) (\<lambda>b. Inr (if b \<noteq> [] then addParameter E ''boundary'' b f else f))
        else Inr f)
      else Inr f)"

definition checkType :: "string \<Rightarrow> ContentType \<Rightarrow> ContentType" where
  "checkType s f =
     (if ct_Type f = [] \<or> ct_Subtype f = [] then f\<lparr> hf_err := Some (EmptyType s) \<rparr> else f)"

definition checkAppledouble :: "go_env \<Rightarrow> ContentType \<Rightarrow> ContentType" where
  "checkAppledouble E f =
     (if hf_Valid f \<and> ct_Type f = ''multipart'' \<and> ct_Subtype f = ''appledouble'' \<and> parameter E ''boundary'' f = []
      then setType ''application'' ''octet-stream'' f else f)"

definition checkBoundary :: "go_env \<Rightarrow> ContentType \<Rightarrow> ContentType" where
  "checkBoundary E f =
     (if hf_Valid f \<and> ct_Type f = ''multipart'' \<and> parameter E ''boundary'' f = []
      then f\<lparr> hf_err := Some NeedsBoundary \<rparr> else f)"

definition ContentType_Parse :: "go_env \<Rightarrow> string \<Rightarrow> ContentType \<Rightarrow> ContentType go" where
  "ContentType_Parse E s f =
     go_bind (readType E s (skipColons E (snd (Whitespace (newParser s)))) f) (\<lambda>(f, p, mustGuess).
     let f = (if mustGuess then guessType E f else f);
         f = checkAppledouble E (checkType s f)
     in go_bind (rescueBoundary E s p f) (\<lambda>f.
        let f = checkBoundary E f
        in Inr (f\<lparr> mf_baseValue := ct_Type f @ ''/'' @ ct_Subtype f \<rparr>)))"

section \<open>Content-Transfer-Encoding\<close>

record ContentTransferEncoding = MIMEField +
  cte_Encoding :: EncodingType

definition NewContentTransferEncoding :: ContentTransferEncoding where
  "NewContentTransferEncoding =
     MIMEField.extend (newMIMEField ContentTransferEncodingFieldName) \<lparr> cte_Encoding = QPEncoding \<rparr>"

definition setEncoding :: "EncodingType \<Rightarrow> string \<Rightarrow> ContentTransferEncoding \<Rightarrow> ContentTransferEncoding" where
  "setEncoding e v f = f\<lparr> cte_Encoding := e, mf_baseValue := v \<rparr>"

definition CTE_Parse :: "go_env \<Rightarrow> string \<Rightarrow> ContentTransferEncoding \<Rightarrow> ContentTransferEncoding go" where
  "CTE_Parse E s f =
     go_bind (MIMEValue E (newParser s)) (\<lambda>(t, p).
     let t = toLower E t
     in Inr (if t \<in> {''7bit'', ''8bit'', ''8bits'', ''binary'', ''unknown''} then setEncoding BinaryEncoding ''7bit'' f
             else if t = ''quoted-printable'' then setEncoding QPEncoding ''quoted-printable'' f
             else if t = ''base64'' then setEncoding Base64Encoding ''base64'' f
             else if t = ''x-uuencode'' \<or> t = ''uuencode'' then setEncoding UuencodeEncoding ''x-uuencode'' f
             else if contains t ''bit'' \<and> isDigit (hd t) then setEncoding BinaryEncoding ''7bit'' f
             else f\<lparr> hf_err := Some (InvalidCTE t) \<rparr>))"

section \<open>Content-Disposition\<close>

record ContentDisposition = MIMEField +
  cd_Disposition :: string

definition NewContentDisposition :: ContentDisposition where
  "NewContentDisposition =
     MIMEField.extend (newMIMEField ContentDispositionFieldName) \<lparr> cd_Disposition = [] \<rparr>"

definition ContentDisposition_Parse :: "go_env \<Rightarrow> string \<Rightarrow> ContentDisposition \<Rightarrow> ContentDisposition go" where
  "ContentDisposition_Parse E s f =
     (let (m, p) = mark (newParser s);
          (t, p) = MIMEToken E p;
          t = toLower E t;
          p = snd (Whitespace p);
          p = (if NextChar p = CHR ''='' \<and> t \<noteq> ''inline'' \<and> t \<noteq> ''attachment'' then restore m p else p)
      in if t = [] then Inr (f\<lparr> hf_err := Some InvalidDisposition \<rparr>)
         else go_bind (parseParameters E p f) (\<lambda>(f, p).
              let d = (if t \<noteq> ''inline'' \<and> t \<noteq> ''attachment'' then ''attachment'' else t)
              in Inr (f\<lparr> cd_Disposition := d, mf_baseValue := d \<rparr>)))"

section \<open>Content-Language\<close>

record ContentLanguage = MIMEField +
  cl_Languages :: "string list"

definition NewContentLanguage :: ContentLanguage where
  "NewContentLanguage = MIMEField.extend (newMIMEField ContentLanguageFieldName) \<lparr> cl_Languages = [] \<rparr>"

lemma Comment_moves: "p_at p \<le> p_at (snd (Comment E p)) \<and> p_str (snd (Comment E p)) = p_str p"
  by (rule advancesD [OF advances_Comment])

lemma MIMEToken_moves: "p_at p \<le> p_at (snd (MIMEToken E p)) \<and> p_str (snd (MIMEToken E p)) = p_str p"
  by (rule advancesD [OF advances_MIMEToken])

function languages_loop :: "go_env \<Rightarrow> parser \<Rightarrow> string list \<Rightarrow> string list \<times> parser" where
  "languages_loop E p langs =
     (let (t, q) = MIMEToken E (snd (Comment E p));
          langs = (if t \<noteq> [] then langs @ [t] else langs);
          q = snd (Comment E q)
      in case Present E '','' q of
           (True, r) \<Rightarrow> languages_loop E r langs
         | (False, _) \<Rightarrow> (langs, q))"
  by pat_completeness auto
termination
proof (relation "measure (\<lambda>(E, p, _). length (p_str p) - p_at p)", goal_cases)
  case (2 E p langs x t q l q2 b r)
  with Present_moves [of r E "'',''" q2] Comment_moves [of p E] Comment_moves [of q E]
    MIMEToken_moves [of "snd (Comment E p)" E]
  show ?case by (auto simp: prod_eq_iff)
qed simp

declare languages_loop.simps [simp del]

definition ContentLanguage_Parse :: "go_env \<Rightarrow> string \<Rightarrow> ContentLanguage \<Rightarrow> ContentLanguage go" where
  "ContentLanguage_Parse E s f =
     (let (langs, p) = languages_loop E (newParser s) (cl_Languages f)
      in Inr (f\<lparr> cl_Languages := langs,
                 hf_err := (if \<not> AtEnd p \<or> langs = [] then Some (Unparseable s) else hf_err f),
                 mf_baseValue := joinWith '', '' langs \<rparr>))"

end
