(* ===== verification/MailFields.thy ===== *)
theory MailFields
  imports AddressFields MimeKinds
begin

text \<open>
  The interface \<open>Field\<close> of \<^verbatim>\<open>fields.go\<close>: a value of the interface is one of the structs, and a method call
  dispatches on it. \<open>NewHeaderFieldNamed\<close> chooses the struct by the name, \<open>NewHeaderField\<close> also parses.
\<close>

section \<open>The interface\<close>

datatype Field =
    PlainField HeaderField
  | AddrField AddressField
  | DatField DateField
  | CTypeField ContentType
  | CTEField ContentTransferEncoding
  | CDispField ContentDisposition
  | CLangField ContentLanguage

text \<open>The embedded struct, and a change to it.\<close>

fun embedded :: "Field \<Rightarrow> HeaderField" where
  "embedded (PlainField f) = f"
| "embedded (AddrField f) = HeaderField.truncate f"
| "embedded (DatField f) = HeaderField.truncate f"
| "embedded (CTypeField f) = HeaderField.truncate f"
| "embedded (CTEField f) = HeaderField.truncate f"
| "embedded (CDispField f) = HeaderField.truncate f"
| "embedded (CLangField f) = HeaderField.truncate f"

definition Field_Name :: "Field \<Rightarrow> string" where
  "Field_Name f = hf_name (embedded f)"

definition Field_Error :: "Field \<Rightarrow> field_error option" where
  "Field_Error f = hf_err (embedded f)"

definition Field_Valid :: "Field \<Rightarrow> bool" where
  "Field_Valid f = hf_Valid (embedded f)"

definition Field_UnparsedValue :: "Field \<Rightarrow> string" where
  "Field_UnparsedValue f = hf_unparsedValue (embedded f)"

fun Field_SetUnparsedValue :: "string \<Rightarrow> Field \<Rightarrow> Field" where
  "Field_SetUnparsedValue v (PlainField f) = PlainField (f\<lparr> hf_unparsedValue := v \<rparr>)"
| "Field_SetUnparsedValue v (AddrField f) = AddrField (f\<lparr> hf_unparsedValue := v \<rparr>)"
| "Field_SetUnparsedValue v (DatField f) = DatField (f\<lparr> hf_unparsedValue := v \<rparr>)"
| "Field_SetUnparsedValue v (CTypeField f) = CTypeField (f\<lparr> hf_unparsedValue := v \<rparr>)"
| "Field_SetUnparsedValue v (CTEField f) = CTEField (f\<lparr> hf_unparsedValue := v \<rparr>)"
| "Field_SetUnparsedValue v (CDispField f) = CDispField (f\<lparr> hf_unparsedValue := v \<rparr>)"
| "Field_SetUnparsedValue v (CLangField f) = CLangField (f\<lparr> hf_unparsedValue := v \<rparr>)"

fun Field_Value :: "go_env \<Rightarrow> Field \<Rightarrow> string go" where
  "Field_Value E (PlainField f) = Inr (hf_value f)"
| "Field_Value E (AddrField f) = AddressField_Value E f"
| "Field_Value E (DatField f) = Inr (hf_value f)"
| "Field_Value E (CTypeField f) = Inr (MIMEField_Value f)"
| "Field_Value E (CTEField f) = Inr (MIMEField_Value f)"
| "Field_Value E (CDispField f) = Inr (MIMEField_Value f)"
| "Field_Value E (CLangField f) = Inr (MIMEField_Value f)"

fun Field_rfc822 :: "Field \<Rightarrow> bool \<Rightarrow> string go" where
  "Field_rfc822 (PlainField f) avoidUTF8 = HeaderField_rfc822 f avoidUTF8"
| "Field_rfc822 (AddrField f) avoidUTF8 = AddressField_rfc822 f avoidUTF8"
| "Field_rfc822 (DatField f) avoidUTF8 = HeaderField_rfc822 f avoidUTF8"
| "Field_rfc822 (CTypeField f) avoidUTF8 = Inr (MIMEField_rfc822 f avoidUTF8)"
| "Field_rfc822 (CTEField f) avoidUTF8 = Inr (MIMEField_rfc822 f avoidUTF8)"
| "Field_rfc822 (CDispField f) avoidUTF8 = Inr (MIMEField_rfc822 f avoidUTF8)"
| "Field_rfc822 (CLangField f) avoidUTF8 = Inr (MIMEField_rfc822 f avoidUTF8)"

fun Field_Parse :: "go_env \<Rightarrow> string \<Rightarrow> Field \<Rightarrow> Field go" where
  "Field_Parse E s (PlainField f) = go_bind (HeaderField_Parse E s f) (\<lambda>f. Inr (PlainField f))"
| "Field_Parse E s (AddrField f) = go_bind (AddressField_Parse E s f) (\<lambda>f. Inr (AddrField f))"
| "Field_Parse E s (DatField f) = go_bind (DateField_Parse E s f) (\<lambda>f. Inr (DatField f))"
| "Field_Parse E s (CTypeField f) = go_bind (ContentType_Parse E s f) (\<lambda>f. Inr (CTypeField f))"
| "Field_Parse E s (CTEField f) = go_bind (CTE_Parse E s f) (\<lambda>f. Inr (CTEField f))"
| "Field_Parse E s (CDispField f) = go_bind (ContentDisposition_Parse E s f) (\<lambda>f. Inr (CDispField f))"
| "Field_Parse E s (CLangField f) = go_bind (ContentLanguage_Parse E s f) (\<lambda>f. Inr (CLangField f))"

section \<open>Making a field\<close>

definition messageIDNames :: "string list" where
  "messageIDNames = [MessageIDFieldName, ContentIDFieldName, ResentMessageIDFieldName, ReferencesFieldName]"

definition NewHeaderFieldNamed :: "string \<Rightarrow> Field" where
  "NewHeaderFieldNamed name =
     (let n = headerCase name
      in if n \<in> set addressFieldNames \<or> n \<in> set messageIDNames then AddrField (NewAddressField n)
         else if n = DateFieldName \<or> n = OrigDateFieldName \<or> n = ResentDateFieldName then DatField NewDateField
         else if n = ContentTypeFieldName then CTypeField NewContentType
         else if n = ContentTransferEncodingFieldName then CTEField NewContentTransferEncoding
         else if n = ContentDispositionFieldName then CDispField NewContentDisposition
         else if n = ContentLanguageFieldName then CLangField NewContentLanguage
         else PlainField (newHeaderField n))"

text \<open>The loop that skips colons and spaces has no bound: it panics on a value of nothing else.\<close>

definition skipJunk :: "string \<Rightarrow> string go" where
  "skipJunk value =
     (let v = dropWhile (\<lambda>c. c = CHR '':'' \<or> c = CHR '' '') value
      in if v = [] then Inl IndexOutOfRange else Inr v)"

definition NewHeaderField :: "go_env \<Rightarrow> string \<Rightarrow> string \<Rightarrow> Field go" where
  "NewHeaderField E name value =
     go_bind (Field_Parse E value (NewHeaderFieldNamed name)) (\<lambda>hf.
     if Field_Valid hf then Inr hf
     else
       go_bind (skipJunk value) (\<lambda>v.
       go_bind (Field_Parse E v (NewHeaderFieldNamed name)) (\<lambda>suf.
       Inr (if Field_Valid suf then suf else Field_SetUnparsedValue value hf))))"

end
