(* ===== verification/FieldTermination.thy ===== *)
theory FieldTermination
  imports MailFields AddressLaws
begin

text \<open>
  The parsers of the header fields end: the fuel of the loop over the parameters and of the loop over the message
  identifiers is enough, and \<open>NewHeaderField\<close> returns or panics on every name and value.
\<close>

section \<open>Productions\<close>

declare tame_require [simp] tame_String [simp] tame_encodedWords_loop [simp]

lemma tame_dotAtom_next [simp]: "tame (dotAtom_next E p)"
  by (unfold dotAtom_next_def) (intro tame_rules; simp)

lemma tame_dotAtom_loop [simp]: "tame (dotAtom_loop E p r)"
proof (induction E p r rule: dotAtom_loop.induct)
  case (1 E p r)
  show ?case by (subst dotAtom_loop.simps, intro tame_rules 1) simp_all
qed

lemma tame_DotAtom [simp]: "tame (DotAtom E p)"
  by (unfold DotAtom_def) (intro tame_rules; simp)

lemma tame_MIMEValue [simp]: "tame (MIMEValue E p)"
  by (unfold MIMEValue_def) (intro tame_rules; simp)

lemma tame_encodedWords [simp]: "tame (encodedWords E t p)"
  by (unfold encodedWords_def) (intro tame_rules; simp)

lemma tame_text_word [simp]: "tame (text_word E p)"
  by (unfold text_word_def) (intro tame_rules; simp)

lemma tame_text_loop [simp]: "tame (text_loop E p t out)"
proof (induction E p t out rule: text_loop.induct)
  case (1 E p t out)
  show ?case by (subst text_loop.simps, intro tame_rules 1) auto
qed

lemma tame_Text [simp]: "tame (Text E p)"
  by (unfold Text_def) (intro tame_rules; simp)

section \<open>Unstructured fields\<close>

lemma tame_encodePhrase_loop [simp]: "tame (encodePhrase_loop ws i buf)"
proof (induction ws i buf rule: encodePhrase_loop.induct)
  case (1 ws i buf)
  show ?case by (subst encodePhrase_loop.simps, intro tame_rules 1) simp_all
qed

lemma tame_encodePhrase [simp]: "tame (encodePhrase s)"
  by (simp add: encodePhrase_def)

lemma tame_Name [simp]: "tame (Name a b)"
  by (unfold Name_def) (intro tame_rules; simp)

lemma tame_localpartIsSensible_loop [simp]: "tame (localpartIsSensible_loop s)"
  by (induction s) simp_all

lemma tame_localpartIsSensible [simp]: "tame (localpartIsSensible a)"
  by (simp add: localpartIsSensible_def)

lemma tame_localpartText [simp]: "tame (localpartText a)"
  by (simp add: localpartText_def)

lemma tame_Address_toString [simp]: "tame (Address_toString a b)"
  by (cases "a_t a") (simp_all add: Address_toString_def split: prod.split)

lemma tame_lpdomain [simp]: "tame (lpdomain a)"
  by (unfold lpdomain_def) (intro tame_rules; simp)

lemma tame_NewAddressParser [simp]: "asciiConverter E \<Longrightarrow> tame (NewAddressParser E s)"
  using newAP_finishing [of E s "length s + 1"]
  by (simp add: NewAddressParser_def finishing_def del: newAP.simps)

lemma tame_parseText [simp]: "tame (parseText E s f)"
  by (unfold parseText_def) (intro tame_rules; simp)

lemma tame_parseMIMEVersion [simp]: "tame (parseMIMEVersion E s f)"
  by (unfold parseMIMEVersion_def) (intro tame_rules; simp)

lemma tame_parseContentLocation [simp]: "tame (parseContentLocation E s f)"
  by (unfold parseContentLocation_def) (intro tame_rules; simp)

lemma tame_parseOther [simp]: "tame (parseOther E s f)"
  by (unfold parseOther_def) (intro tame_rules; simp)

lemma tame_parseContentBase [simp]: "tame (parseContentBase E s f)"
  by (unfold parseContentBase_def) (intro tame_rules; simp)

lemma tame_parseErrorsTo [simp]: "asciiConverter E \<Longrightarrow> tame (parseErrorsTo E s f)"
  by (unfold parseErrorsTo_def) (intro tame_rules; simp)

lemma tame_HeaderField_Parse [simp]: "asciiConverter E \<Longrightarrow> tame (HeaderField_Parse E s f)"
  by (unfold HeaderField_Parse_def) (intro tame_rules; simp)

lemma tame_parseDate [simp]: "tame (parseDate E s)"
  by (simp add: parseDate_def)

lemma tame_DateField_Parse [simp]: "tame (DateField_Parse E s f)"
  by (simp add: DateField_Parse_def)

section \<open>Address fields\<close>

lemma refMsgID_moves:
  assumes E: "asciiConverter E"
  shows "wp (refMsgID E i) (\<lambda>(ok, dm, lp, k) q. k \<le> i \<and> (dm \<noteq> [] \<longrightarrow> k < i) \<and> keeps p q) p"
  by (auto simp: refMsgID_def keeps_def both_True intro!: wp_rules localpart_readI [OF E])

lemma references_loop_ends:
  assumes E: "asciiConverter E"
  shows "0 < n \<Longrightarrow> i < int n \<Longrightarrow> wp (references_loop n E i) (\<lambda>_ _. True) p"
proof (induction n arbitrary: i p)
  case (Suc n)
  show ?case
    by (rule wp_unfold [OF references_loop.simps(2)])
      (use Suc.prems in \<open>auto intro!: wp_rules wp_mono [OF refMsgID_moves [OF E]] Suc.IH dest!: scanBack_le\<close>)
qed simp

lemma wp_tame: "wp m Q p \<Longrightarrow> tame (m p)"
  by (cases "m p") (simp_all add: wp_def)

lemma tame_references [simp]:
  assumes E: "asciiConverter E"
  shows "tame (references E r)"
proof -
  have "tame (ap_bind (comment E (int (length r) - 1)) (references_loop (length r + 1) E) q)" for q
    by (rule wp_tame [of _ "\<lambda>_ _. True"], unfold wp_bind)
      (auto intro!: wp_rules references_loop_ends [OF E] simp del: references_loop.simps)
  then show ?thesis
    unfolding references_def by (intro tame_rules) (simp_all add: E del: references_loop.simps)
qed

lemma tame_outlawGroups [simp]: "tame (outlawGroups as)"
  by (induction as) simp_all

lemma tame_parseAddressList [simp]: "asciiConverter E \<Longrightarrow> tame (parseAddressList E s f)"
  by (simp add: parseAddressList_def)

lemma tame_address_parsers [simp]:
  assumes "asciiConverter E"
  shows "tame (parseMailboxList E s f)" "tame (parseMailbox E s f)" "tame (parseReferences E s f)"
    "tame (parseMessageID E s f)" "tame (parseContentID E s f)"
  using assms
  by (simp_all add: parseMailboxList_def parseMailbox_def parseReferences_def parseMessageID_def parseContentID_def
      Let_def)

lemma tame_AddressField_Parse [simp]: "asciiConverter E \<Longrightarrow> tame (AddressField_Parse E s f)"
  by (unfold AddressField_Parse_def repairSingle_def) (intro tame_rules; simp)

section \<open>MIME fields\<close>

lemma toLower_Nil [simp]: "toLower E [] = []"
  by (simp add: toLower_def)

lemma tame_paramValue_loop [simp]: "tame (paramValue_loop E p)"
proof (induction E p rule: paramValue_loop.induct)
  case (1 E p)
  show ?case by (subst paramValue_loop.simps, intro tame_rules 1) auto
qed

lemma tame_paramValue [simp]: "tame (paramValue E p)"
  by (unfold paramValue_def) (intro tame_rules; simp)

lemma tame_modifyParam: "(\<And>p. tame (g p)) \<Longrightarrow> tame (modifyParam n g ps)"
  by (induction ps) (auto intro!: tame_bind)

lemma tame_storeParam [simp]: "tame (storeParam E n part v ps)"
  unfolding storeParam_def extendParts_def Let_def by (intro tame_modifyParam tame_rules) simp_all

lemma tame_paramStep [simp]: "tame (paramStep E name ps p)"
  by (unfold paramStep_def paramAssign_def) (intro tame_rules; simp)

lemma reads_paramValue_loop: "paramValue_loop E p = Inr (ok, q) \<Longrightarrow> reads p q"
proof (induction E p rule: paramValue_loop.induct)
  case (1 E p)
  show ?case
  proof (cases "\<not> AtEnd p \<and> NextChar p \<noteq> CHR '';'' \<and> NextChar p \<noteq> CHR 0x22")
    case True
    then obtain a p1 where d: "DotAtom E p = Inr (a, p1)" and l: "a \<noteq> [] \<Longrightarrow> paramValue_loop E p1 = Inr (ok, q)"
      using 1(3) by (subst (asm) paramValue_loop.simps) (auto simp: go_bind_eq_Inr split: if_splits)
    have p1: "reads p p1" using d by (intro extends_reads extends_DotAtom)
    show ?thesis
    proof (cases "a = []")
      case False
      with 1(1) [OF True d refl False l] p1 show ?thesis by (blast intro: reads_trans)
    next
      case a: True
      with 1(3) True d obtain m p2 where m: "MIMEValue E p1 = Inr (m, p2)"
        and l: "if m = [] then q = p2 else paramValue_loop E p2 = Inr (ok, q)"
        by (subst (asm) paramValue_loop.simps) (auto simp: go_bind_eq_Inr split: if_splits)
      have "reads p1 p2" using m by (intro advances_reads advances_MIMEValue)
      with p1 have p2: "reads p p2" by (rule reads_trans)
      show ?thesis
        using l p2 1(2) [OF True d refl _ m refl] a by (cases "m = []") (auto intro: reads_trans)
    qed
  next
    case False
    with 1(3) show ?thesis by (subst (asm) paramValue_loop.simps) auto
  qed
qed

lemma reads_paramValue:
  assumes "paramValue E p = Inr (v, q)"
  shows "reads p q"
proof (cases "NextChar p = CHR 0x22")
  case True
  with assms show ?thesis by (auto simp: paramValue_def intro: advances_reads advances_MIMEValue)
next
  case False
  then obtain w p1 ok where "MIMEValue E p = Inr (w, p1)" and "paramValue_loop E p1 = Inr (ok, q)"
    using assms by (auto simp: paramValue_def go_bind_eq_Inr split: if_splits)
  then show ?thesis by (blast intro: reads_trans advances_reads advances_MIMEValue reads_paramValue_loop)
qed

lemma paramAssign_moves:
  assumes "paramAssign E n part ps p = Inr (b, ps', q)"
  shows "p_at p \<le> p_at q \<and> p_str q = p_str p"
proof (cases "NextChar p = CHR '':'' \<and> isKnownField n \<or> NextChar p = CHR ''=''")
  case True
  then obtain k v p1 where v: "paramValue E (snd (Whitespace (Step 1 (Step k p)))) = Inr (v, p1)"
    and q: "q = snd (Comment E p1)"
    using assms by (auto simp: paramAssign_def Let_def go_bind_eq_Inr split: if_splits)
  with readsD [OF reads_paramValue [OF v]] advancesD [OF advances_Whitespace [of "Step 1 (Step k p)"]]
    advancesD [OF advances_Comment [of p1 E]]
  show ?thesis by simp
next
  case False
  with assms show ?thesis by (auto simp: paramAssign_def)
qed

lemma paramStep_moves:
  assumes "paramStep E name ps p = Inr (True, ps', q)"
  shows "p_at p < p_at q \<and> p_str q = p_str p"
proof -
  obtain n p1 where p1: "MIMEToken E p = (n, p1)" by fastforce
  with assms have n: "n \<noteq> []"
    and q: "\<exists>n part. paramAssign E n part ps (snd (Comment E p1)) = Inr (True, ps', q)"
    by (auto simp: paramStep_def Let_def split: if_splits prod.splits)
  then obtain m part where "paramAssign E m part ps (snd (Comment E p1)) = Inr (True, ps', q)" by blast
  from paramAssign_moves [OF this] MIMEToken_progress [OF p1 n] Comment_moves [of p1 E] show ?thesis by auto
qed

lemma tame_params_loop:
  "length (p_str p) - p_at p < k \<Longrightarrow> tame (params_loop k E name first ps p)"
proof (induction k arbitrary: first ps p)
  case (Suc k)
  define q where "q = snd (span isParamSep p)"
  have q: "p_at p \<le> p_at q \<and> p_str q = p_str p" unfolding q_def by (rule advancesD [OF advances_span])
  have "tame (params_loop k E name False ps' p')"
    if "paramStep E name ps q = Inr (True, ps', p')" "\<not> AtEnd q" for ps' p'
    using paramStep_moves [OF that(1)] q that(2) Suc.prems by (intro Suc.IH) (auto simp: AtEnd_def)
  then show ?case by (auto simp: Let_def q_def [symmetric] intro!: tame_bind)
qed simp

lemma tame_parseParameters [simp]: "tame (parseParameters E p f)"
  by (auto simp: parseParameters_def simp del: params_loop.simps intro!: tame_bind tame_params_loop)

lemma tame_containsWord_loop [simp]: "tame (containsWord_loop s w i)"
proof (induction s w i rule: containsWord_loop.induct)
  case (2 s w i)
  show ?case by (subst containsWord_loop.simps, intro tame_rules 2) simp_all
qed simp

lemma tame_containsWord [simp]: "tame (containsWord s w)"
  by (simp add: containsWord_def)

lemma tame_findBoundary [simp]: "tame (findBoundary E s)"
  by (unfold findBoundary_def) (intro tame_rules; simp add: tame_str_section)

lemma tame_ContentType_Parse [simp]: "tame (ContentType_Parse E s f)"
  by (unfold ContentType_Parse_def readType_def rescueBoundary_def) (intro tame_rules; simp)

lemma tame_CTE_Parse [simp]: "tame (CTE_Parse E s f)"
  by (unfold CTE_Parse_def) (intro tame_rules; simp)

lemma tame_ContentDisposition_Parse [simp]: "tame (ContentDisposition_Parse E s f)"
  by (unfold ContentDisposition_Parse_def) (intro tame_rules; simp)

lemma tame_ContentLanguage_Parse [simp]: "tame (ContentLanguage_Parse E s f)"
  by (unfold ContentLanguage_Parse_def) (intro tame_rules; simp)

section \<open>All fields\<close>

lemma tame_Field_Parse [simp]: "asciiConverter E \<Longrightarrow> tame (Field_Parse E s f)"
  by (cases f) simp_all

lemma tame_NewHeaderField [simp]: "asciiConverter E \<Longrightarrow> tame (NewHeaderField E n v)"
  by (simp add: NewHeaderField_def skipJunk_def Let_def)

text \<open>
  C15. \<open>NewHeaderField\<close> ends for every name and value: each round of the loop over the parameters reads the name of a
  parameter, each round of the loop over the message identifiers moves to the left, and the address parser ends. Its only panics are
  reads and slices out of range.
\<close>

theorem NewHeaderField_terminates:
  assumes "\<And>w. cs_writer E ''us-ascii'' = Some w \<Longrightarrow> fst (w []) = []"
  shows "tame (NewHeaderField E n v)"
  using tame_NewHeaderField [OF asciiConverterI, of E n v] assms by simp

theorem NewHeaderField_terminates_witness:
  "tame (NewHeaderField plainEnv ''Content-Type'' ''text/plain; charset=utf-8'')"
  by (rule NewHeaderField_terminates) (auto simp: plainEnv_def)

end
