(* ===== verification/Outcomes.thy ===== *)
theory Outcomes
  imports Prelude
begin

text \<open>
  Postconditions of statements that may panic. \<open>ensures F m Q\<close>: a panic of \<open>m\<close> is one of those \<open>F\<close> allows, and a result
  of \<open>m\<close> satisfies \<open>Q\<close>. The rules in \<open>ensures_rules\<close> go through a method statement by statement.
\<close>

definition ensures :: "(fault \<Rightarrow> bool) \<Rightarrow> 'a go \<Rightarrow> ('a \<Rightarrow> bool) \<Rightarrow> bool" where
  "ensures F m Q \<longleftrightarrow> (case m of Inl e \<Rightarrow> F e | Inr x \<Rightarrow> Q x)"

text \<open>Panics other than a failed type assertion, and all panics; neither allows a loop that does not end.\<close>

definition assertionsHold :: "fault \<Rightarrow> bool" where
  "assertionsHold e \<longleftrightarrow> e \<noteq> FailedTypeAssertion \<and> e \<noteq> OutOfFuel"

definition ends :: "fault \<Rightarrow> bool" where
  "ends e \<longleftrightarrow> e \<noteq> OutOfFuel"

lemma allowed_simps [simp]:
  "assertionsHold NilDereference" "ends NilDereference" "ends FailedTypeAssertion"
  "\<not> assertionsHold FailedTypeAssertion" "\<not> assertionsHold OutOfFuel" "\<not> ends OutOfFuel"
  by (simp_all add: assertionsHold_def ends_def)

lemma allowed_mono [simp]:
  "rangeFault e \<Longrightarrow> assertionsHold e" "rangeFault e \<Longrightarrow> ends e" "assertionsHold e \<Longrightarrow> ends e"
  by (auto simp: rangeFault_def assertionsHold_def ends_def)

named_theorems ensures_rules \<open>introduction rules for ensures, by the shape of a statement\<close>

lemma ensures_simps [simp]: "ensures F (Inl e) Q \<longleftrightarrow> F e" "ensures F (Inr x) Q \<longleftrightarrow> Q x"
  by (simp_all add: ensures_def)

lemma ensures_result [ensures_rules]: "Q x \<Longrightarrow> ensures F (Inr x) Q"
  by simp

lemma ensures_panic [ensures_rules]: "F e \<Longrightarrow> ensures F (Inl e) Q"
  by simp

lemma ensures_bind [ensures_rules]: "ensures F m (\<lambda>x. ensures F (f x) Q) \<Longrightarrow> ensures F (go_bind m f) Q"
  by (cases m) simp_all

lemma ensures_if [ensures_rules]:
  "(b \<Longrightarrow> ensures F m Q) \<Longrightarrow> (\<not> b \<Longrightarrow> ensures F n Q) \<Longrightarrow> ensures F (if b then m else n) Q"
  by simp

lemma ensures_case_prod [ensures_rules]:
  "(\<And>a b. x = (a, b) \<Longrightarrow> ensures F (f a b) Q) \<Longrightarrow> ensures F (case x of (a, b) \<Rightarrow> f a b) Q"
  by (cases x) simp

lemma ensures_case_option [ensures_rules]:
  "(x = None \<Longrightarrow> ensures F m Q) \<Longrightarrow> (\<And>y. x = Some y \<Longrightarrow> ensures F (f y) Q) \<Longrightarrow>
   ensures F (case x of None \<Rightarrow> m | Some y \<Rightarrow> f y) Q"
  by (cases x) simp_all

lemma ensures_case_list [ensures_rules]:
  "(xs = [] \<Longrightarrow> ensures F m Q) \<Longrightarrow> (\<And>y ys. xs = y # ys \<Longrightarrow> ensures F (f y ys) Q) \<Longrightarrow>
   ensures F (case xs of [] \<Rightarrow> m | y # ys \<Rightarrow> f y ys) Q"
  by (cases xs) simp_all

lemma ensures_let [ensures_rules]: "(\<And>y. y = x \<Longrightarrow> ensures F (f y) Q) \<Longrightarrow> ensures F (let y = x in f y) Q"
  by simp

lemma ensures_mono: "ensures F m R \<Longrightarrow> (\<And>e. F e \<Longrightarrow> G e) \<Longrightarrow> (\<And>x. m = Inr x \<Longrightarrow> R x \<Longrightarrow> Q x) \<Longrightarrow> ensures G m Q"
  by (cases m) simp_all

lemma ensures_post: "ensures F m R \<Longrightarrow> (\<And>x. R x \<Longrightarrow> Q x) \<Longrightarrow> ensures F m Q"
  by (cases m) simp_all

lemma ensures_tame: "tame m \<Longrightarrow> (\<And>e. rangeFault e \<Longrightarrow> F e) \<Longrightarrow> (\<And>x. m = Inr x \<Longrightarrow> Q x) \<Longrightarrow> ensures F m Q"
  by (cases m) simp_all

lemma ensuresD: "ensures F m Q \<Longrightarrow> m = Inr x \<Longrightarrow> Q x"
  by simp

lemma tame_ensures: "ensures rangeFault m Q \<Longrightarrow> tame m"
  by (cases m) simp_all

lemma ensures_foldGo:
  assumes "\<And>x s. x \<in> set xs \<Longrightarrow> P s \<Longrightarrow> ensures F (f x s) P" and "P s"
  shows "ensures F (foldGo f xs s) P"
  using assms by (induction xs arbitrary: s) (auto intro!: ensures_bind intro: ensures_post)

text \<open>Skipping a call whose panics and result do not matter.\<close>

lemma ensures_any: "(\<And>x. Q x) \<Longrightarrow> ensures (\<lambda>_. True) m Q"
  by (cases m) simp_all

end
