(* ===== verification/FieldKinds.thy ===== *)
theory FieldKinds
  imports FieldTermination Outcomes
begin

text \<open>
  The types of the fields: the struct behind a \<open>Field\<close> is the one its name asks for, and the parameters of a MIME field
  have different names. \<open>NewHeaderField\<close> makes only such fields.
\<close>

section \<open>Parameters\<close>

definition wfParams :: "MIMEParameter list \<Rightarrow> bool" where
  "wfParams ps \<longleftrightarrow> distinct (map mp_Name ps)"

lemma hasParam_iff: "hasParam s ps \<longleftrightarrow> s \<in> mp_Name ` set ps"
  by (induction ps) (auto simp: hasParam_def)

lemma map_setParam:
  "toLower E n = n \<Longrightarrow> map mp_Name (setParam E n v ps) = map mp_Name ps @ (if hasParam n ps then [] else [n])"
  by (auto simp: setParam_def Let_def)

lemma wfParams_set: "wfParams ps \<Longrightarrow> toLower E n = n \<Longrightarrow> wfParams (setParam E n v ps)"
  by (auto simp: wfParams_def map_setParam hasParam_iff)

lemma map_delParam: "map mp_Name (delParam n ps) = remove1 n (map mp_Name ps)"
  by (induction ps) auto

lemma wfParams_del: "wfParams ps \<Longrightarrow> wfParams (delParam n ps)"
  by (simp add: wfParams_def map_delParam)

lemma map_modifyParam:
  assumes "\<And>p q. g p = Inr q \<Longrightarrow> mp_Name q = mp_Name p"
  shows "modifyParam n g ps = Inr qs \<Longrightarrow> map mp_Name qs = map mp_Name ps @ (if n \<in> mp_Name ` set ps then [] else [n])"
  by (induction ps arbitrary: qs) (auto simp: NewMIMEParameter_def go_bind_eq_Inr split: if_splits dest!: assms)

lemma wfParams_store:
  assumes "storeParam E n part v ps = Inr qs" and "wfParams ps"
  shows "wfParams qs"
proof -
  have "map mp_Name qs = map mp_Name ps @ (if n \<in> mp_Name ` set ps then [] else [n])"
    by (rule map_modifyParam [OF _ assms(1) [unfolded storeParam_def]])
      (auto simp: go_bind_eq_Inr split: option.splits)
  with assms(2) show ?thesis by (auto simp: wfParams_def)
qed

lemma wfParams_paramStep:
  "paramStep E name ps p = Inr (b, ps', q) \<Longrightarrow> wfParams ps \<Longrightarrow> wfParams ps'"
  by (auto simp: paramStep_def paramAssign_def Let_def go_bind_eq_Inr hasParam_iff
      split: prod.splits if_splits dest: wfParams_store)
    (simp add: wfParams_def NewMIMEParameter_def image_iff)

lemma wfParams_loop:
  "params_loop k E name first ps p = Inr (ps', q) \<Longrightarrow> wfParams ps \<Longrightarrow> wfParams ps'"
  by (induction k arbitrary: first ps p)
    (auto simp: Let_def go_bind_eq_Inr split: if_splits dest: wfParams_paramStep)

lemma toLower_names [simp]:
  "toLower E ''boundary'' = ''boundary''" "toLower E ''charset'' = ''charset''"
  "toLower E ''original-type'' = ''original-type''" "toLower E ''name'' = ''name''"
  "toLower E ''filename'' = ''filename''"
  by (simp_all add: toLower_def isAsciiByte_def lowerByte_def char_class)

text \<open>What a parser of a MIME field keeps.\<close>

definition mimeKept :: "'a MIMEField_scheme \<Rightarrow> 'b MIMEField_scheme \<Rightarrow> bool" where
  "mimeKept f g \<longleftrightarrow> hf_name g = hf_name f \<and> (wfParams (mf_Parameters f) \<longrightarrow> wfParams (mf_Parameters g))"

lemma mimeKept_refl [simp]: "mimeKept f f"
  by (simp add: mimeKept_def)

lemma mimeKept_trans [trans]: "mimeKept f g \<Longrightarrow> mimeKept g h \<Longrightarrow> mimeKept f h"
  by (simp add: mimeKept_def)

lemma mimeKept_updates [simp]:
  "mimeKept f (g\<lparr> mf_baseValue := v \<rparr>) = mimeKept f g" "mimeKept f (g\<lparr> hf_err := e \<rparr>) = mimeKept f g"
  "mimeKept f (c\<lparr> ct_Type := t \<rparr>) = mimeKept f c" "mimeKept f (c\<lparr> ct_Subtype := t \<rparr>) = mimeKept f c"
  "mimeKept f (setType t u c) = mimeKept f c" "mimeKept f (d\<lparr> cd_Disposition := t \<rparr>) = mimeKept f d"
  "mimeKept f (e2\<lparr> cte_Encoding := x \<rparr>) = mimeKept f e2" "mimeKept f (l\<lparr> cl_Languages := ls \<rparr>) = mimeKept f l"
  by (simp_all add: mimeKept_def setType_def)

lemma mimeKept_addParameter [simp]: "toLower E n = n \<Longrightarrow> mimeKept f g \<Longrightarrow> mimeKept f (addParameter E n v g)"
  by (auto simp: mimeKept_def addParameter_def wfParams_set)

lemma mimeKept_removeParameter [simp]: "mimeKept f g \<Longrightarrow> mimeKept f (removeParameter E n g)"
  by (auto simp: mimeKept_def removeParameter_def wfParams_del)

lemma mimeKept_parseParameters:
  "parseParameters E p g = Inr (g', q) \<Longrightarrow> mimeKept f g \<Longrightarrow> mimeKept f g'"
  by (auto simp: parseParameters_def go_bind_eq_Inr mimeKept_def simp del: params_loop.simps
      split: if_splits dest: wfParams_loop)

lemma mimeKept_rfc1049 [simp]: "mimeKept f g \<Longrightarrow> mimeKept f (rfc1049 s g)"
  by (simp add: rfc1049_def)

lemma mimeKept_readType: "readType E s p f = Inr (g, q, b) \<Longrightarrow> mimeKept f g"
  by (auto simp: readType_def Let_def go_bind_eq_Inr split: if_splits prod.splits
      intro!: mimeKept_rfc1049 elim!: mimeKept_parseParameters)

lemma mimeKept_checks [simp]:
  "mimeKept f g \<Longrightarrow> mimeKept f (guessType E g)" "mimeKept f g \<Longrightarrow> mimeKept f (checkType s g)"
  "mimeKept f g \<Longrightarrow> mimeKept f (checkAppledouble E g)" "mimeKept f g \<Longrightarrow> mimeKept f (checkBoundary E g)"
  by (simp_all add: guessType_def checkType_def checkAppledouble_def checkBoundary_def Let_def)

lemma mimeKept_rescueBoundary: "rescueBoundary E s p g = Inr g' \<Longrightarrow> mimeKept f g \<Longrightarrow> mimeKept f g'"
  by (auto simp: rescueBoundary_def go_bind_eq_Inr split: if_splits)

lemma mimeKept_ContentType_Parse: "ContentType_Parse E s f = Inr g \<Longrightarrow> mimeKept f g"
  by (auto simp: ContentType_Parse_def Let_def go_bind_eq_Inr
      dest!: mimeKept_readType intro!: mimeKept_checks elim!: mimeKept_rescueBoundary)

lemma mimeKept_CTE_Parse: "CTE_Parse E s f = Inr g \<Longrightarrow> mimeKept f g"
  by (auto simp: CTE_Parse_def Let_def go_bind_eq_Inr setEncoding_def)

lemma mimeKept_ContentDisposition_Parse: "ContentDisposition_Parse E s f = Inr g \<Longrightarrow> mimeKept f g"
  by (auto simp: ContentDisposition_Parse_def Let_def go_bind_eq_Inr split: if_splits prod.splits
      elim!: mimeKept_parseParameters)

lemma mimeKept_ContentLanguage_Parse: "ContentLanguage_Parse E s f = Inr g \<Longrightarrow> mimeKept f g"
  by (auto simp: ContentLanguage_Parse_def Let_def split: prod.splits)

section \<open>Fields\<close>

fun wfField :: "Field \<Rightarrow> bool" where
  "wfField (PlainField f) = (hf_name f \<notin> set specialFieldNames)"
| "wfField (AddrField f) = (hf_name f \<in> set addressFieldNames \<union> set messageIDNames)"
| "wfField (DatField f) = (hf_name f = DateFieldName)"
| "wfField (CTypeField f) = (hf_name f = ContentTypeFieldName \<and> wfParams (mf_Parameters f))"
| "wfField (CTEField f) = (hf_name f = ContentTransferEncodingFieldName \<and> wfParams (mf_Parameters f))"
| "wfField (CDispField f) = (hf_name f = ContentDispositionFieldName \<and> wfParams (mf_Parameters f))"
| "wfField (CLangField f) = (hf_name f = ContentLanguageFieldName \<and> wfParams (mf_Parameters f))"

lemma hf_name_truncate [simp]: "hf_name (HeaderField.truncate f) = hf_name f"
  by (simp add: HeaderField.truncate_def)

text \<open>A parser of an unstructured, date or address field keeps the name; \<open>ensures_any\<close> skips a call.\<close>

abbreviation named :: "string \<Rightarrow> ('a HeaderField_scheme) go \<Rightarrow> bool" where
  "named n m \<equiv> ensures (\<lambda>_. True) m (\<lambda>g. hf_name g = n)"

lemma named_text_parsers:
  "named (hf_name f) (parseText E s f)" "named (hf_name f) (parseMIMEVersion E s f)"
  "named (hf_name f) (parseContentLocation E s f)" "named (hf_name f) (parseOther E s f)"
  "named (hf_name f) (parseErrorsTo E s f)"
  unfolding parseText_def parseMIMEVersion_def parseContentLocation_def parseOther_def parseErrorsTo_def
  by ((rule ensures_rules ensures_any | simp)+)

lemma named_HeaderField_Parse: "named (hf_name f) (HeaderField_Parse E s f)"
  unfolding HeaderField_Parse_def parseContentBase_def
  by (intro ensures_rules named_text_parsers ensures_post [OF named_text_parsers(3)]) simp_all

lemma named_DateField_Parse: "named (hf_name f) (DateField_Parse E s f)"
  unfolding DateField_Parse_def by ((rule ensures_rules ensures_any | simp split: option.split)+)

lemma named_parseAddressList: "named (hf_name f) (parseAddressList E s f)"
  unfolding parseAddressList_def by ((rule ensures_rules ensures_any | simp)+)

lemma named_address_parsers:
  "named (hf_name f) (parseMailboxList E s f)" "named (hf_name f) (parseMailbox E s f)"
  "named (hf_name f) (parseReferences E s f)" "named (hf_name f) (parseMessageID E s f)"
  "named (hf_name f) (parseContentID E s f)" "named (hf_name f) (repairSingle s f)"
  unfolding parseMailboxList_def parseMailbox_def parseReferences_def parseMessageID_def parseContentID_def
    repairSingle_def
  by ((rule ensures_rules ensures_post [OF named_parseAddressList] ensures_any
        | simp split: option.split list.split AddressType.split)+)

lemma hf_name_address_repairs [simp]:
  "hf_name (outlawBounce f) = hf_name f" "hf_name (repairCc s f) = hf_name f" "hf_name (repairBounces s f) = hf_name f"
  by (simp_all add: outlawBounce_def repairCc_def repairBounces_def Let_def)

lemma named_AddressField_Parse: "named (hf_name f) (AddressField_Parse E s f)"
  unfolding AddressField_Parse_def
  by ((rule ensures_rules named_address_parsers [THEN ensures_post] ensures_post [OF named_parseAddressList]
        | simp split: list.split)+)

lemmas parse_keeps =
  ensuresD [OF named_HeaderField_Parse] ensuresD [OF named_DateField_Parse] ensuresD [OF named_AddressField_Parse]
  mimeKept_ContentType_Parse mimeKept_CTE_Parse mimeKept_ContentDisposition_Parse mimeKept_ContentLanguage_Parse

lemma Field_Name_simps [simp]:
  "Field_Name (PlainField f1) = hf_name f1" "Field_Name (AddrField f2) = hf_name f2" "Field_Name (DatField f3) = hf_name f3"
  "Field_Name (CTypeField f4) = hf_name f4" "Field_Name (CTEField f5) = hf_name f5"
  "Field_Name (CDispField f6) = hf_name f6" "Field_Name (CLangField f7) = hf_name f7"
  by (simp_all add: Field_Name_def)

lemma Field_Parse_name: "Field_Parse E s f = Inr g \<Longrightarrow> Field_Name g = Field_Name f"
  by (cases f) (auto simp: go_bind_eq_Inr mimeKept_def dest!: parse_keeps)

lemma Field_Parse_wf: "Field_Parse E s f = Inr g \<Longrightarrow> wfField f \<Longrightarrow> wfField g"
  by (cases f) (auto simp: go_bind_eq_Inr mimeKept_def dest!: parse_keeps)

lemma Field_SetUnparsedValue_keeps [simp]:
  "Field_Name (Field_SetUnparsedValue v f) = Field_Name f" "wfField (Field_SetUnparsedValue v f) = wfField f"
  by (cases f; simp)+

lemma NewHeaderFieldNamed_wf [simp]: "wfField (NewHeaderFieldNamed n)"
  by (auto simp: NewHeaderFieldNamed_def Let_def NewAddressField_def NewDateField_def NewContentType_def
      NewContentTransferEncoding_def NewContentDisposition_def NewContentLanguage_def newMIMEField_def
      newHeaderField_def HeaderField.extend_def MIMEField.extend_def wfParams_def specialFieldNames_def messageIDNames_def)

lemma NewHeaderField_shape:
  "NewHeaderField E n v = Inr f \<Longrightarrow> wfField f \<and> Field_Name f = Field_Name (NewHeaderFieldNamed n)"
  by (auto simp: NewHeaderField_def go_bind_eq_Inr split: if_splits dest: Field_Parse_name Field_Parse_wf)

text \<open>
  C14. A field that \<open>NewHeaderField\<close> makes has the struct its name asks for: the parsers keep the name and the struct
  \<open>NewHeaderFieldNamed\<close> chose, and the parameters of a MIME field have different names. The name is the name in header
  case, and that of all three date fields is Date.
\<close>

theorem NewHeaderField_typed:
  assumes "NewHeaderField E n v = Inr f"
  shows "wfField f \<and> Field_Name f =
    (if headerCase n \<in> {DateFieldName, OrigDateFieldName, ResentDateFieldName} then DateFieldName else headerCase n)"
  using NewHeaderField_shape [OF assms]
  by (auto simp: NewHeaderFieldNamed_def Let_def NewAddressField_def NewDateField_def NewContentType_def
      NewContentTransferEncoding_def NewContentDisposition_def NewContentLanguage_def newMIMEField_def
      newHeaderField_def HeaderField.extend_def MIMEField.extend_def addressFieldNames_def messageIDNames_def)

theorem NewHeaderField_typed_witness:
  "case NewHeaderField plainEnv ''content-type'' ''text/plain; charset=utf-8'' of
     Inr f \<Rightarrow> wfField f \<and> Field_Name f = ''Content-Type'' | Inl _ \<Rightarrow> False"
proof -
  define m where "m = NewHeaderField plainEnv ''content-type'' ''text/plain; charset=utf-8''"
  have "returns m" unfolding m_def by code_simp
  then obtain f where f: "m = Inr f" by (auto simp: returns_iff)
  have "headerCase ''content-type'' = ''Content-Type''" by code_simp
  with NewHeaderField_typed [OF f [unfolded m_def]] f show ?thesis by (simp add: m_def [symmetric])
qed

end
