(* ===== verification/DateLaws.thy ===== *)
theory DateLaws
  imports FieldKinds
begin

text \<open>
  Dates (\<^verbatim>\<open>fields.go\<close>): the text a Date field is printed as parses to the date it was printed from.
\<close>

section \<open>The text of a date\<close>

text \<open>The dates the format can express: no fraction of a second, and an offset of whole minutes of at most a day.\<close>

definition wfTime :: "gotime \<Rightarrow> bool" where
  "wfTime t \<longleftrightarrow>
     0 \<le> t_year t \<and> t_year t \<le> 9999 \<and> 1 \<le> t_month t \<and> t_month t \<le> 12 \<and>
     1 \<le> t_day t \<and> t_day t \<le> daysIn (t_month t) (t_year t) \<and> t_hour t < 24 \<and> t_min t < 60 \<and> t_sec t < 60 \<and>
     t_nsec t = 0 \<and> t_offset t mod 60 = 0 \<and> \<bar>t_offset t\<bar> < 25 * 3600"

lemma daysIn_le: "daysIn m y \<le> 31"
  by (simp add: daysIn_def)

lemma startsWithLower_space [simp]: "\<not> startsWithLower (CHR '' '' # s)" "\<not> startsWithLower (CHR '','' # s)"
  by (simp_all add: startsWithLower_def char_class)

lemma format_date:
  "time_Format dateFormat t =
     shortDayNames ! weekday t @ '', '' @ pad2 (t_day t) @ '' '' @ shortMonthNames ! (t_month t - 1) @ '' '' @
     pad4 (nat (t_year t)) @ '' '' @ pad2 (t_hour t) @ '':'' @ pad2 (t_min t) @ '':'' @ pad2 (t_sec t) @ '' '' @
     formatZone (t_offset t)"
  by (simp add: time_Format.simps stdChunkAt_def formatChunk_def)

section \<open>Numbers\<close>

lemma digit_char:
  assumes "n < 10"
  shows "isDigit (char_of (48 + n))" "digitVal (char_of (48 + n)) = n"
  using assms by (simp_all add: char_class less_eq_char_def digitVal_def)

lemma digits_pad [simp]: "list_all isDigit (pad2 n)" "list_all isDigit (pad4 n)"
  by (simp_all add: pad2_def pad4_def digit_char)

lemma length_pad [simp]: "length (pad2 n) = 2" "length (pad4 n) = 4"
  by (simp_all add: pad2_def pad4_def)

lemma pad2_eq: "n < 100 \<Longrightarrow> \<exists>a b. pad2 n = [a, b] \<and> isDigit a \<and> isDigit b \<and> digitVal a * 10 + digitVal b = n"
  by (simp add: pad2_def digit_char)

lemma getnum_pad2 [simp]: "n < 100 \<Longrightarrow> getnum (pad2 n @ s) fixed = Some (n, s)"
  using pad2_eq [of n] by (auto simp: getnum_def leadDigit_def)

lemma getnum_pad2_end [simp]: "n < 100 \<Longrightarrow> getnum (pad2 n) fixed = Some (n, [])"
  using getnum_pad2 [of n "[]"] by simp

lemma twoDigits_pad2 [simp]: "n < bound \<Longrightarrow> bound \<le> 100 \<Longrightarrow> twoDigits fixed bound (pad2 n @ s) = Some (n, s)"
  by (simp add: twoDigits_def)

lemma isDigit_plain: "isDigit c \<Longrightarrow> c \<noteq> CHR '' '' \<and> c \<noteq> CHR ''-'' \<and> c \<noteq> CHR ''+''"
  by (auto simp: char_class)

lemma skip_pad [simp]:
  "dropWhile (\<lambda>c. c = CHR '' '') (pad2 n @ s) = pad2 n @ s" "dropWhile (\<lambda>c. c = CHR '' '') (pad4 n @ s) = pad4 n @ s"
  using isDigit_plain digits_pad(1) [of n] digits_pad(1) [of "n div 100"] by (auto simp: pad2_def pad4_def)

lemma time_atoi_pad4 [simp]:
  assumes "n \<le> 9999"
  shows "time_atoi (pad4 n) = Some (int n)"
proof -
  obtain a b where ab: "pad2 (n div 100) = [a, b]" "isDigit a" "isDigit b" "digitVal a * 10 + digitVal b = n div 100"
    using pad2_eq [of "n div 100"] assms div_le_mono [of n 9999 100] by auto
  obtain c d where cd: "pad2 n = [c, d]" "isDigit c" "isDigit d" "digitVal c * 10 + digitVal d = n mod 100"
    using pad2_eq [of "n mod 100"] by (auto simp: pad2_def mod_mult2_eq [of n 10 10, simplified] mod_mod_cancel)
  have "int n = int (n div 100 * 100 + n mod 100)" by (simp only: div_mult_mod_eq)
  also have "\<dots> = numVal [a, b, c, d]" unfolding ab(4) [symmetric] cd(4) [symmetric] by (simp add: numVal_def)
  finally show ?thesis
    using ab cd isDigit_plain [of a] by (auto simp: time_atoi_def pad4_def)
qed

section \<open>Zones\<close>

lemma numericZone_digits:
  assumes "h \<le> 24" and "m < 60"
  shows "numericZone (c # pad2 h @ pad2 m) =
    (if c = CHR ''+'' then Some (int ((h * 60 + m) * 60)) else if c = CHR ''-'' then Some (- int ((h * 60 + m) * 60)) else None)"
  using assms by (simp add: numericZone_def)

lemma numericZone_format:
  assumes "off mod 60 = 0" and "\<bar>off\<bar> < 25 * 3600"
  shows "numericZone (formatZone off) = Some off" "length (formatZone off) = 5"
proof -
  define z where "z = nat (if off < 0 then (- off) div 60 else off div 60)"
  have dvd: "60 dvd off" using assms(1) by (rule mod_0_imp_dvd)
  have z: "int z * 60 = \<bar>off\<bar>" using dvd by (auto simp: z_def)
  then have lt: "int z < 25 * 60" using assms(2) by simp
  then have "z < 60 * 25" by simp
  then have "z div 60 < 25" by (intro less_mult_imp_div_less) simp
  then have "z div 60 \<le> 24" by simp
  note n = numericZone_digits [OF this, of "z mod 60"]
  have t: "(z div 60) * 60 + z mod 60 = z" by simp
  have "off < 0 \<Longrightarrow> z \<noteq> 0" using z by auto
  then show "numericZone (formatZone off) = Some off"
    using n z unfolding formatZone_def Let_def z_def [symmetric] t by auto
  show "length (formatZone off) = 5" by (simp add: formatZone_def Let_def)
qed

section \<open>Parsing the text\<close>

lemma parse_step:
  "nextStdChunk layout = (pre, Some k, suf) \<Longrightarrow> time_skip v pre = Some w \<Longrightarrow> parseChunk k w p = Some (v', p') \<Longrightarrow>
   parseLayout layout v p = parseLayout suf v' p'"
  by (subst parseLayout.simps) simp

lemma time_lookup_nth:
  "i < length ns \<Longrightarrow> list_all (\<lambda>n. length n = k) ns \<Longrightarrow> distinct (map (map foldBit) ns) \<Longrightarrow>
   time_lookup j ns (ns ! i @ s) = Some (j + i, s)"
proof (induction ns arbitrary: i j)
  case (Cons n ns)
  show ?case
  proof (cases i)
    case (Suc l)
    with Cons.prems have l: "l < length ns" "length (ns ! l) = k" "length n = k" by (auto simp: list_all_length)
    with Cons.prems have "map foldBit (ns ! l) \<noteq> map foldBit n"
      by (metis distinct.simps(2) image_eqI list.simps(9) list.set_map nth_mem)
    with l Suc Cons show ?thesis by auto
  qed simp
qed simp

lemma distinct_names: "distinct (map (map foldBit) shortDayNames)" "distinct (map (map foldBit) shortMonthNames)"
  by code_simp+

lemma lookup_day: "time_lookup 0 shortDayNames (shortDayNames ! weekday t @ s) = Some (weekday t, s)"
  using time_lookup_nth [of "weekday t" shortDayNames 3 0 s] distinct_names
  by (simp add: weekday_def shortDayNames_def)

lemma lookup_month:
  "Suc 0 \<le> m \<Longrightarrow> m \<le> 12 \<Longrightarrow>
   time_lookup 0 shortMonthNames (shortMonthNames ! (m - Suc 0) @ s) = Some (m - Suc 0, s)"
  using time_lookup_nth [of "m - Suc 0" shortMonthNames 3 0 s] distinct_names by (simp add: shortMonthNames_def)

abbreviation longLayout :: string where "longLayout \<equiv> ''Mon, 2 Jan 2006 15:04:05 -0700''"

lemma fraction_space [simp]: "fraction (CHR '' '' # s) = None"
  by (simp add: fraction_def)

lemma month_name:
  assumes "Suc 0 \<le> m" and "m \<le> 12"
  shows "shortMonthNames ! (m - 1) \<noteq> []" "hd (shortMonthNames ! (m - 1)) \<noteq> CHR '' ''"
proof -
  have "list_all (\<lambda>n. n \<noteq> [] \<and> hd n \<noteq> CHR '' '') shortMonthNames" by code_simp
  moreover have "m - 1 < length shortMonthNames" using assms by (simp add: shortMonthNames_def)
  ultimately show "shortMonthNames ! (m - 1) \<noteq> []" "hd (shortMonthNames ! (m - 1)) \<noteq> CHR '' ''"
    unfolding list_all_length by blast+
qed

lemma skip_month [simp]:
  "Suc 0 \<le> m \<Longrightarrow> m \<le> 12 \<Longrightarrow>
   dropWhile (\<lambda>c. c = CHR '' '') (shortMonthNames ! (m - Suc 0) @ s) = shortMonthNames ! (m - Suc 0) @ s"
  using month_name [of m] by (cases "shortMonthNames ! (m - Suc 0)") auto

lemma skip_zone [simp]: "dropWhile (\<lambda>c. c = CHR '' '') (formatZone off) = formatZone off"
  by (simp add: formatZone_def Let_def)

lemma leadDigit_pad4 [simp]: "leadDigit (pad4 n @ s)"
  using digits_pad(1) [of "n div 100"] by (simp add: leadDigit_def pad4_def pad2_def)

lemma parse_long:
  assumes "wfTime t"
  shows "parseLayout longLayout (time_Format dateFormat t) epoch =
    Some (epoch\<lparr> pt_time := t\<lparr> t_offset := 0 \<rparr>, pt_zone := Some (t_offset t) \<rparr>)"
proof -
  have day: "t_day t < 100" using assms daysIn_le [of "t_month t" "t_year t"] by (simp add: wfTime_def)
  have year: "nat (t_year t) \<le> 9999" using assms by (simp add: wfTime_def nat_le_iff)
  show ?thesis
    unfolding format_date using assms day year
    by (cases t) (simp add: wfTime_def parseLayout.simps stdChunkAt_def parseChunk_def lookup_day lookup_month numericZone_format epoch_def
        onTime_def)
qed

text \<open>The layouts without the day of the week come first; they fail on its first letter.\<close>

definition startsWithDay :: "string \<Rightarrow> bool" where
  "startsWithDay layout \<longleftrightarrow>
     (case nextStdChunk layout of (pre, k, _) \<Rightarrow> pre = [] \<and> (k = Some StdDay \<or> k = Some StdZeroDay))"

lemma layouts_split:
  "\<exists>A B. dateLayouts = A @ longLayout # B \<and> list_all startsWithDay A"
proof -
  have "dateLayouts = take 24 dateLayouts @ longLayout # drop 25 dateLayouts" by code_simp
  moreover have "list_all startsWithDay (take 24 dateLayouts)" by code_simp
  ultimately show ?thesis by blast
qed

lemma parse_needs_digit: "startsWithDay layout \<Longrightarrow> \<not> leadDigit v \<Longrightarrow> time_Parse loc layout v = None"
  by (auto simp: startsWithDay_def time_Parse_def parseLayout.simps parseChunk_def getnum_def split: prod.splits)

lemma tryLayouts_skip:
  "list_all (\<lambda>l. time_Parse (local_time E) l v = None) A \<Longrightarrow> tryLayouts E (A @ B) v = tryLayouts E B v"
  by (induction A) simp_all

lemma tryLayouts_printed:
  assumes "wfTime t"
  shows "tryLayouts E dateLayouts (time_Format dateFormat t) = Some t"
proof -
  obtain A B where ls: "dateLayouts = A @ longLayout # B" "list_all startsWithDay A"
    using layouts_split by blast
  have "list_all (\<lambda>n. n \<noteq> [] \<and> \<not> isDigit (hd n)) shortDayNames" by code_simp
  then have "shortDayNames ! weekday t \<noteq> [] \<and> \<not> isDigit (hd (shortDayNames ! weekday t))"
    by (simp add: list_all_length weekday_def shortDayNames_def)
  then have d: "\<not> leadDigit (time_Format dateFormat t)"
    unfolding format_date leadDigit_def by (simp del: append.simps)
  have "time_Parse (local_time E) longLayout (time_Format dateFormat t) = Some t"
    using parse_long [OF assms] assms by (cases t) (simp add: time_Parse_def wfTime_def zoned_def epoch_def)
  moreover have "list_all (\<lambda>l. time_Parse (local_time E) l (time_Format dateFormat t) = None) A"
    using ls(2) d by (auto simp: list_all_iff intro: parse_needs_digit)
  ultimately show ?thesis unfolding ls(1) by (simp add: tryLayouts_skip)
qed

text \<open>The text has no comments, and single spaces between its words.\<close>

lemma format_words:
  "time_Format dateFormat t =
     joinWith '' '' [shortDayNames ! weekday t @ '','', pad2 (t_day t), shortMonthNames ! (t_month t - 1),
       pad4 (nat (t_year t)), pad2 (t_hour t) @ '':'' @ pad2 (t_min t) @ '':'' @ pad2 (t_sec t),
       formatZone (t_offset t)]"
  by (simp add: format_date)

definition dateChar :: "char \<Rightarrow> bool" where
  "dateChar c \<longleftrightarrow> isText c \<and> isAsciiByte c \<and> \<not> special c"

lemma dateChar_digit: "isDigit c \<Longrightarrow> dateChar c"
  by (auto simp: dateChar_def isWsp_def isAsciiByte_nat char_class less_eq_char_def)

lemma dateChars:
  assumes "1 \<le> t_month t" and "t_month t \<le> 12"
  shows "list_all dateChar (shortDayNames ! weekday t)" "list_all dateChar (shortMonthNames ! (t_month t - 1))"
    "list_all dateChar (pad2 n)" "list_all dateChar (pad4 n)" "list_all dateChar (formatZone off)"
    "dateChar (CHR '','')" "dateChar (CHR '':'')"
proof -
  have "list_all (list_all dateChar) shortDayNames" by code_simp
  then show "list_all dateChar (shortDayNames ! weekday t)"
    by (simp add: list_all_length weekday_def shortDayNames_def)
  have "list_all (list_all dateChar) shortMonthNames" by code_simp
  moreover have "t_month t - 1 < length shortMonthNames" using assms by (simp add: shortMonthNames_def)
  ultimately show "list_all dateChar (shortMonthNames ! (t_month t - 1))"
    unfolding list_all_length [of "list_all dateChar"] by blast
  show pad: "list_all dateChar (pad2 n)" "list_all dateChar (pad4 n)" for n
    using digits_pad [of n] by (auto simp: list_all_iff dateChar_digit)
  have "dateChar (CHR ''+'')" "dateChar (CHR ''-'')" by code_simp+
  with pad show "list_all dateChar (formatZone off)" by (simp add: formatZone_def Let_def)
  show "dateChar (CHR '','')" "dateChar (CHR '':'')" by code_simp+
qed

lemma stripcomments_plain: "list_all (\<lambda>c. isAsciiByte c \<and> \<not> special c) s \<Longrightarrow> stripcomments s = s"
  using stripcomments_loop_plain [of s "[]"] by (simp add: stripcomments_ascii list_all_iff)

lemma list_all_joinWith: "list_all P sep \<Longrightarrow> list_all (list_all P) vs \<Longrightarrow> list_all P (joinWith sep vs)"
  by (induction sep vs rule: joinWith.induct) simp_all

lemma parseDate_printed:
  assumes "wfTime t"
  shows "parseDate E (time_Format dateFormat t) = Inr (Some t)"
proof -
  define ws where "ws = [shortDayNames ! weekday t @ '','', pad2 (t_day t), shortMonthNames ! (t_month t - 1),
       pad4 (nat (t_year t)), pad2 (t_hour t) @ '':'' @ pad2 (t_min t) @ '':'' @ pad2 (t_sec t),
       formatZone (t_offset t)]"
  have m: "1 \<le> t_month t" "t_month t \<le> 12" using assms by (simp_all add: wfTime_def)
  have chars: "list_all (list_all dateChar) ws" using dateChars [OF m] by (simp add: ws_def)
  have words: "list_all (\<lambda>w. w \<noteq> []) ws"
    using month_name [of "t_month t"] m by (simp add: ws_def pad2_def pad4_def formatZone_def Let_def)
  have "list_all (list_all (\<lambda>c. isAsciiByte c \<and> \<not> special c)) ws"
    using chars by (rule list.pred_mono_strong) (auto simp: dateChar_def elim: list.pred_mono_strong)
  moreover have "isAsciiByte (CHR '' '')" by code_simp
  ultimately have "list_all (\<lambda>c. isAsciiByte c \<and> \<not> special c) (joinWith '' '' ws)"
    by (intro list_all_joinWith) simp_all
  then have "stripcomments (joinWith '' '' ws) = joinWith '' '' ws" by (rule stripcomments_plain)
  moreover have "list_all (\<lambda>w. w \<noteq> [] \<and> list_all isText w) ws"
    using chars words by (auto simp: dateChar_def list_all_iff)
  then have "simplify (joinWith '' '' ws) = Inr (joinWith '' '' ws)" by (intro simplify_tidy tidy_joinWith)
  moreover have "time_Format dateFormat t = joinWith '' '' ws" by (simp only: ws_def format_words)
  ultimately show ?thesis
    using tryLayouts_printed [OF assms, of E] by (simp add: parseDate_def)
qed

text \<open>
  C19. The text of a date parses to the date: a Date field whose value is the printed form of a date of the years 0 to
  9999, with an offset of whole minutes, has that date and that value after \<open>Parse\<close>.
\<close>

theorem DateField_roundtrip:
  assumes "wfTime t"
  shows "DateField_Parse E (time_Format dateFormat t) f =
    Inr (f\<lparr> hf_value := time_Format dateFormat t, df_Date := Some t \<rparr>)"
  using parseDate_printed [OF assms] by (simp add: DateField_Parse_def)

abbreviation someDate :: gotime where
  "someDate \<equiv> \<lparr> t_year = 2024, t_month = 2, t_day = 29, t_hour = 23, t_min = 5, t_sec = 0, t_nsec = 0, t_offset = - 19800 \<rparr>"

theorem DateField_roundtrip_witness:
  "wfTime someDate \<and> DateField_Parse plainEnv (time_Format dateFormat someDate) NewDateField =
    Inr (NewDateField\<lparr> hf_value := time_Format dateFormat someDate, df_Date := Some someDate \<rparr>)"
proof -
  have "wfTime someDate" by code_simp
  with DateField_roundtrip [OF this] show ?thesis by blast
qed

end
