(* ===== verification/ParameterLaws.thy ===== *)
theory ParameterLaws
  imports FieldKinds
begin

text \<open>
  The parameters of a MIME field (\<^verbatim>\<open>fields.go\<close>) as a dictionary. The locale states what the users of
  \<open>parameter\<close>, \<open>addParameter\<close> and \<open>removeParameter\<close> rely on; it is interpreted on the three methods.
\<close>

section \<open>Dictionaries\<close>

locale dictionary =
  fixes lookup :: "'k \<Rightarrow> 's \<Rightarrow> 'v"
    and store :: "'k \<Rightarrow> 'v \<Rightarrow> 's \<Rightarrow> 's"
    and delete :: "'k \<Rightarrow> 's \<Rightarrow> 's"
    and absent :: 'v
    and ok :: "'s \<Rightarrow> bool"
    and key :: "'k \<Rightarrow> bool"
  assumes ok_store: "ok s \<Longrightarrow> key k \<Longrightarrow> ok (store k v s)"
    and ok_delete: "ok s \<Longrightarrow> key k \<Longrightarrow> ok (delete k s)"
    and lookup_store: "ok s \<Longrightarrow> key k \<Longrightarrow> key j \<Longrightarrow> lookup j (store k v s) = (if j = k then v else lookup j s)"
    and lookup_delete: "ok s \<Longrightarrow> key k \<Longrightarrow> key j \<Longrightarrow> lookup j (delete k s) = (if j = k then absent else lookup j s)"
begin

lemma lookup_stores:
  "ok s \<Longrightarrow> list_all (\<lambda>(k, v). key k) kvs \<Longrightarrow> key j \<Longrightarrow>
   lookup j (fold (\<lambda>(k, v). store k v) kvs s) = (case map_of (rev kvs) j of Some v \<Rightarrow> v | None \<Rightarrow> lookup j s)"
  by (induction kvs arbitrary: s)
    (auto simp: ok_store lookup_store map_add_def map_of_append split: option.split prod.splits)

lemma ok_stores: "ok s \<Longrightarrow> list_all (\<lambda>(k, v). key k) kvs \<Longrightarrow> ok (fold (\<lambda>(k, v). store k v) kvs s)"
  by (induction kvs arbitrary: s) (auto simp: ok_store)

lemma delete_forgets:
  "ok s \<Longrightarrow> key k \<Longrightarrow> key j \<Longrightarrow> lookup j (delete k (store k v s)) = lookup j (delete k s)"
  by (simp add: ok_store lookup_store lookup_delete)

lemma store_again: "ok s \<Longrightarrow> key k \<Longrightarrow> key j \<Longrightarrow> lookup j (store k v (store k u s)) = lookup j (store k v s)"
  by (simp add: ok_store lookup_store)

end

section \<open>The parameters of a field\<close>

lemma getParam_absent: "s \<notin> mp_Name ` set ps \<Longrightarrow> getParam s ps = []"
  by (induction ps) auto

lemma getParam_append: "getParam s (ps @ qs) = (if s \<in> mp_Name ` set ps then getParam s ps else getParam s qs)"
  by (induction ps) auto

lemma getParam_map:
  "getParam j (map (\<lambda>p. if mp_Name p = n then p\<lparr> mp_Value := v \<rparr> else p) ps) =
     (if j = n \<and> n \<in> mp_Name ` set ps then v else getParam j ps)"
  by (induction ps) auto

lemma getParam_set: "toLower E n = n \<Longrightarrow> getParam j (setParam E n v ps) = (if j = n then v else getParam j ps)"
  by (auto simp: setParam_def Let_def hasParam_iff getParam_map getParam_append getParam_absent)

lemma getParam_del: "wfParams ps \<Longrightarrow> getParam j (delParam n ps) = (if j = n then [] else getParam j ps)"
  by (induction ps) (auto simp: wfParams_def getParam_absent)

interpretation params: dictionary "parameter E" "addParameter E" "removeParameter E" "[]"
  "\<lambda>f. wfParams (mf_Parameters f)" "\<lambda>n. toLower E n = n" for E
  by unfold_locales
    (simp_all add: parameter_def addParameter_def removeParameter_def wfParams_set wfParams_del getParam_set getParam_del)



end
