(* ===== verification/Headers.thy ===== *)
theory Headers
  imports MailFields
begin

text \<open>
  The struct \<open>Header\<close> of \<^verbatim>\<open>header.go\<close>: adding, removing and looking up fields, \<open>verify\<close>, \<open>ReadHeader\<close>,
  \<open>Simplify\<close> and the printing of a header.

  \<open>Fields\<close> is a slice of interface values that hold pointers, and the methods compare pointers and change the
  fields they point to. The model gives every field of a header a reference number; a pointer to a field is
  that number, and \<open>h_fresh\<close> is the next one.
\<close>

section \<open>The struct\<close>

datatype headerMode = RFC5322Header | MIMEHeader

datatype defaultContentType = TextPlainContentType | MessageRFC822ContentType

datatype header_error =
    InvalidField string "field_error option"
  | AtMost nat string nat
  | AtLeast nat string nat

record Header =
  h_Fields :: "(nat \<times> Field) list"
  h_defaultType :: defaultContentType
  h_mode :: headerMode
  h_numBytes :: nat
  h_err :: "header_error option"
  h_verified :: bool
  h_fresh :: nat

definition newHeader :: "headerMode \<Rightarrow> Header" where
  "newHeader m =
     \<lparr> h_Fields = [], h_defaultType = TextPlainContentType, h_mode = m, h_numBytes = 0, h_err = None,
       h_verified = False, h_fresh = 0 \<rparr>"

section \<open>Looking up fields\<close>

abbreviation nameOf :: "nat \<times> Field \<Rightarrow> string" where
  "nameOf rf \<equiv> Field_Name (snd rf)"

fun nthNamed :: "string \<Rightarrow> nat \<Rightarrow> (nat \<times> Field) list \<Rightarrow> (nat \<times> Field) option" where
  "nthNamed fn n [] = None"
| "nthNamed fn n (f # fs) =
     (if nameOf f = fn then if n > 0 then nthNamed fn (n - 1) fs else Some f else nthNamed fn n fs)"

definition header_field :: "string \<Rightarrow> nat \<Rightarrow> Header \<Rightarrow> (nat \<times> Field) option" where
  "header_field fn n h = nthNamed fn n (h_Fields h)"

definition addressField :: "string \<Rightarrow> nat \<Rightarrow> Header \<Rightarrow> (nat \<times> AddressField) option" where
  "addressField fn n h =
     (if fn \<in> set addressFieldNames \<or> fn \<in> set messageIDNames then
        (case header_field fn n h of Some (r, AddrField f) \<Rightarrow> Some (r, f) | _ \<Rightarrow> None)
      else None)"

definition Header_Get :: "go_env \<Rightarrow> string \<Rightarrow> Header \<Rightarrow> string go" where
  "Header_Get E key h = (case header_field key 0 h of None \<Rightarrow> Inr [] | Some (_, f) \<Rightarrow> Field_Value E f)"

text \<open>The type assertion \<open>h.field(...).(*DateField)\<close> panics on a nil interface too.\<close>

definition Header_Date :: "Header \<Rightarrow> gotime option go" where
  "Header_Date h =
     (case header_field DateFieldName 0 h of Some (_, DatField f) \<Rightarrow> Inr (df_Date f) | _ \<Rightarrow> Inl FailedTypeAssertion)"

definition Header_Subject :: "go_env \<Rightarrow> Header \<Rightarrow> string go" where
  "Header_Subject E h = (case header_field SubjectFieldName 0 h of None \<Rightarrow> Inr [] | Some (_, f) \<Rightarrow> Field_Value E f)"

definition Header_Addresses :: "string \<Rightarrow> Header \<Rightarrow> Address list" where
  "Header_Addresses fn h = (case addressField fn 0 h of None \<Rightarrow> [] | Some (_, f) \<Rightarrow> af_Addresses f)"

definition Header_ContentType :: "Header \<Rightarrow> (nat \<times> ContentType) option go" where
  "Header_ContentType h =
     (case header_field ContentTypeFieldName 0 h of
        None \<Rightarrow> Inr None | Some (r, CTypeField f) \<Rightarrow> Inr (Some (r, f)) | _ \<Rightarrow> Inl FailedTypeAssertion)"

definition Header_CTE :: "Header \<Rightarrow> (nat \<times> ContentTransferEncoding) option go" where
  "Header_CTE h =
     (case header_field ContentTransferEncodingFieldName 0 h of
        None \<Rightarrow> Inr None | Some (r, CTEField f) \<Rightarrow> Inr (Some (r, f)) | _ \<Rightarrow> Inl FailedTypeAssertion)"

definition Header_ContentDisposition :: "Header \<Rightarrow> (nat \<times> ContentDisposition) option go" where
  "Header_ContentDisposition h =
     (case header_field ContentDispositionFieldName 0 h of
        None \<Rightarrow> Inr None | Some (r, CDispField f) \<Rightarrow> Inr (Some (r, f)) | _ \<Rightarrow> Inl FailedTypeAssertion)"

definition Header_ContentDescription :: "Header \<Rightarrow> string go" where
  "Header_ContentDescription h =
     (case header_field ContentDescriptionFieldName 0 h of
        None \<Rightarrow> Inr [] | Some (_, f) \<Rightarrow> go_bind (Field_rfc822 f False) simplify)"

definition Header_ContentLocation :: "Header \<Rightarrow> string go" where
  "Header_ContentLocation h =
     (case header_field ContentLocationFieldName 0 h of None \<Rightarrow> Inr [] | Some (_, f) \<Rightarrow> Field_rfc822 f False)"

definition Header_ContentLanguage :: "Header \<Rightarrow> (nat \<times> ContentLanguage) option go" where
  "Header_ContentLanguage h =
     (case header_field ContentLanguageFieldName 0 h of
        None \<Rightarrow> Inr None | Some (r, CLangField f) \<Rightarrow> Inr (Some (r, f)) | _ \<Rightarrow> Inl FailedTypeAssertion)"

definition Header_MessageID :: "Header \<Rightarrow> string" where
  "Header_MessageID h =
     (case Header_Addresses MessageIDFieldName h of
        [a] \<Rightarrow> ''<'' @ a_localpart a @ ''@'' @ a_domain a @ ''>'' | _ \<Rightarrow> [])"

definition Header_ToMap :: "go_env \<Rightarrow> Header \<Rightarrow> (string \<Rightarrow> string list) go" where
  "Header_ToMap E h =
     foldGo (\<lambda>(_, f) m. go_bind (Field_Value E f) (\<lambda>v. Inr (m(Field_Name f := m (Field_Name f) @ [v]))))
       (h_Fields h) (\<lambda>_. [])"

section \<open>Adding and removing fields\<close>

definition appendNew :: "Field \<Rightarrow> Header \<Rightarrow> Header" where
  "appendNew f h =
     h\<lparr> h_Fields := h_Fields h @ [(h_fresh h, f)], h_fresh := h_fresh h + 1, h_verified := False \<rparr>"

text \<open>An assignment through a pointer to a field.\<close>

definition setField :: "nat \<Rightarrow> Field \<Rightarrow> Header \<Rightarrow> Header" where
  "setField r f h = h\<lparr> h_Fields := map (\<lambda>(q, g). (q, if q = r then f else g)) (h_Fields h) \<rparr>"

definition addField :: "Field \<Rightarrow> Header \<Rightarrow> Header go" where
  "addField f h =
     (if Field_Name f \<in> {ToFieldName, CcFieldName, BccFieldName, ReplyToFieldName, FromFieldName} then
        (case f of
           AddrField next \<Rightarrow>
             (case addressField (Field_Name f) 0 h of
                Some (r, first) \<Rightarrow>
                  Inr (setField r (AddrField (first\<lparr> af_Addresses := af_Addresses first @ af_Addresses next \<rparr>)) h)
              | None \<Rightarrow> Inr (appendNew f h))
         | _ \<Rightarrow> Inl FailedTypeAssertion)
      else Inr (appendNew f h))"

definition Header_Add :: "go_env \<Rightarrow> string \<Rightarrow> string \<Rightarrow> Header \<Rightarrow> Header go" where
  "Header_Add E key value h = go_bind (NewHeaderField E key value) (\<lambda>f. addField f h)"

text \<open>
  \<open>RemoveAt\<close> slices out of range unless there is a field at the index. The loops of the methods call it inside the
  range, where its result is \<open>cutField\<close>.
\<close>

definition cutField :: "nat \<Rightarrow> Header \<Rightarrow> Header" where
  "cutField i h = h\<lparr> h_Fields := take i (h_Fields h) @ drop (i + 1) (h_Fields h) \<rparr>"

definition RemoveAt :: "int \<Rightarrow> Header \<Rightarrow> Header go" where
  "RemoveAt i h =
     (if 0 \<le> i \<and> i < int (length (h_Fields h)) then Inr (cutField (nat i) h) else Inl SliceOutOfRange)"

lemma RemoveAt_inside: "i < length (h_Fields h) \<Longrightarrow> RemoveAt (int i) h = Inr (cutField i h)"
  by (simp add: RemoveAt_def)

text \<open>The loop \<open>for i < len(h.Fields) { if p(h.Fields[i]) { h.RemoveAt(i) } else { i++ } }\<close>.\<close>

function removeLoop :: "(nat \<times> Field \<Rightarrow> bool) \<Rightarrow> nat \<Rightarrow> Header \<Rightarrow> Header" where
  "removeLoop p i h =
     (if i < length (h_Fields h) then
        if p (h_Fields h ! i) then removeLoop p i (cutField i h) else removeLoop p (i + 1) h
      else h)"
  by pat_completeness auto
termination
  by (relation "measure (\<lambda>(p, i, h). length (h_Fields h) - i)") (auto simp: cutField_def)

declare removeLoop.simps [simp del]

definition removeWhere :: "(nat \<times> Field \<Rightarrow> bool) \<Rightarrow> Header \<Rightarrow> Header" where
  "removeWhere p h = removeLoop p 0 h"

definition Header_Remove :: "nat \<Rightarrow> Header \<Rightarrow> Header" where
  "Header_Remove r h = removeWhere (\<lambda>(q, _). q = r) h"

definition RemoveAllNamed :: "go_env \<Rightarrow> string \<Rightarrow> Header \<Rightarrow> Header" where
  "RemoveAllNamed E name h = removeWhere (\<lambda>f. toLower E (nameOf f) = toLower E name) h"

section \<open>Validity\<close>

record HeaderFieldCondition =
  c_name :: string
  c_min :: nat
  c_max :: nat
  c_m :: headerMode

abbreviation cond :: "string \<Rightarrow> nat \<Rightarrow> nat \<Rightarrow> headerMode \<Rightarrow> HeaderFieldCondition" where
  "cond n lo hi m \<equiv> \<lparr> c_name = n, c_min = lo, c_max = hi, c_m = m \<rparr>"

definition conditions :: "HeaderFieldCondition list" where
  "conditions =
     [cond SenderFieldName 0 1 RFC5322Header, cond ReplyToFieldName 0 1 RFC5322Header,
      cond ToFieldName 0 1 RFC5322Header, cond CcFieldName 0 1 RFC5322Header,
      cond BccFieldName 0 1 RFC5322Header, cond MessageIDFieldName 0 1 RFC5322Header,
      cond ReferencesFieldName 0 1 RFC5322Header, cond SubjectFieldName 0 1 RFC5322Header,
      cond FromFieldName 1 1 RFC5322Header, cond DateFieldName 1 1 RFC5322Header,
      cond MIMEVersionFieldName 0 1 RFC5322Header, cond MIMEVersionFieldName 0 1 MIMEHeader,
      cond ContentTypeFieldName 0 1 RFC5322Header, cond ContentTypeFieldName 0 1 MIMEHeader,
      cond ContentTransferEncodingFieldName 0 1 RFC5322Header, cond ContentTransferEncodingFieldName 0 1 MIMEHeader,
      cond ReturnPathFieldName 0 1 RFC5322Header]"

definition occurrences :: "Header \<Rightarrow> string \<Rightarrow> nat" where
  "occurrences h n = length (filter (\<lambda>f. nameOf f = n) (h_Fields h))"

definition violated :: "Header \<Rightarrow> HeaderFieldCondition \<Rightarrow> bool" where
  "violated h c \<longleftrightarrow>
     c_m c = h_mode h \<and> occurrences h (c_name c) < c_min c \<or> occurrences h (c_name c) > c_max c"

definition conditionError :: "Header \<Rightarrow> HeaderFieldCondition \<Rightarrow> header_error" where
  "conditionError h c =
     (let n = occurrences h (c_name c)
      in if c_max c < n then AtMost n (c_name c) (c_max c) else AtLeast n (c_name c) (c_min c))"

definition verify :: "Header \<Rightarrow> Header" where
  "verify h =
     (if h_verified h then h
      else
        let h = h\<lparr> h_verified := True, h_err := None \<rparr>
        in case find (\<lambda>f. \<not> Field_Valid (snd f)) (h_Fields h) of
             Some f \<Rightarrow> h\<lparr> h_err := Some (InvalidField (nameOf f) (Field_Error (snd f))) \<rparr>
           | None \<Rightarrow> h\<lparr> h_err := map_option (conditionError h) (find (violated h) conditions) \<rparr>)"

definition Header_Valid :: "Header \<Rightarrow> bool \<times> Header" where
  "Header_Valid h = (let h = verify h in (h_err h = None, h))"

section \<open>Printing\<close>

definition appendField :: "string \<Rightarrow> Field \<Rightarrow> bool \<Rightarrow> string go" where
  "appendField buf f avoidUTF8 =
     go_bind (Field_rfc822 f avoidUTF8) (\<lambda>t. Inr (buf @ Field_Name f @ '': '' @ t @ crlf))"

definition Header_AsText :: "Header \<Rightarrow> bool \<Rightarrow> string go" where
  "Header_AsText h avoidUTF8 = foldGo (\<lambda>(_, f) buf. appendField buf f avoidUTF8) (h_Fields h) []"

end
