(* ===== verification/HeaderRepair.thy ===== *)
theory HeaderRepair
  imports Headers
begin

text \<open>
  \<open>sameAddresses\<close>, \<open>Simplify\<close> and \<open>Repair\<close> of \<^verbatim>\<open>header.go\<close>. Each paragraph of the two methods is a definition;
  the methods run them in the order of the source.
\<close>

section \<open>Comparing addresses\<close>

definition sameKey :: "go_env \<Rightarrow> Address \<Rightarrow> string" where
  "sameKey E a = a_localpart a @ ''@'' @ toTitle E (a_domain a)"

text \<open>Both maps are made from the first list.\<close>

definition sameAddresses :: "go_env \<Rightarrow> (nat \<times> AddressField) option \<Rightarrow> (nat \<times> AddressField) option \<Rightarrow> bool" where
  "sameAddresses E a b =
     (case (a, b) of
        (Some (_, a), Some (_, b)) \<Rightarrow>
          (let l = af_Addresses a; m = af_Addresses b;
               lmap = map (sameKey E) l; mmap = map (sameKey E) l
           in l \<noteq> [] \<and> m \<noteq> [] \<and> length l = length m \<and>
              list_all (\<lambda>a. sameKey E a \<in> set mmap) l \<and> list_all (\<lambda>a. sameKey E a \<in> set lmap) m)
      | _ \<Rightarrow> False)"

section \<open>Simplify\<close>

definition simplifyAddresses :: "go_env \<Rightarrow> Header \<Rightarrow> Header go" where
  "simplifyAddresses E h =
     foldGo (\<lambda>fn h.
       case addressField fn 0 h of
         None \<Rightarrow> Inr h
       | Some (r, f) \<Rightarrow>
           go_bind (Uniquify E (af_Addresses f)) (\<lambda>as. Inr (setField r (AddrField (f\<lparr> af_Addresses := as \<rparr>)) h)))
       addressFieldNames h"

text \<open>An empty field of the name goes; the result tells whether there is a field left.\<close>

definition dropEmptyDescription :: "go_env \<Rightarrow> Header \<Rightarrow> (bool \<times> Header) go" where
  "dropEmptyDescription E h =
     (case header_field ContentDescriptionFieldName 0 h of
        None \<Rightarrow> Inr (False, h)
      | Some (_, f) \<Rightarrow>
          go_bind (Field_rfc822 f False) (\<lambda>t.
          Inr (if t = [] then (False, RemoveAllNamed E ContentDescriptionFieldName h) else (True, h))))"

text \<open>The variable \<open>cte\<close> keeps its value when the field is removed.\<close>

definition dropBinaryCTE :: "go_env \<Rightarrow> Header \<Rightarrow> (bool \<times> Header) go" where
  "dropBinaryCTE E h =
     go_bind (Header_CTE h) (\<lambda>cte.
     Inr (case cte of
            None \<Rightarrow> (False, h)
          | Some (_, f) \<Rightarrow>
              (True, if cte_Encoding f = BinaryEncoding then RemoveAllNamed E ContentTransferEncodingFieldName h else h)))"

definition dropInline :: "go_env \<Rightarrow> Header \<Rightarrow> (bool \<times> Header) go" where
  "dropInline E h =
     go_bind (Header_ContentDisposition h) (\<lambda>cdi.
     case cdi of
       None \<Rightarrow> Inr (False, h)
     | Some (_, d) \<Rightarrow>
         go_bind (Header_ContentType h) (\<lambda>ct.
         Inr (if h_mode h = RFC5322Header \<and> (case ct of None \<Rightarrow> True | Some (_, ct) \<Rightarrow> ct_Type ct = ''text'') \<and>
                 cd_Disposition d = ''inline'' \<and> mf_Parameters d = []
              then (False, RemoveAllNamed E ContentDispositionFieldName h) else (True, h))))"

definition simplifyType :: "go_env \<Rightarrow> bool \<Rightarrow> bool \<Rightarrow> bool \<Rightarrow> Header \<Rightarrow> ((nat \<times> ContentType) option \<times> Header) go" where
  "simplifyType E cde cte cdi h =
     go_bind (Header_ContentType h) (\<lambda>ct.
     case ct of
       Some (r, f) \<Rightarrow>
         Inr (if mf_Parameters f = [] \<and> \<not> cte \<and> \<not> cdi \<and> \<not> cde \<and> h_defaultType h = TextPlainContentType \<and>
                 ct_Type f = ''text'' \<and> ct_Subtype f = ''plain''
              then (None, RemoveAllNamed E ContentTypeFieldName h) else (ct, h))
     | None \<Rightarrow>
         if h_defaultType h = MessageRFC822ContentType then
           go_bind (Header_Add E ''Content-Type'' ''message/rfc822'' h) (\<lambda>h.
           go_bind (Header_ContentType h) (\<lambda>ct. Inr (ct, h)))
         else Inr (None, h))"

definition simplifyVersion :: "go_env \<Rightarrow> bool \<Rightarrow> Header \<Rightarrow> Header go" where
  "simplifyVersion E mime h =
     (if h_mode h = MIMEHeader then Inr (RemoveAllNamed E MIMEVersionFieldName h)
      else if \<not> mime \<and> header_field ContentLocationFieldName 0 h = None \<and> header_field ContentBaseFieldName 0 h = None
      then Inr (RemoveAllNamed E MIMEVersionFieldName h)
      else if h_mode h = RFC5322Header \<and> header_field MIMEVersionFieldName 0 h = None
      then Header_Add E ''MIME-Version'' ''1.0'' h
      else Inr h)"

definition dropCharset :: "go_env \<Rightarrow> (nat \<times> ContentType) option \<Rightarrow> Header \<Rightarrow> Header" where
  "dropCharset E ct h =
     (case ct of
        Some (r, f) \<Rightarrow>
          if ct_Type f \<in> {''multipart'', ''message'', ''image'', ''audio'', ''video''}
          then setField r (CTypeField (removeParameter E ''charset'' f)) h else h
      | None \<Rightarrow> h)"

definition dropErrorsTo :: "go_env \<Rightarrow> Header \<Rightarrow> Header go" where
  "dropErrorsTo E h =
     (case header_field ErrorsToFieldName 0 h of
        None \<Rightarrow> Inr h
      | Some (_, f) \<Rightarrow>
          go_bind (Field_Value E f) (\<lambda>v.
          let et = ascii v
          in case Header_Addresses ReturnPathFieldName h of
               [a] \<Rightarrow>
                 go_bind (lpdomain a) (\<lambda>t.
                 Inr (if toLower E t = toLower E et then RemoveAllNamed E ErrorsToFieldName h else h))
             | _ \<Rightarrow> Inr h))"

definition dropEmptyMessageID :: "go_env \<Rightarrow> Header \<Rightarrow> Header go" where
  "dropEmptyMessageID E h =
     (case header_field MessageIDFieldName 0 h of
        None \<Rightarrow> Inr h
      | Some (_, f) \<Rightarrow>
          go_bind (Field_rfc822 f False) (\<lambda>t. Inr (if t = [] then RemoveAllNamed E MessageIDFieldName h else h)))"

definition dropSame :: "go_env \<Rightarrow> string \<Rightarrow> Header \<Rightarrow> Header" where
  "dropSame E name h =
     (if sameAddresses E (addressField FromFieldName 0 h) (addressField name 0 h) then RemoveAllNamed E name h else h)"

definition dropEmpty :: "go_env \<Rightarrow> string \<Rightarrow> Header \<Rightarrow> Header" where
  "dropEmpty E name h = (if Header_Addresses name h = [] then RemoveAllNamed E name h else h)"

definition emptyNames :: "string list" where
  "emptyNames = [SenderFieldName, ReturnPathFieldName, ToFieldName, CcFieldName, BccFieldName, ReplyToFieldName]"

definition Header_Simplify :: "go_env \<Rightarrow> Header \<Rightarrow> Header go" where
  "Header_Simplify E h =
     (let (valid, h) = Header_Valid h
      in if \<not> valid then Inr h
         else
           go_bind (simplifyAddresses E h) (\<lambda>h.
           go_bind (dropEmptyDescription E h) (\<lambda>(cde, h).
           go_bind (dropBinaryCTE E h) (\<lambda>(cte, h).
           go_bind (dropInline E h) (\<lambda>(cdi, h).
           go_bind (simplifyType E cde cte cdi h) (\<lambda>(ct, h).
           go_bind (simplifyVersion E (ct \<noteq> None \<or> cte \<or> cde \<or> cdi) h) (\<lambda>h.
           go_bind (dropErrorsTo E (dropCharset E ct h)) (\<lambda>h.
           go_bind (dropEmptyMessageID E h) (\<lambda>h.
           Inr (fold (dropEmpty E) emptyNames (dropSame E SenderFieldName (dropSame E ReplyToFieldName h))))))))))))"

section \<open>Repair\<close>

text \<open>
  The fields after the first of a name that print like the first are removed; \<open>seen\<close> tells whether the first
  has been passed.
\<close>

fun withoutCopies :: "string \<Rightarrow> Field \<Rightarrow> bool \<Rightarrow> (nat \<times> Field) list \<Rightarrow> (nat \<times> Field) list go" where
  "withoutCopies name hf seen [] = Inr []"
| "withoutCopies name hf seen (f # fs) =
     (if nameOf f = name then
        go_bind (if seen
                 then go_bind (Field_rfc822 hf False) (\<lambda>t. go_bind (Field_rfc822 (snd f) False) (\<lambda>u. Inr (t = u)))
                 else Inr False) (\<lambda>copy.
        go_bind (withoutCopies name hf True fs) (\<lambda>fs. Inr (if copy then fs else f # fs)))
      else go_bind (withoutCopies name hf seen fs) (\<lambda>fs. Inr (f # fs)))"

definition removeCopies :: "(string \<Rightarrow> nat) \<Rightarrow> Header \<Rightarrow> Header go" where
  "removeCopies occ h =
     foldGo (\<lambda>c h.
       if c_m c = h_mode h \<and> occ (c_name c) > c_max c then
         (case header_field (c_name c) 0 h of
            None \<Rightarrow> Inr h
          | Some (_, hf) \<Rightarrow>
              go_bind (withoutCopies (c_name c) hf False (h_Fields h)) (\<lambda>fs. Inr (h\<lparr> h_Fields := fs \<rparr>)))
       else Inr h) conditions h"

text \<open>
  Several Content-Type fields that agree, where one has parameters: \<open>goodType\<close> goes through them and returns
  the one with parameters; \<open>None\<close> stands for the flag \<open>bad\<close>. When the flag is set, the loop asserts the type of one
  more field before it ends.
\<close>

definition badType :: "(nat \<times> Field) list \<Rightarrow> nat option option go" where
  "badType fs =
     (case fs of
        [] \<Rightarrow> Inr None
      | (_, f) # _ \<Rightarrow> (case f of CTypeField _ \<Rightarrow> Inr None | _ \<Rightarrow> Inl FailedTypeAssertion))"

fun goodType :: "ContentType \<Rightarrow> nat option \<Rightarrow> (nat \<times> Field) list \<Rightarrow> nat option option go" where
  "goodType ct good [] = Inr (Some good)"
| "goodType ct good ((r, f) # fs) =
     (case f of
        CTypeField other \<Rightarrow>
          if ct_Type other \<noteq> ct_Type ct \<or> ct_Subtype other \<noteq> ct_Subtype ct then badType fs
          else if mf_Parameters other \<noteq> [] then if good \<noteq> None then badType fs else goodType ct (Some r) fs
          else goodType ct good fs
      | _ \<Rightarrow> Inl FailedTypeAssertion)"

definition mergeTypes :: "(string \<Rightarrow> nat) \<Rightarrow> Header \<Rightarrow> Header go" where
  "mergeTypes occ h =
     (if occ ContentTypeFieldName > 1 then
        go_bind (Header_ContentType h) (\<lambda>ct.
        case ct of
          None \<Rightarrow> Inr h
        | Some (_, ct) \<Rightarrow>
            go_bind (goodType ct None (filter (\<lambda>f. nameOf f = ContentTypeFieldName) (h_Fields h))) (\<lambda>good.
            Inr (case good of
                   Some (Some r) \<Rightarrow> removeWhere (\<lambda>f. nameOf f = ContentTypeFieldName \<and> fst f \<noteq> r) h
                 | _ \<Rightarrow> h)))
      else Inr h)"

definition singleNames :: "string list" where
  "singleNames = [DateFieldName, ReturnPathFieldName, MessageIDFieldName, ContentTypeFieldName, ReferencesFieldName]"

definition keepFirstValid :: "(string \<Rightarrow> nat) \<Rightarrow> string \<Rightarrow> Header \<Rightarrow> Header" where
  "keepFirstValid occ name h =
     (if occ name > 1 \<and> name \<in> set singleNames then
        (case find (\<lambda>f. nameOf f = name \<and> Field_Valid (snd f)) (h_Fields h) of
           None \<Rightarrow> h
         | Some (r, _) \<Rightarrow>
             removeWhere (\<lambda>f. nameOf f = name \<and> fst f \<noteq> r \<and>
               (name \<noteq> ContentTypeFieldName \<or> \<not> Field_Valid (snd f))) h)
      else h)"

definition mergeVersions :: "go_env \<Rightarrow> (string \<Rightarrow> nat) \<Rightarrow> Header \<Rightarrow> Header go" where
  "mergeVersions E occ h =
     (case header_field MIMEVersionFieldName 1 h of
        None \<Rightarrow> Inr h
      | Some (r, _) \<Rightarrow>
          (let h = Header_Remove r h
           in case header_field MIMEVersionFieldName 0 h of
                None \<Rightarrow> Inl NilDereference
              | Some (r, f) \<Rightarrow>
                  go_bind (Field_Parse E (''1.0 (Note: original message contained '' @ itoa (occ MIMEVersionFieldName) @
                                          '' MIME-Version fields)'') f) (\<lambda>f. Inr (setField r f h))))"

text \<open>The condition reads \<open>ct != nil && multipart || message\<close>, so it dereferences a nil pointer.\<close>

definition dropMultipartCTE :: "go_env \<Rightarrow> (string \<Rightarrow> nat) \<Rightarrow> Header \<Rightarrow> Header go" where
  "dropMultipartCTE E occ h =
     (if occ ContentTransferEncodingFieldName > 0 then
        go_bind (Header_ContentType h) (\<lambda>ct.
        case ct of
          None \<Rightarrow> Inl NilDereference
        | Some (_, ct) \<Rightarrow>
            Inr (if ct_Type ct = ''multipart'' \<or> ct_Type ct = ''message''
                 then RemoveAllNamed E ContentTransferEncodingFieldName h else h))
      else Inr h)"

text \<open>
  The list of senders is made from the From field too, and the loop that looks for a difference has the condition
  \<open>difference\<close>, which is false: the field is always removed, once the From addresses have been printed.
\<close>

definition dropSender :: "go_env \<Rightarrow> (string \<Rightarrow> nat) \<Rightarrow> Header \<Rightarrow> Header go" where
  "dropSender E occ h =
     (if occ SenderFieldName > 0 \<and> length (Header_Addresses SenderFieldName h) \<noteq> 1 then
        go_bind (mapGo lpdomain (Header_Addresses FromFieldName h)) (\<lambda>from.
        go_bind (mapGo lpdomain (Header_Addresses FromFieldName h)) (\<lambda>sender.
        Inr (RemoveAllNamed E SenderFieldName h)))
      else Inr h)"

definition Header_Repair :: "go_env \<Rightarrow> Header \<Rightarrow> Header go" where
  "Header_Repair E h =
     (let (valid, h) = Header_Valid h;
          occ = occurrences h
      in if valid then Inr h
         else
           go_bind (removeCopies occ h) (\<lambda>h.
           go_bind (mergeTypes occ h) (\<lambda>h.
           let h = fold (keepFirstValid occ) fieldNames h
           in go_bind (mergeVersions E occ h) (\<lambda>h.
              go_bind (dropMultipartCTE E occ h) (\<lambda>h.
              dropSender E occ h)))))"

end
