(* ===== verification/HeaderReader.thy ===== *)
theory HeaderReader
  imports Headers
begin

text \<open>
  \<open>ReadHeader\<close> of \<^verbatim>\<open>header.go\<close>: the loop over the lines of a header. One round is \<open>headerLine\<close>; the loop is
  \<open>readLines\<close>, which ends because every round that goes on has moved ahead.
\<close>

definition skipBOM :: "string \<Rightarrow> nat \<Rightarrow> nat" where
  "skipBOM s i =
     (if i + 2 < length s \<and> s ! i = CHR 0xEF \<and> s ! (i + 1) = CHR 0xBB \<and> s ! (i + 2) = CHR 0xBF
      then i + 3 else i)"

definition isNameChar :: "char \<Rightarrow> bool" where
  "isNameChar c \<longleftrightarrow> CHR ''!'' \<le> c \<and> c \<le> CHR 0x7F \<and> c \<noteq> CHR '':''"

text \<open>A loop \<open>for p(s[i]) { i++ }\<close> without a bound.\<close>

definition scanIdx :: "('a \<Rightarrow> bool) \<Rightarrow> 'a list \<Rightarrow> nat \<Rightarrow> nat go" where
  "scanIdx p s i = (let j = scanWhile p s i in if j < length s then Inr j else Inl IndexOutOfRange)"

lemma scanIdx_step: "scanIdx p s i = go_bind (idx s i) (\<lambda>c. if p c then scanIdx p s (i + 1) else Inr i)"
  by (subst scanIdx_def, subst scanWhile_step) (auto simp: scanIdx_def Let_def)

text \<open>The line of an mbox separator.\<close>

definition fromLine :: "string \<Rightarrow> nat \<Rightarrow> nat go" where
  "fromLine s i =
     (let i = scanWhile (\<lambda>c. c \<noteq> CR \<and> c \<noteq> LF) s i
      in go_bind (scanIdx (\<lambda>c. c = CR) s i) (\<lambda>i.
         go_bind (idx s i) (\<lambda>c. Inr (if c = LF then i + 1 else i))))"

text \<open>The end of a value: the first line feed that no blank follows.\<close>

function valueEnd :: "string \<Rightarrow> nat \<Rightarrow> nat" where
  "valueEnd s j =
     (if j < length s \<and> (s ! j \<noteq> LF \<or> (j + 1 < length s \<and> (s ! (j + 1) = CHR '' '' \<or> s ! (j + 1) = CHR 0x09)))
      then valueEnd s (j + 1) else j)"
  by pat_completeness auto
termination by (relation "measure (\<lambda>(s, j). length s - j)") auto

declare valueEnd.simps [simp del]

definition valueStop :: "string \<Rightarrow> nat \<Rightarrow> nat" where
  "valueStop s i = (let j = valueEnd s i in if j > 0 \<and> s ! (j - 1) = CR then j - 1 else j)"

definition nextLine :: "string \<Rightarrow> nat \<Rightarrow> nat" where
  "nextLine s j = (if j + 1 < length s \<and> s ! j = CR \<and> s ! (j + 1) = LF then j + 1 else j) + 1"

definition fieldLine :: "go_env \<Rightarrow> string \<Rightarrow> nat \<Rightarrow> nat \<Rightarrow> Header \<Rightarrow> (nat \<times> Header) go" where
  "fieldLine E s i j h =
     (let name = take (j - i) (drop i s)
      in go_bind (scanIdx (\<lambda>c. c = CHR '' '' \<or> c = CHR 0x09) s (j + 1)) (\<lambda>i.
         let j = valueStop s i
         in go_bind (substr s i j) (\<lambda>value.
            go_bind (simplify value) (\<lambda>t.
            go_bind (if t \<noteq> [] \<or> hasPrefix (toLower E name) ''x-'' then Header_Add E name value h else Inr h) (\<lambda>h.
            Inr (nextLine s j, h))))))"

text \<open>One round: whether the loop goes on, the new position and the header.\<close>

definition headerLine :: "go_env \<Rightarrow> string \<Rightarrow> nat \<Rightarrow> Header \<Rightarrow> (bool \<times> nat \<times> Header) go" where
  "headerLine E s i h =
     (let i = skipBOM s i;
          j = scanWhile isNameChar s i
      in go_bind (if j = i + 4 \<and> h_mode h = RFC5322Header
                  then go_bind (substr s i (j + 1)) (\<lambda>t. Inr (toLower E t = ''from ''))
                  else Inr False) (\<lambda>isFrom.
         if isFrom then go_bind (fromLine s i) (\<lambda>i. Inr (True, i, h))
         else go_bind (if j > i then go_bind (idx s j) (\<lambda>c. Inr (c = CHR '':'')) else Inr False) (\<lambda>isField.
              if isField then go_bind (fieldLine E s i j h) (\<lambda>(i, h). Inr (True, i, h))
              else Inr (False, i, h))))"

section \<open>Progress\<close>

lemma skipBOM_ge: "i \<le> skipBOM s i"
  by (simp add: skipBOM_def)

lemma valueEnd_ge: "j \<le> valueEnd s j"
proof (induction s j rule: valueEnd.induct)
  case (1 s j)
  then show ?case by (subst valueEnd.simps) (auto dest: Suc_leD)
qed

lemma scanIdx_ge: "scanIdx p s i = Inr j \<Longrightarrow> i \<le> j"
  using scanWhile_ge [of i p s] by (auto simp: scanIdx_def Let_def split: if_splits)

lemma substr_le: "substr s a b = Inr t \<Longrightarrow> a \<le> b \<and> b \<le> length s"
  by (auto simp: substr_def split: if_splits)

lemma nextLine_gt: "j < nextLine s j"
  by (simp add: nextLine_def)

lemma fieldLine_moves:
  assumes "fieldLine E s i j h = Inr (k, h')"
  shows "j < k"
proof -
  obtain a v where a: "scanIdx (\<lambda>c. c = CHR '' '' \<or> c = CHR 0x09) s (j + 1) = Inr a"
    and v: "substr s a (valueStop s a) = Inr v" and k: "k = nextLine s (valueStop s a)"
    using assms by (auto simp only: fieldLine_def Let_def go_bind_eq_Inr prod.inject sum.inject)
  with scanIdx_ge [OF a] substr_le [OF v] nextLine_gt [of "valueStop s a" s] show ?thesis by simp
qed

lemma scanWhile_mono:
  assumes "\<And>c. p c \<Longrightarrow> q c"
  shows "scanWhile p s i \<le> scanWhile q s i"
proof -
  have "length (takeWhile p t) \<le> length (takeWhile q t)" for t
    using assms by (induction t) auto
  then show ?thesis by (simp add: scanWhile_def)
qed

lemma fromLine_moves:
  assumes "scanWhile isNameChar s i = i + 4" and "fromLine s i = Inr k"
  shows "i < k"
proof -
  have "i + 4 \<le> scanWhile (\<lambda>c. c \<noteq> CR \<and> c \<noteq> LF) s i"
    using assms(1) scanWhile_mono [of isNameChar "\<lambda>c. c \<noteq> CR \<and> c \<noteq> LF" s i] by (force simp: isNameChar_def)
  moreover obtain a where "scanIdx (\<lambda>c. c = CR) s (scanWhile (\<lambda>c. c \<noteq> CR \<and> c \<noteq> LF) s i) = Inr a" "a \<le> k"
    using assms(2) by (auto simp: fromLine_def Let_def go_bind_eq_Inr split: if_splits)
  ultimately show ?thesis by (auto dest!: scanIdx_ge)
qed

lemma scanWhile_inside: "i < scanWhile p s i \<Longrightarrow> i < length s"
  by (cases "i < length s") (simp_all add: scanWhile_def)

lemma headerLine_moves:
  assumes "headerLine E s i h = Inr (True, k, h')"
  shows "i < k \<and> i < length s"
proof -
  define a where "a = skipBOM s i"
  define j where "j = scanWhile isNameChar s a"
  have ia: "i \<le> a" by (simp add: a_def skipBOM_ge)
  consider "j = a + 4" "fromLine s a = Inr k" | "a < j" "fieldLine E s a j h = Inr (k, h')"
    using assms by (auto simp: headerLine_def Let_def a_def j_def go_bind_eq_Inr split: if_splits)
  then have "a < k \<and> a < j"
  proof cases
    case 1
    with fromLine_moves [of s a k] show ?thesis by (simp add: j_def)
  next
    case 2
    with fieldLine_moves [OF 2(2)] show ?thesis by simp
  qed
  with ia scanWhile_inside [of a isNameChar s] show ?thesis by (simp add: j_def)
qed

section \<open>The loop\<close>

function readLines :: "go_env \<Rightarrow> string \<Rightarrow> nat \<Rightarrow> Header \<Rightarrow> (nat \<times> Header) go" where
  "readLines E s i h =
     go_bind (headerLine E s i h) (\<lambda>(more, i, h). if more then readLines E s i h else Inr (i, h))"
  by pat_completeness auto
termination
proof (relation "measure (\<lambda>(E, s, i, h). length s - i)", goal_cases)
  case (2 E s i h x more r k h')
  then have "headerLine E s i h = Inr (True, k, h')" by simp
  from headerLine_moves [OF this] show ?case by (simp add: diff_less_mono2)
qed simp

declare readLines.simps [simp del]

definition ReadHeader :: "go_env \<Rightarrow> string \<Rightarrow> headerMode \<Rightarrow> Header go" where
  "ReadHeader E s m =
     go_bind (readLines E s 0 (newHeader m)) (\<lambda>(i, h).
     let i = (if i + 1 < length s \<and> s ! i = CR \<and> s ! (i + 1) = LF then i + 2
              else if i < length s \<and> s ! i = LF then i + 1 else i)
     in Inr (h\<lparr> h_numBytes := i \<rparr>))"

end
