(* ===== verification/HeaderLaws.thy ===== *)
theory HeaderLaws
  imports HeaderRepair HeaderReader FieldKinds
begin

text \<open>
  The laws of the struct \<open>Header\<close> (\<^verbatim>\<open>header.go\<close>): the loops that remove fields are filters, the invariant of a
  header, that adding and removing fields keeps it, and what \<open>verify\<close> decides.
\<close>

section \<open>Removing fields\<close>

lemma removeLoop_filter:
  "i \<le> length (h_Fields h) \<Longrightarrow>
   removeLoop p i h = h\<lparr> h_Fields := take i (h_Fields h) @ filter (\<lambda>f. \<not> p f) (drop i (h_Fields h)) \<rparr>"
proof (induction p i h rule: removeLoop.induct)
  case (1 p i h)
  show ?case
  proof (cases "i < length (h_Fields h)")
    case True
    then have d: "drop i (h_Fields h) = h_Fields h ! i # drop (Suc i) (h_Fields h)" by (rule drop_eq_Cons_nth)
    show ?thesis
      using 1 True d by (subst removeLoop.simps) (auto simp: cutField_def take_Suc_conv_app_nth)
  next
    case False
    with 1(3) show ?thesis by (subst removeLoop.simps) simp
  qed
qed

lemma removeWhere_filter: "removeWhere p h = h\<lparr> h_Fields := filter (\<lambda>f. \<not> p f) (h_Fields h) \<rparr>"
  by (simp add: removeWhere_def removeLoop_filter)

section \<open>The invariant\<close>

text \<open>
  The fields are well formed, and no two are at the same address. A plain header has no Content-Type field, and its
  default is text/plain; \<open>hinv t\<close> says of a header that was plain at first, as \<open>t\<close> tells, that it still is.
\<close>

definition wfHeader :: "Header \<Rightarrow> bool" where
  "wfHeader h \<longleftrightarrow> list_all (\<lambda>f. wfField (snd f)) (h_Fields h) \<and> distinct (map fst (h_Fields h)) \<and>
     list_all (\<lambda>f. fst f < h_fresh h) (h_Fields h)"

definition plainHeader :: "Header \<Rightarrow> bool" where
  "plainHeader h \<longleftrightarrow> h_defaultType h = TextPlainContentType \<and>
     list_all (\<lambda>f. nameOf f \<noteq> ContentTypeFieldName) (h_Fields h)"

definition hinv :: "bool \<Rightarrow> Header \<Rightarrow> bool" where
  "hinv t h \<longleftrightarrow> wfHeader h \<and> (t \<longrightarrow> plainHeader h)"

lemmas hinv_defs = hinv_def wfHeader_def plainHeader_def

lemma hinv_newHeader [simp]: "hinv t (newHeader m)"
  by (simp add: hinv_defs newHeader_def)

lemma hinv_wf: "hinv t h \<Longrightarrow> wfHeader h"
  by (simp add: hinv_def)

lemma hinv_updates [simp]:
  "hinv t (h\<lparr> h_numBytes := n \<rparr>) = hinv t h" "hinv t (h\<lparr> h_verified := b \<rparr>) = hinv t h" "hinv t (h\<lparr> h_err := e \<rparr>) = hinv t h"
  by (simp_all add: hinv_defs)

lemma hinv_filter: "hinv t h \<Longrightarrow> hinv t (h\<lparr> h_Fields := filter P (h_Fields h) \<rparr>)"
  by (auto simp: hinv_defs list_all_iff distinct_map_filter)

lemma hinv_removals [simp]:
  "hinv t h \<Longrightarrow> hinv t (removeWhere p h)" "hinv t h \<Longrightarrow> hinv t (Header_Remove r h)"
  "hinv t h \<Longrightarrow> hinv t (RemoveAllNamed E n h)"
  by (simp_all add: removeWhere_filter hinv_filter Header_Remove_def RemoveAllNamed_def)

lemma hinv_verify [simp]: "hinv t h \<Longrightarrow> hinv t (verify h)"
  by (simp add: verify_def Let_def split: option.split)

lemma hinv_appendNew:
  "hinv t h \<Longrightarrow> wfField f \<Longrightarrow> (t \<Longrightarrow> Field_Name f \<noteq> ContentTypeFieldName) \<Longrightarrow> hinv t (appendNew f h)"
  by (auto simp: hinv_defs appendNew_def list_all_iff)

lemma hinv_setField:
  assumes "hinv t h" and "wfField f" and "t \<Longrightarrow> Field_Name f \<noteq> ContentTypeFieldName"
  shows "hinv t (setField r f h)"
proof -
  have "map fst (h_Fields (setField r f h)) = map fst (h_Fields h)"
    by (simp add: setField_def case_prod_unfold comp_def)
  with assms show ?thesis
    by (auto simp: hinv_defs setField_def list_all_iff case_prod_unfold comp_def)
qed

section \<open>Looking up fields\<close>

lemma nthNamed_Some: "nthNamed n k fs = Some f \<Longrightarrow> f \<in> set fs \<and> nameOf f = n"
  by (induction n k fs rule: nthNamed.induct) (auto split: if_splits)

lemma header_field_Some: "header_field n k h = Some (r, f) \<Longrightarrow> (r, f) \<in> set (h_Fields h) \<and> Field_Name f = n"
  unfolding header_field_def by (auto dest: nthNamed_Some)

lemma hinv_field: "hinv t h \<Longrightarrow> (r, f) \<in> set (h_Fields h) \<Longrightarrow> wfField f"
  by (auto simp: hinv_defs list_all_iff)

lemma hinv_header_field: "hinv t h \<Longrightarrow> header_field n k h = Some (r, f) \<Longrightarrow> wfField f \<and> Field_Name f = n"
  using header_field_Some hinv_field by blast

lemma wfField_kinds:
  "wfField f \<Longrightarrow> Field_Name f = ContentTypeFieldName \<Longrightarrow> \<exists>c. f = CTypeField c \<and> wfParams (mf_Parameters c)"
  "wfField f \<Longrightarrow> Field_Name f = ContentTransferEncodingFieldName \<Longrightarrow> \<exists>c. f = CTEField c \<and> wfParams (mf_Parameters c)"
  "wfField f \<Longrightarrow> Field_Name f = ContentDispositionFieldName \<Longrightarrow> \<exists>c. f = CDispField c \<and> wfParams (mf_Parameters c)"
  "wfField f \<Longrightarrow> Field_Name f = ContentLanguageFieldName \<Longrightarrow> \<exists>c. f = CLangField c \<and> wfParams (mf_Parameters c)"
  "wfField f \<Longrightarrow> Field_Name f = DateFieldName \<Longrightarrow> \<exists>d. f = DatField d"
  "wfField f \<Longrightarrow> Field_Name f \<in> set addressFieldNames \<union> set messageIDNames \<Longrightarrow> \<exists>a. f = AddrField a"
  by (cases f; auto simp: specialFieldNames_def addressFieldNames_def messageIDNames_def)+

lemma plain_no_type: "hinv t h \<Longrightarrow> t \<Longrightarrow> header_field ContentTypeFieldName k h = None"
  using header_field_Some [of ContentTypeFieldName k h]
  by (cases "header_field ContentTypeFieldName k h") (fastforce simp: hinv_defs list_all_iff)+

lemma Header_ContentType_wf:
  assumes "hinv t h"
  shows "ensures (\<lambda>_. False) (Header_ContentType h)
    (\<lambda>ct. case ct of None \<Rightarrow> True | Some (r, f) \<Rightarrow> \<not> t \<and> wfField (CTypeField f))"
  using hinv_header_field [OF assms, of ContentTypeFieldName 0] plain_no_type [OF assms, of 0]
  by (auto simp: Header_ContentType_def split: option.split dest!: wfField_kinds(1))

lemma Header_CTE_wf:
  assumes "hinv t h"
  shows "ensures (\<lambda>_. False) (Header_CTE h) (\<lambda>c. case c of None \<Rightarrow> True | Some (r, f) \<Rightarrow> wfField (CTEField f))"
  using hinv_header_field [OF assms, of ContentTransferEncodingFieldName 0]
  by (auto simp: Header_CTE_def split: option.split dest!: wfField_kinds(2))

lemma Header_ContentDisposition_wf:
  assumes "hinv t h"
  shows "ensures (\<lambda>_. False) (Header_ContentDisposition h)
    (\<lambda>c. case c of None \<Rightarrow> True | Some (r, f) \<Rightarrow> wfField (CDispField f))"
  using hinv_header_field [OF assms, of ContentDispositionFieldName 0]
  by (auto simp: Header_ContentDisposition_def split: option.split dest!: wfField_kinds(3))

lemma Header_ContentLanguage_wf:
  assumes "hinv t h"
  shows "ensures (\<lambda>_. False) (Header_ContentLanguage h)
    (\<lambda>c. case c of None \<Rightarrow> True | Some (r, f) \<Rightarrow> wfField (CLangField f))"
  using hinv_header_field [OF assms, of ContentLanguageFieldName 0]
  by (auto simp: Header_ContentLanguage_def split: option.split dest!: wfField_kinds(4))

lemma addressField_wf: "hinv t h \<Longrightarrow> addressField n k h = Some (r, f) \<Longrightarrow> wfField (AddrField f) \<and> hf_name f = n"
  using hinv_header_field [of t h n k]
  by (auto simp: addressField_def split: if_splits option.splits Field.splits)

section \<open>Adding fields\<close>

lemma addField_wf:
  assumes "hinv t h" and "wfField f" and "t \<Longrightarrow> Field_Name f \<noteq> ContentTypeFieldName"
  shows "ensures (\<lambda>_. False) (addField f h) (hinv t)"
proof (cases "Field_Name f \<in> {ToFieldName, CcFieldName, BccFieldName, ReplyToFieldName, FromFieldName}")
  case True
  then obtain a where a: "f = AddrField a" using wfField_kinds(6) [OF assms(2)] by (auto simp: addressFieldNames_def)
  have new: "hinv t (appendNew f h)" using assms by (rule hinv_appendNew)
  have "hinv t (setField r (AddrField (b\<lparr> af_Addresses := as \<rparr>)) h)" if "addressField (hf_name a) 0 h = Some (r, b)" for r b as
    using addressField_wf [OF assms(1) that] assms True by (intro hinv_setField) (auto simp: a)
  then show ?thesis using True new a by (auto simp: addField_def split: option.split)
next
  case False
  with assms show ?thesis by (simp add: addField_def hinv_appendNew)
qed

lemma Field_Name_NewHeaderField:
  "NewHeaderField E n v = Inr f \<Longrightarrow> Field_Name f = ContentTypeFieldName \<Longrightarrow> headerCase n = ContentTypeFieldName"
  using NewHeaderField_shape [of E n v f]
  by (auto simp: NewHeaderFieldNamed_def Let_def NewAddressField_def NewDateField_def newMIMEField_def newHeaderField_def
      NewContentTransferEncoding_def NewContentDisposition_def NewContentLanguage_def HeaderField.extend_def
      MIMEField.extend_def split: if_splits)

lemma Header_Add_wf:
  assumes "asciiConverter E" and "hinv t h" and "t \<Longrightarrow> headerCase n \<noteq> ContentTypeFieldName"
  shows "ensures rangeFault (Header_Add E n v h) (hinv t)"
proof -
  have "ensures rangeFault (addField f h) (hinv t)" if f: "NewHeaderField E n v = Inr f" for f
    using NewHeaderField_shape [OF f] Field_Name_NewHeaderField [OF f] assms(2,3)
    by (intro ensures_mono [OF addField_wf]) auto
  then show ?thesis
    unfolding Header_Add_def using assms(1) by (intro ensures_bind) (rule ensures_tame, auto)
qed

section \<open>Printing fields\<close>

lemma tame_wrap_back [simp]: "tame (wrap_back buf i)"
proof (induction buf i rule: wrap_back.induct)
  case (1 buf i)
  show ?case by (subst wrap_back.simps, intro tame_rules 1) simp_all
qed

lemma tame_wrap_skip [simp]: "tame (wrap_skip buf i)"
proof (induction buf i rule: wrap_skip.induct)
  case (1 buf i)
  show ?case by (subst wrap_skip.simps, intro tame_rules 1) simp_all
qed

lemma tame_wrap_loop [simp]: "tame (wrap_loop s n p e buf l k)"
proof (induction s arbitrary: buf l k)
  case (Cons c s)
  show ?case by (subst wrap_loop.simps, unfold wrap_break_def, intro tame_rules Cons.IH) simp_all
qed simp

lemma tame_wrap [simp]: "tame (wrap s n f p e)"
  by (simp add: wrap_def)

lemma tame_listAddresses [simp]: "tame (listAddresses angle wsep lsep lpos u first c s as)"
proof (induction as arbitrary: first c s)
  case (Cons a as)
  show ?case by (subst listAddresses.simps, intro tame_rules Cons.IH) simp_all
qed simp

lemma tame_AddressField_rfc822 [simp]: "tame (AddressField_rfc822 f b)"
  unfolding AddressField_rfc822_def wrappedValue_def by (intro tame_rules; simp)

lemma tame_HeaderField_rfc822 [simp]: "tame (HeaderField_rfc822 f b)"
  by (simp add: HeaderField_rfc822_def)

lemma tame_Field_rfc822 [simp]: "tame (Field_rfc822 f b)"
  by (cases f) simp_all

lemma tame_Field_Value [simp]: "tame (Field_Value E f)"
  by (cases f) (simp_all add: AddressField_Value_def)

lemma tame_foldGo: "(\<And>x s. tame (f x s)) \<Longrightarrow> tame (foldGo f xs s)"
  by (induction xs arbitrary: s) (auto intro: tame_bind)

lemma tame_mapGo: "(\<And>x. tame (f x)) \<Longrightarrow> tame (mapGo f xs)"
  by (induction xs) (auto intro!: tame_bind)

lemma tame_Header_AsText [simp]: "tame (Header_AsText h b)"
  unfolding Header_AsText_def appendField_def by (intro tame_foldGo) (simp add: case_prod_unfold)

end
