(* ===== verification/ReaderLaws.thy ===== *)
theory ReaderLaws
  imports HeaderLaws
begin

text \<open>
  \<open>ReadHeader\<close> (\<^verbatim>\<open>header.go\<close>) against its specification: on a block of well-formed field lines it adds the fields in
  their order and stops behind the empty line.
\<close>

section \<open>Lines\<close>

abbreviation isBlank :: "char \<Rightarrow> bool" where "isBlank c \<equiv> c = CHR '' '' \<or> c = CHR 0x09"

text \<open>A folded value: every line feed in it is followed by a blank.\<close>

fun folded :: "string \<Rightarrow> bool" where
  "folded [] = True"
| "folded (c # cs) = ((c = LF \<longrightarrow> cs \<noteq> [] \<and> isBlank (hd cs)) \<and> folded cs)"

definition fieldOK :: "string \<times> string \<Rightarrow> bool" where
  "fieldOK nv \<longleftrightarrow>
     (let (n, v) = nv in n \<noteq> [] \<and> list_all isNameChar n \<and> v \<noteq> [] \<and> isText (hd v) \<and> folded v)"

definition headerBlock :: "(string \<times> string) list \<Rightarrow> string" where
  "headerBlock nvs = concat (map (\<lambda>(n, v). n @ '': '' @ v @ crlf) nvs)"

lemma scanWhile_at: "scanWhile P (pre @ s) (length pre) = length pre + length (takeWhile P s)"
  by (simp add: scanWhile_def)

lemma takeWhile_stop: "list_all P n \<Longrightarrow> \<not> P c \<Longrightarrow> takeWhile P (n @ c # s) = n"
  by (induction n) auto

lemma valueEnd_value:
  "folded v \<Longrightarrow> \<not> isBlank (hd r) \<Longrightarrow> r \<noteq> [] \<Longrightarrow>
   valueEnd (pre @ v @ CR # LF # r) (length pre) = length pre + length v + 1"
proof (induction v arbitrary: pre)
  case Nil
  obtain c cs where "r = c # cs" using Nil.prems(3) by (cases r) auto
  then show ?case
    using Nil.prems by (subst valueEnd.simps, subst valueEnd.simps) (simp add: nth_append)
next
  case (Cons c v)
  have IH: "valueEnd (pre @ c # v @ CR # LF # r) (Suc (length pre)) = Suc (length pre) + length v + 1"
    using Cons.IH [of "pre @ [c]"] Cons.prems by simp
  have "c = LF \<Longrightarrow> isBlank ((v @ CR # LF # r) ! 0)" using Cons.prems(1) by (cases v) auto
  with IH show ?case by (subst valueEnd.simps) (auto simp: nth_append)
qed

lemma simplify_text:
  assumes "v \<noteq> []" and "isText (hd v)"
  obtains t where "simplify v = Inr t" "t \<noteq> []"
proof -
  obtain c cs where v: "v = c # cs" "isText c" using assms by (cases v) auto
  have "encodeRune (of_char c) \<noteq> []" by (simp add: encodeRune_def Let_def)
  moreover obtain x where "joinWith '' '' (wordsOf v) = c # x"
    using v by (cases "wordsOf (dropWhile isText cs)") (auto simp: wordsOf_Cons_text)
  ultimately have "squeezed v \<noteq> []" by (simp add: squeezed_def)
  moreover have "trim v \<noteq> []" using v by (auto simp: trim_eq rtrim_def)
  moreover have "simplify v = Inr (if doubleBlank (trim v) then squeezed v else trim v)"
    using v by (intro simplify_not_blank) simp
  ultimately show thesis using that by (metis (full_types))
qed

text \<open>One line: the field is added, and the position is behind the line.\<close>

lemma scanIdx_blanks:
  assumes "v \<noteq> []" and "isText (hd v)"
  shows "scanIdx isBlank (pre @ CHR '' '' # v @ r) (length pre) = Inr (length pre + 1)"
  using assms scanWhile_at [of isBlank pre "CHR '' '' # v @ r"]
  by (cases v) (auto simp: scanIdx_def Let_def isWsp_def)

lemma valueStop_value:
  assumes "folded v" and "r \<noteq> []" and "\<not> isBlank (hd r)"
  shows "valueStop (pre @ v @ CR # LF # r) (length pre) = length pre + length v"
  using valueEnd_value [OF assms(1,3,2), of pre] by (simp add: valueStop_def Let_def nth_append)

lemma fieldLine_value:
  assumes ok: "fieldOK (n, v)" and r: "r \<noteq> []" "\<not> isBlank (hd r)"
  shows "fieldLine E (pre @ n @ CHR '':'' # CHR '' '' # v @ CR # LF # r) (length pre) (length pre + length n) h =
    go_bind (Header_Add E n v h) (\<lambda>h. Inr (length pre + length n + length v + 4, h))"
    (is "fieldLine E ?s _ _ h = _")
proof -
  from ok have v: "v \<noteq> []" "isText (hd v)" "folded v" by (simp_all add: fieldOK_def)
  define q where "q = pre @ n @ '': ''"
  have s: "?s = q @ v @ CR # LF # r" and s2: "?s = (pre @ n @ '':'') @ CHR '' '' # v @ CR # LF # r" by (simp_all add: q_def)
  have len: "length q = length pre + length n + 2" by (simp add: q_def)
  have i: "scanIdx isBlank ?s (length pre + length n + 1) = Inr (length q)"
    unfolding s2 using scanIdx_blanks [OF v(1,2), of "pre @ n @ '':''" "CR # LF # r"] by (simp add: len)
  have j: "valueStop ?s (length q) = length q + length v" unfolding s by (rule valueStop_value [OF v(3) r])
  have sub: "substr ?s (length q) (length q + length v) = Inr v" unfolding s by simp
  have nl: "nextLine ?s (length q + length v) = length q + length v + 2"
    unfolding s nextLine_def by (simp add: nth_append)
  obtain t where t: "simplify v = Inr t" "t \<noteq> []" using simplify_text [OF v(1,2)] .
  show ?thesis
    unfolding fieldLine_def Let_def i go_bind_simps j sub t(1) nl using t(2) by (simp add: len eval_nat_numeral)
qed

lemma isNameChar_ascii: "isNameChar c \<Longrightarrow> isAsciiByte c"
  by (simp add: isNameChar_def isAsciiByte_nat less_eq_char_def)

lemma not_from:
  assumes "list_all isNameChar n"
  shows "toLower E (n @ '':'') \<noteq> ''from ''"
proof -
  have "list_all isAsciiByte n" using assms by (rule list.pred_mono_strong) (rule isNameChar_ascii)
  moreover have "isAsciiByte (CHR '':'')" "lowerByte (CHR '':'') = CHR '':''" by code_simp+
  ultimately have l: "toLower E (n @ '':'') = map lowerByte n @ [CHR '':'']" by (simp add: toLower_def)
  have "last (map lowerByte n @ [CHR '':'']) \<noteq> last ''from ''" unfolding last_snoc by simp
  then show ?thesis unfolding l by metis
qed

lemma headerLine_field:
  assumes ok: "fieldOK (n, v)" and r: "r \<noteq> []" "\<not> isBlank (hd r)"
  shows "headerLine E (pre @ n @ CHR '':'' # CHR '' '' # v @ CR # LF # r) (length pre) h =
    go_bind (Header_Add E n v h) (\<lambda>h. Inr (True, length pre + length n + length v + 4, h))"
    (is "headerLine E ?s _ h = _")
proof -
  from ok have n: "n \<noteq> []" "list_all isNameChar n" by (simp_all add: fieldOK_def)
  obtain c cs where c: "n = c # cs" "isNameChar c" using n by (cases n) auto
  have "?s ! length pre = c" by (simp add: c nth_append)
  with c(2) have bom: "skipBOM ?s (length pre) = length pre" by (auto simp: skipBOM_def isNameChar_def)
  have j: "scanWhile isNameChar ?s (length pre) = length pre + length n"
    using takeWhile_stop [OF n(2), of "CHR '':''"] by (simp add: scanWhile_at isNameChar_def)
  have colon: "idx ?s (length pre + length n) = Inr (CHR '':'')" by (simp add: idx_def nth_append)
  have sub: "substr ?s (length pre) (length pre + length n + 1) = Inr (n @ '':'')" by (simp add: substr_def)
  have gt: "length pre < length pre + length n" using n(1) by simp
  show ?thesis
    unfolding headerLine_def Let_def bom j sub colon go_bind_simps fieldLine_value [OF ok r]
    using not_from [OF n(2), of E] gt by (simp add: go_bind_assoc)
qed

lemma headerBlock_simps [simp]:
  "headerBlock [] = []" "headerBlock ((n, v) # nvs) = n @ CHR '':'' # CHR '' '' # v @ CR # LF # headerBlock nvs"
  by (simp_all add: headerBlock_def)

lemma block_not_blank:
  assumes "list_all fieldOK nvs"
  shows "headerBlock nvs @ CR # LF # body \<noteq> []" "\<not> isBlank (hd (headerBlock nvs @ CR # LF # body))"
proof -
  show "\<not> isBlank (hd (headerBlock nvs @ CR # LF # body))"
  proof (cases nvs)
    case (Cons nv nvs)
    obtain c cs v where "nv = (c # cs, v)" "isNameChar c"
      using assms Cons by (cases nv; cases "fst nv") (auto simp: fieldOK_def)
    with Cons show ?thesis by (auto simp: isNameChar_def)
  qed simp
qed simp

lemma readLines_block:
  "list_all fieldOK nvs \<Longrightarrow>
   readLines E (pre @ headerBlock nvs @ CR # LF # body) (length pre) h =
     go_bind (foldGo (\<lambda>(n, v). Header_Add E n v) nvs h) (\<lambda>h. Inr (length pre + length (headerBlock nvs), h))"
proof (induction nvs arbitrary: pre h)
  case Nil
  have "headerLine E (pre @ CR # LF # body) (length pre) h = Inr (False, length pre, h)"
    by (simp add: headerLine_def Let_def skipBOM_def nth_append scanWhile_at isNameChar_def)
  then show ?case by (subst readLines.simps) simp
next
  case (Cons nv nvs)
  obtain n v where nv: "nv = (n, v)" by (cases nv)
  with Cons.prems have ok: "fieldOK (n, v)" and rest: "list_all fieldOK nvs" by simp_all
  let ?r = "headerBlock nvs @ CR # LF # body"
  define q where "q = pre @ n @ CHR '':'' # CHR '' '' # v @ [CR, LF]"
  have s: "pre @ n @ CHR '':'' # CHR '' '' # v @ CR # LF # ?r = q @ ?r" by (simp add: q_def)
  have len: "length pre + length n + length v + 4 = length q" by (simp add: q_def)
  note line = headerLine_field [OF ok block_not_blank [OF rest], of E pre body h, unfolded len s]
  have "readLines E (q @ ?r) (length pre) h = go_bind (Header_Add E n v h) (\<lambda>h. readLines E (q @ ?r) (length q) h)"
    by (subst readLines.simps) (simp add: line go_bind_assoc)
  also have "\<dots> = go_bind (Header_Add E n v h)
      (\<lambda>h. go_bind (foldGo (\<lambda>(n, v). Header_Add E n v) nvs h) (\<lambda>h. Inr (length q + length (headerBlock nvs), h)))"
    using Cons.IH [OF rest, of q] by simp
  finally show ?case by (simp add: nv q_def go_bind_assoc add.assoc)
qed

text \<open>
  C5. \<open>ReadHeader\<close> on a block of well-formed lines, an empty line and a body: it calls \<open>Add\<close> with the names and values in
  their order on a new header, and the header's size is that of the block and the empty line. A value may be folded over
  several lines.
\<close>

theorem ReadHeader_block:
  assumes "list_all fieldOK nvs"
  shows "ReadHeader E (headerBlock nvs @ crlf @ body) m =
    go_bind (foldGo (\<lambda>(n, v). Header_Add E n v) nvs (newHeader m))
      (\<lambda>h. Inr (h\<lparr> h_numBytes := length (headerBlock nvs) + 2 \<rparr>))"
  using readLines_block [OF assms, of E "[]" body "newHeader m"]
  by (simp add: ReadHeader_def go_bind_assoc nth_append)

theorem ReadHeader_block_witness:
  "ReadHeader plainEnv (''Subject: a'' @ crlf @ '' b'' @ crlf @ ''X-Y: z'' @ crlf @ crlf @ ''text'') RFC5322Header =
    go_bind (Header_Add plainEnv ''Subject'' (''a'' @ crlf @ '' b'') (newHeader RFC5322Header)) (\<lambda>h.
    go_bind (Header_Add plainEnv ''X-Y'' ''z'' h) (\<lambda>h. Inr (h\<lparr> h_numBytes := 26 \<rparr>)))"
proof -
  have "list_all fieldOK [(''Subject'', ''a'' @ crlf @ '' b''), (''X-Y'', ''z'')]" by code_simp
  from ReadHeader_block [OF this, of plainEnv "''text''" RFC5322Header] show ?thesis by (simp add: go_bind_assoc eval_nat_numeral)
qed

end
