(* ===== verification/RepairLaws.thy ===== *)
theory RepairLaws
  imports HeaderLaws
begin

text \<open>
  \<open>Simplify\<close> and \<open>Repair\<close> (\<^verbatim>\<open>header.go\<close>) keep the invariant of a header, end, and fail no type assertion.
\<close>

text \<open>A call that cannot panic, and one that panics at most with a read out of range.\<close>

lemma ensures_safe: "ensures (\<lambda>_. False) m R \<Longrightarrow> (\<And>x. R x \<Longrightarrow> Q x) \<Longrightarrow> ensures F m Q"
  by (cases m) simp_all

lemma ensures_ranged: "ensures rangeFault m R \<Longrightarrow> (\<And>e. rangeFault e \<Longrightarrow> F e) \<Longrightarrow> (\<And>x. R x \<Longrightarrow> Q x) \<Longrightarrow> ensures F m Q"
  by (cases m) simp_all

lemma ensures_tameI: "tame m \<Longrightarrow> (\<And>e. rangeFault e \<Longrightarrow> F e) \<Longrightarrow> (\<And>x. Q x) \<Longrightarrow> ensures F m Q"
  by (cases m) simp_all

lemmas field_calls = Header_ContentType_wf [THEN ensures_safe] Header_CTE_wf [THEN ensures_safe]
  Header_ContentDisposition_wf [THEN ensures_safe]

section \<open>Simplify\<close>

lemma tame_Uniquify [simp]: "tame (Uniquify E as)"
  by (rule Uniquify_wf [of E as]) simp

text \<open>Replacing the addresses of an address field.\<close>

lemma hinv_setAddresses:
  assumes "hinv t h" and "addressField n k h = Some (r, f)"
  shows "hinv t (setField r (AddrField (f\<lparr> af_Addresses := as \<rparr>)) h)"
    "hinv t (setField r (AddrField (f\<lparr> af_Addresses := as, hf_err := e \<rparr>)) h)"
  using addressField_wf [OF assms] assms(1)
  by (auto intro!: hinv_setField simp: addressFieldNames_def messageIDNames_def)

lemma simplifyAddresses_wf: "hinv t h \<Longrightarrow> ensures rangeFault (simplifyAddresses E h) (hinv t)"
  unfolding simplifyAddresses_def
  by (rule ensures_foldGo) (intro ensures_rules ensures_tameI; simp add: hinv_setAddresses)+

lemma dropEmptyDescription_wf: "hinv t h \<Longrightarrow> ensures rangeFault (dropEmptyDescription E h) (\<lambda>(_, h). hinv t h)"
  unfolding dropEmptyDescription_def by (intro ensures_rules ensures_tameI; simp)

lemma dropBinaryCTE_wf: "hinv t h \<Longrightarrow> ensures rangeFault (dropBinaryCTE E h) (\<lambda>(_, h). hinv t h)"
  unfolding dropBinaryCTE_def by (intro ensures_rules field_calls [where t = t]; simp split: option.split)

lemma dropInline_wf: "hinv t h \<Longrightarrow> ensures rangeFault (dropInline E h) (\<lambda>(_, h). hinv t h)"
  unfolding dropInline_def by (intro ensures_rules field_calls [where t = t]; simp)

lemma Header_Add_ranged:
  "asciiConverter E \<Longrightarrow> hinv t h \<Longrightarrow> (t \<Longrightarrow> headerCase n \<noteq> ContentTypeFieldName) \<Longrightarrow> (\<And>e. rangeFault e \<Longrightarrow> F e) \<Longrightarrow>
   (\<And>h'. hinv t h' \<Longrightarrow> Q h') \<Longrightarrow> ensures F (Header_Add E n v h) Q"
  using Header_Add_wf by (rule ensures_ranged) blast+

definition typeRef :: "bool \<Rightarrow> (nat \<times> ContentType) option \<Rightarrow> bool" where
  "typeRef t ct \<longleftrightarrow> (case ct of None \<Rightarrow> True | Some (r, f) \<Rightarrow> \<not> t \<and> wfField (CTypeField f))"

lemma simplifyType_wf:
  assumes "asciiConverter E" and "hinv t h"
  shows "ensures rangeFault (simplifyType E cde cte cdi h) (\<lambda>(ct, h). hinv t h \<and> typeRef t ct)"
proof -
  have "t \<Longrightarrow> h_defaultType h = TextPlainContentType" using assms(2) by (simp add: hinv_defs)
  with assms show ?thesis
    unfolding simplifyType_def
    by (intro ensures_rules field_calls [where t = t] Header_Add_ranged) (auto simp: typeRef_def split: option.splits)
qed

lemma simplifyVersion_wf:
  assumes "asciiConverter E" and "hinv t h"
  shows "ensures rangeFault (simplifyVersion E mime h) (hinv t)"
proof -
  have "headerCase ''MIME-Version'' \<noteq> ContentTypeFieldName" by code_simp
  with assms show ?thesis
    unfolding simplifyVersion_def by (intro ensures_rules Header_Add_ranged; simp)
qed

lemma dropCharset_wf: "hinv t h \<Longrightarrow> typeRef t ct \<Longrightarrow> hinv t (dropCharset E ct h)"
  by (auto simp: dropCharset_def typeRef_def removeParameter_def wfParams_del split: option.splits intro!: hinv_setField)

lemma dropErrorsTo_wf: "hinv t h \<Longrightarrow> ensures rangeFault (dropErrorsTo E h) (hinv t)"
  unfolding dropErrorsTo_def by (intro ensures_rules ensures_tameI; simp)

lemma dropEmptyMessageID_wf: "hinv t h \<Longrightarrow> ensures rangeFault (dropEmptyMessageID E h) (hinv t)"
  unfolding dropEmptyMessageID_def by (intro ensures_rules ensures_tameI; simp)

lemma hinv_dropEmpties: "hinv t h \<Longrightarrow> hinv t (fold (dropEmpty E) ns h)"
  by (induction ns arbitrary: h) (simp_all add: dropEmpty_def)

lemma hinv_dropSame: "hinv t h \<Longrightarrow> hinv t (dropSame E n h)"
  by (simp add: dropSame_def)

lemmas simplify_calls =
  simplifyAddresses_wf [THEN ensures_post] dropEmptyDescription_wf [THEN ensures_post]
  dropBinaryCTE_wf [THEN ensures_post] dropInline_wf [THEN ensures_post] simplifyType_wf [THEN ensures_post]
  simplifyVersion_wf [THEN ensures_post] dropErrorsTo_wf [THEN ensures_post] dropEmptyMessageID_wf [THEN ensures_post]

lemma Header_Valid_verify: "Header_Valid h = (h_err (verify h) = None, verify h)"
  by (simp add: Header_Valid_def Let_def)

lemma Header_Simplify_wf:
  assumes "asciiConverter E" and "hinv t h"
  shows "ensures rangeFault (Header_Simplify E h) (hinv t)"
  unfolding Header_Simplify_def Header_Valid_verify using assms
  by (intro ensures_rules simplify_calls [where t = t])
    (auto simp: hinv_dropEmpties hinv_dropSame dropCharset_wf)

section \<open>Repair\<close>

lemma withoutCopies_filters:
  "ensures rangeFault (withoutCopies n hf seen fs)
     (\<lambda>gs. set gs \<subseteq> set fs \<and> (distinct (map fst fs) \<longrightarrow> distinct (map fst gs)))"
proof (induction fs arbitrary: seen)
  case (Cons f fs)
  show ?case
    by (subst withoutCopies.simps, intro ensures_rules ensures_post [OF Cons.IH] ensures_tameI)
      (auto simp: image_iff subset_iff)
qed simp

lemma hinv_subset:
  "hinv t h \<Longrightarrow> set fs \<subseteq> set (h_Fields h) \<Longrightarrow> distinct (map fst fs) \<Longrightarrow> hinv t (h\<lparr> h_Fields := fs \<rparr>)"
  by (auto simp: hinv_defs list_all_iff)

lemma hinv_distinct: "hinv t h \<Longrightarrow> distinct (map fst (h_Fields h))"
  by (simp add: hinv_defs)

lemma removeCopies_wf: "hinv t h \<Longrightarrow> ensures rangeFault (removeCopies occ h) (hinv t)"
  unfolding removeCopies_def
  by (rule ensures_foldGo) (intro ensures_rules ensures_post [OF withoutCopies_filters];
    simp add: hinv_subset hinv_distinct)+

text \<open>From here on a nil pointer may be dereferenced, but every type assertion holds.\<close>

lemma badType_wf:
  "list_all (\<lambda>f. wfField (snd f) \<and> nameOf f = ContentTypeFieldName) fs \<Longrightarrow> ensures (\<lambda>_. False) (badType fs) (\<lambda>_. True)"
  by (cases fs) (auto simp: badType_def dest!: wfField_kinds(1))

lemma goodType_wf:
  "list_all (\<lambda>f. wfField (snd f) \<and> nameOf f = ContentTypeFieldName) fs \<Longrightarrow>
   ensures (\<lambda>_. False) (goodType ct good fs) (\<lambda>_. True)"
  by (induction ct good fs rule: goodType.induct) (auto simp: badType_wf dest!: wfField_kinds(1))

lemma mergeTypes_wf:
  assumes "hinv t h"
  shows "ensures (\<lambda>_. False) (mergeTypes occ h) (hinv t)"
proof -
  have "list_all (\<lambda>f. wfField (snd f) \<and> nameOf f = ContentTypeFieldName)
      (filter (\<lambda>f. nameOf f = ContentTypeFieldName) (h_Fields h))"
    using assms by (auto simp: hinv_defs list_all_iff)
  note good = goodType_wf [OF this, THEN ensures_post]
  show ?thesis
    unfolding mergeTypes_def using assms
    by (intro ensures_rules field_calls [where t = t] good) (auto split: option.split)
qed

lemma hinv_keepFirstValid: "hinv t h \<Longrightarrow> hinv t (fold (keepFirstValid occ) ns h)"
  by (induction ns arbitrary: h) (simp_all add: keepFirstValid_def split: option.split)

lemma mergeVersions_wf:
  assumes "asciiConverter E" and "hinv t h"
  shows "ensures assertionsHold (mergeVersions E occ h) (hinv t)"
proof -
  have set: "hinv t (setField r g h')"
    if "Field_Parse E s f = Inr g" "header_field MIMEVersionFieldName 0 h' = Some (r, f)" "hinv t h'" for r g f s h'
    using Field_Parse_wf [OF that(1)] Field_Parse_name [OF that(1)] hinv_header_field [OF that(3,2)] that(3)
    by (intro hinv_setField) auto
  show ?thesis
    unfolding mergeVersions_def using assms
    by (intro ensures_rules ensures_tame) (auto intro: set)
qed

lemma dropMultipartCTE_wf: "hinv t h \<Longrightarrow> ensures assertionsHold (dropMultipartCTE E occ h) (hinv t)"
  unfolding dropMultipartCTE_def by (intro ensures_rules field_calls [where t = t]) auto

lemma dropSender_wf: "hinv t h \<Longrightarrow> ensures assertionsHold (dropSender E occ h) (hinv t)"
  unfolding dropSender_def by (intro ensures_rules ensures_tameI) (auto intro: tame_mapGo)

lemmas repair_calls =
  removeCopies_wf [THEN ensures_ranged] mergeTypes_wf [THEN ensures_safe] mergeVersions_wf [THEN ensures_post]
  dropMultipartCTE_wf [THEN ensures_post] dropSender_wf [THEN ensures_post]

lemma Header_Repair_wf:
  assumes "asciiConverter E" and "hinv t h"
  shows "ensures assertionsHold (Header_Repair E h) (hinv t)"
  unfolding Header_Repair_def Header_Valid_verify using assms
  by (intro ensures_rules repair_calls [where t = t]) (auto simp: hinv_keepFirstValid)

end
