(* ===== verification/HeaderBody.thy ===== *)
theory HeaderBody
  imports HeaderRepair
begin

text \<open>
  \<open>RepairWithBody\<close> of \<^verbatim>\<open>header.go\<close>, one definition per paragraph of the method.

  Of the part \<open>p\<close> the method only follows the pointers to the parents; \<open>parents\<close> is the list of their headers,
  innermost first, where \<open>None\<close> is a nil header. The parser of multiparts, which one paragraph calls on the body,
  is an argument: it returns the headers and the data of the parts.
\<close>

section \<open>The date\<close>

text \<open>The position the loop over the semicolons stops at; it does not go on when two of them are adjacent.\<close>

function lastSemicolon :: "string \<Rightarrow> nat \<Rightarrow> nat go" where
  "lastSemicolon v i =
     go_bind (substr v (i + 1) (length v)) (\<lambda>t.
     case indexOf t '';'' of
       Some k \<Rightarrow> if k > 0 then lastSemicolon v (i + 1 + k) else Inr i
     | None \<Rightarrow> Inr i)"
  by pat_completeness auto
termination
  by (relation "measure (\<lambda>(v, i). length v - i)") (auto simp: substr_def split: if_splits)

declare lastSemicolon.simps [simp del]

fun receivedDate :: "go_env \<Rightarrow> gotime option \<Rightarrow> (nat \<times> Field) list \<Rightarrow> gotime option go" where
  "receivedDate E date [] = Inr date"
| "receivedDate E date (f # fs) =
     (if nameOf f = ReceivedFieldName then
        go_bind (Field_rfc822 (snd f) False) (\<lambda>v.
        go_bind (lastSemicolon v 0) (\<lambda>i.
        go_bind (substr v (i + 1) (length v)) (\<lambda>t.
        go_bind (parseDate E t) (\<lambda>tmp.
        receivedDate E
          (case (tmp, date) of
             (None, _) \<Rightarrow> date
           | (Some t, None) \<Rightarrow> Some t
           | (Some t, Some d) \<Rightarrow> if time_Before t d then Some t else date) fs))))
      else receivedDate E date fs)"

fun parentDate :: "Header option list \<Rightarrow> gotime option go" where
  "parentDate [] = Inr None"
| "parentDate (None # ps) = Inl NilDereference"
| "parentDate (Some h # ps) = go_bind (Header_Date h) (\<lambda>d. if d = None then parentDate ps else Inr d)"

abbreviation rfc822z :: string where "rfc822z \<equiv> ''02 Jan 06 15:04 -0700''"

definition wantsDate :: "(string \<Rightarrow> nat) \<Rightarrow> Header \<Rightarrow> bool go" where
  "wantsDate occ h =
     (if h_mode h \<noteq> RFC5322Header then Inr False
      else if occ DateFieldName = 0 then Inr True
      else case header_field DateFieldName 0 h of
             None \<Rightarrow> Inl NilDereference
           | Some (_, f) \<Rightarrow>
               if \<not> Field_Valid f then Inr True else go_bind (Header_Date h) (\<lambda>d. Inr (d \<noteq> None)))"

definition repairDate :: "go_env \<Rightarrow> Header option list \<Rightarrow> (string \<Rightarrow> nat) \<Rightarrow> Header \<Rightarrow> Header go" where
  "repairDate E parents occ h =
     go_bind (wantsDate occ h) (\<lambda>wanted.
     if wanted then
       go_bind (receivedDate E None (h_Fields h)) (\<lambda>date.
       go_bind (if date = None then parentDate parents else Inr date) (\<lambda>date.
       let date = (if date = None \<and> occ DateFieldName = 0 then Some (time_Now E) else date)
       in case date of
            None \<Rightarrow> Inr h
          | Some d \<Rightarrow> Header_Add E DateFieldName (time_Format rfc822z d) h))
     else Inr h)"

section \<open>The sender\<close>

text \<open>
  The loop over the parents asks the header \<open>h\<close> itself in each round, so its result is that of the first round.
\<close>

definition normalFirst :: "Address list \<Rightarrow> bool" where
  "normalFirst as \<longleftrightarrow> as \<noteq> [] \<and> a_t (hd as) = NormalAddressType"

definition originator :: "Header \<Rightarrow> Address list" where
  "originator h =
     (if normalFirst (Header_Addresses FromFieldName h) then Header_Addresses FromFieldName h
      else if normalFirst (Header_Addresses ReturnPathFieldName h) then Header_Addresses ReturnPathFieldName h
      else if normalFirst (Header_Addresses SenderFieldName h) then Header_Addresses SenderFieldName h
      else [])"

text \<open>The address in the first word of a field, if it parses as a single address.\<close>

definition firstWordAddress :: "go_env \<Rightarrow> Field \<Rightarrow> Address list go" where
  "firstWordAddress E f =
     go_bind (Field_rfc822 f False) (\<lambda>t.
     go_bind (str_section t '' '' 1) (\<lambda>w.
     go_bind (NewAddressParser E w) (\<lambda>p.
     go_bind (assertSingleAddress p) (\<lambda>(_, p).
     Inr (if ap_firstError p = None then ap_Addresses p else [])))))"

definition addFrom :: "go_env \<Rightarrow> Address list \<Rightarrow> Header \<Rightarrow> Header go" where
  "addFrom E as h =
     (case as of
        [] \<Rightarrow> Inr h
      | a # _ \<Rightarrow> go_bind (Address_toString a False) (\<lambda>t. Header_Add E FromFieldName t h))"

definition repairFrom :: "go_env \<Rightarrow> (string \<Rightarrow> nat) \<Rightarrow> Header \<Rightarrow> Header go" where
  "repairFrom E occ h =
     (if occ FromFieldName = 0 \<and> h_mode h = RFC5322Header then
        go_bind (if originator h = [] then
                   (case find (\<lambda>f. nameOf f = ''X-From-Line'') (h_Fields h) of
                      None \<Rightarrow> Inr []
                    | Some (_, f) \<Rightarrow> firstWordAddress E f)
                 else Inr (originator h)) (\<lambda>as. addFrom E as h)
      else Inr h)"

fun receiptAddress :: "go_env \<Rightarrow> (nat \<times> Field) list \<Rightarrow> Address list go" where
  "receiptAddress E [] = Inr []"
| "receiptAddress E (f # fs) =
     (if nameOf f = ''Return-Receipt-To'' \<or> nameOf f = ''Disposition-Notification-To'' then
        go_bind (firstWordAddress E (snd f)) (\<lambda>as. if as \<noteq> [] then Inr as else receiptAddress E fs)
      else receiptAddress E fs)"

definition repairFromReceipt :: "go_env \<Rightarrow> Header \<Rightarrow> Header go" where
  "repairFromReceipt E h =
     (if h_mode h = RFC5322Header \<and>
         (case header_field FromFieldName 0 h of
            None \<Rightarrow> True
          | Some (_, f) \<Rightarrow> \<not> Field_Valid f \<and> Header_Addresses FromFieldName h = [])
      then
        go_bind (receiptAddress E (h_Fields h)) (\<lambda>as.
        if as \<noteq> [] then addFrom E as (RemoveAllNamed E FromFieldName h) else Inr h)
      else Inr h)"

text \<open>The validity asked for is that of the whole header, not that of the Received field.\<close>

definition dropReceived :: "(string \<Rightarrow> nat) \<Rightarrow> Header \<Rightarrow> Header" where
  "dropReceived occ h =
     (if occ ReceivedFieldName > 0 then
        (let (valid, h) = Header_Valid h
         in if valid then h else removeWhere (\<lambda>f. nameOf f = ReceivedFieldName) h)
      else h)"

definition dropInvalid :: "string list \<Rightarrow> Header \<Rightarrow> Header" where
  "dropInvalid names h = removeWhere (\<lambda>f. nameOf f \<in> set names \<and> \<not> Field_Valid (snd f)) h"

definition dropBroken :: "(string \<Rightarrow> nat) \<Rightarrow> Header \<Rightarrow> Header" where
  "dropBroken occ h =
     (let names = [ContentLocationFieldName, ContentDispositionFieldName, ContentIDFieldName, MessageIDFieldName]
      in if list_ex (\<lambda>n. occ n > 0) names then dropInvalid names h else h)"

text \<open>The first valid Sender field that is not a copy of From.\<close>

fun goodSender :: "go_env \<Rightarrow> (nat \<times> AddressField) option \<Rightarrow> (nat \<times> Field) list \<Rightarrow> nat option go" where
  "goodSender E from [] = Inr None"
| "goodSender E from ((r, f) # fs) =
     (if Field_Name f = SenderFieldName \<and> Field_Valid f then
        (case f of
           AddrField candidate \<Rightarrow>
             if \<not> sameAddresses E (Some (r, candidate)) from then Inr (Some r) else goodSender E from fs
         | _ \<Rightarrow> Inl FailedTypeAssertion)
      else goodSender E from fs)"

definition keepGoodSender :: "go_env \<Rightarrow> (string \<Rightarrow> nat) \<Rightarrow> Header \<Rightarrow> Header go" where
  "keepGoodSender E occ h =
     (if occ SenderFieldName > 1 then
        go_bind (goodSender E (addressField FromFieldName 0 h) (h_Fields h)) (\<lambda>good.
        Inr (case good of
               None \<Rightarrow> h
             | Some r \<Rightarrow> removeWhere (\<lambda>f. nameOf f = SenderFieldName \<and> fst f \<noteq> r) h))
      else Inr h)"

section \<open>Subjects\<close>

definition badSubject :: "go_env \<Rightarrow> Field \<Rightarrow> bool go" where
  "badSubject E s =
     go_bind (Field_Value E s) (\<lambda>v.
     if length v > 300 then Inr True
     else if length v > 80 then
       go_bind (simplify v) (\<lambda>v.
       Inr (list_ex (\<lambda>w. hasSuffix w '':'' \<and> isAscii w \<and> isKnownField (butlast w)) (splitOn '' '' v)))
     else Inr (list_ex (\<lambda>c. \<not> c < CHR 0x80) v))"

fun badSubjects :: "go_env \<Rightarrow> (nat \<times> Field) list \<Rightarrow> nat list go" where
  "badSubjects E [] = Inr []"
| "badSubjects E ((r, f) # fs) =
     (if Field_Name f = SubjectFieldName then
        go_bind (badSubject E f) (\<lambda>b. go_bind (badSubjects E fs) (\<lambda>rs. Inr (if b then r # rs else rs)))
      else badSubjects E fs)"

text \<open>The second loop never sets \<open>seen\<close>, so it removes nothing.\<close>

definition repairSubjects :: "go_env \<Rightarrow> (string \<Rightarrow> nat) \<Rightarrow> Header \<Rightarrow> Header go" where
  "repairSubjects E occ h =
     (if occ SubjectFieldName > 1 then
        go_bind (badSubjects E (h_Fields h)) (\<lambda>bad.
        Inr (if length bad < occ SubjectFieldName
             then removeWhere (\<lambda>f. nameOf f = SubjectFieldName \<and> False) (fold Header_Remove bad h) else h))
      else Inr h)"

end
