(* ===== verification/HeaderGuess.thy ===== *)
theory HeaderGuess
  imports HeaderBody HeaderReader
begin

text \<open>
  The second half of \<open>RepairWithBody\<close> (\<^verbatim>\<open>header.go\<close>): the paragraphs that look at the body, and those that
  repair the From, Content-Type and Content-Transfer-Encoding fields; and the method as a whole.
\<close>

section \<open>Finding the boundary in the body\<close>

definition isBoundaryChar :: "char \<Rightarrow> bool" where
  "isBoundaryChar c \<longleftrightarrow> isAlnum c \<or> c \<in> set ''()+_,-./:=? '' \<or> c = CHR 0x27"

text \<open>What a boundary line does to the loop: the boundary, and the flags \<open>confused\<close> and \<open>done\<close>.\<close>

definition boundaryLine :: "string \<Rightarrow> string \<Rightarrow> string \<times> bool \<times> bool" where
  "boundaryLine boundary s =
     (if boundary = [] then (s, False, False)
      else if boundary = s then (boundary, False, False)
      else if length s = length boundary + 2 \<and> hasPrefix s boundary \<and> hasSuffix s ''--'' then (boundary, False, True)
      else (boundary, length s \<le> 70, False))"

definition boundaryAt :: "string \<Rightarrow> nat \<Rightarrow> string \<Rightarrow> (string \<times> bool \<times> bool) go" where
  "boundaryAt body cand boundary =
     (if length body > cand + 1 \<and> body ! cand = CHR ''-'' \<and> body ! (cand + 1) = CHR ''-'' then
        go_bind (scanIdx isBoundaryChar body (cand + 2)) (\<lambda>i.
        Inr (if i > cand + 2 \<and> (body ! i = CR \<or> body ! i = LF)
             then boundaryLine boundary (take (i - (cand + 2)) (drop (cand + 2) body))
             else (boundary, False, False)))
      else Inr (boundary, False, False))"

function boundary_loop :: "string \<Rightarrow> nat \<Rightarrow> string \<Rightarrow> (string \<times> bool) go" where
  "boundary_loop body cand boundary =
     (if cand < length body then
        go_bind (boundaryAt body cand boundary) (\<lambda>(boundary, confused, dn).
        case indexOf (drop (cand + 1) body) (LF # ''--'') of
          Some k \<Rightarrow>
            if confused \<or> dn then Inr (boundary, confused) else boundary_loop body (cand + 1 + k + 1) boundary
        | None \<Rightarrow> Inr (boundary, confused))
      else Inr (boundary, False))"
  by pat_completeness auto
termination by (relation "measure (\<lambda>(body, cand, _). length body - cand)") auto

declare boundary_loop.simps [simp del]

definition repairBoundary :: "go_env \<Rightarrow> string \<Rightarrow> (string \<Rightarrow> nat) \<Rightarrow> Header \<Rightarrow> Header go" where
  "repairBoundary E body occ h =
     (if occ ContentTypeFieldName > 0 \<and> body \<noteq> [] then
        go_bind (Header_ContentType h) (\<lambda>ct.
        case ct of
          None \<Rightarrow> Inl NilDereference
        | Some (r, f) \<Rightarrow>
            if \<not> hf_Valid f \<and> ct_Type f = ''multipart'' \<and> parameter E ''boundary'' f = [] then
              go_bind (scanIdx (\<lambda>c. c = LF) body 0) (\<lambda>cand.
              go_bind (boundary_loop body cand []) (\<lambda>(boundary, confused).
              Inr (if boundary \<noteq> [] \<and> \<not> confused
                   then setField r (CTypeField ((addParameter E ''boundary'' boundary f)\<lparr> hf_err := None \<rparr>)) h
                   else h)))
            else Inr h)
      else Inr h)"

section \<open>Salvaging From\<close>

text \<open>\<open>h.addressField(name, 0)\<close> followed by a use of the pointer.\<close>

definition derefAddressField :: "string \<Rightarrow> Header \<Rightarrow> (nat \<times> AddressField) go" where
  "derefAddressField name h = (case addressField name 0 h of None \<Rightarrow> Inl NilDereference | Some rf \<Rightarrow> Inr rf)"

definition replaceAddresses :: "nat \<Rightarrow> AddressField \<Rightarrow> Address list \<Rightarrow> Header \<Rightarrow> Header" where
  "replaceAddresses r f as h = setField r (AddrField (f\<lparr> af_Addresses := as, hf_err := None \<rparr>)) h"

fun sensibleAddresses :: "Address list \<Rightarrow> Address list go" where
  "sensibleAddresses [] = Inr []"
| "sensibleAddresses (a # as) =
     go_bind (if a_err a = None \<and> a_t a = NormalAddressType then localpartIsSensible a else Inr False) (\<lambda>ok.
     go_bind (sensibleAddresses as) (\<lambda>as. Inr (if ok then a # as else as)))"

definition keepSensible :: "(string \<Rightarrow> nat) \<Rightarrow> Header \<Rightarrow> Header go" where
  "keepSensible occ h =
     (if occ FromFieldName = 1 then
        go_bind (derefAddressField FromFieldName h) (\<lambda>(r, from).
        if \<not> hf_Valid from then
          go_bind (sensibleAddresses (af_Addresses from)) (\<lambda>good.
          Inr (if good \<noteq> [] then replaceAddresses r from good h else h))
        else Inr h)
      else Inr h)"

text \<open>Whether the Received fields stand together: no field between two of them.\<close>

fun unbroken :: "bool \<Rightarrow> bool \<Rightarrow> (nat \<times> Field) list \<Rightarrow> bool" where
  "unbroken seenReceived seenOther [] = True"
| "unbroken seenReceived seenOther (f # fs) =
     (if nameOf f = ReceivedFieldName then
        if seenOther then False else unbroken True seenOther fs
      else unbroken seenReceived (seenReceived \<or> seenOther) fs)"

definition envelopeAddress :: "string \<Rightarrow> Header \<Rightarrow> Address option" where
  "envelopeAddress name h =
     (case addressField name 0 h of
        Some (_, f) \<Rightarrow>
          (case af_Addresses f of
             a # _ \<Rightarrow> if hf_Valid f \<and> a_t a \<noteq> BounceAddressType then Some a else None
           | [] \<Rightarrow> None)
      | None \<Rightarrow> None)"

definition fromEnvelope :: "(string \<Rightarrow> nat) \<Rightarrow> Header \<Rightarrow> Header go" where
  "fromEnvelope occ h =
     (if occ FromFieldName = 1 \<and> (occ SenderFieldName = 1 \<or> occ ReturnPathFieldName = 1) then
        go_bind (derefAddressField FromFieldName h) (\<lambda>(r, from).
        Inr (if \<not> hf_Valid from \<and> unbroken False False (h_Fields h) then
               (case (envelopeAddress ReturnPathFieldName h, envelopeAddress SenderFieldName h) of
                  (Some a, _) \<Rightarrow> replaceAddresses r from [a] h
                | (None, Some a) \<Rightarrow> replaceAddresses r from [a] h
                | (None, None) \<Rightarrow> h)
             else h))
      else Inr h)"

section \<open>Content types\<close>

definition nthContentType :: "nat \<Rightarrow> Header \<Rightarrow> (nat \<times> ContentType) go" where
  "nthContentType n h =
     (case header_field ContentTypeFieldName n h of
        Some (r, CTypeField f) \<Rightarrow> Inr (r, f) | _ \<Rightarrow> Inl FailedTypeAssertion)"

definition isType :: "string \<Rightarrow> string \<Rightarrow> ContentType \<Rightarrow> bool" where
  "isType t u f \<longleftrightarrow> ct_Type f = t \<and> ct_Subtype f = u"

definition dropPlain :: "(string \<Rightarrow> nat) \<Rightarrow> Header \<Rightarrow> Header go" where
  "dropPlain occ h =
     (if occ ContentTypeFieldName = 2 then
        go_bind (nthContentType 0 h) (\<lambda>a.
        go_bind (nthContentType 1 h) (\<lambda>b.
        let fs = [a, b];
            plain = list_ex (\<lambda>f. isType ''text'' ''plain'' (snd f)) fs;
            html = list_ex (\<lambda>f. isType ''text'' ''html'' (snd f)) fs;
            keep = filter (\<lambda>f. \<not> isType ''text'' ''plain'' (snd f) \<and> \<not> isType ''text'' ''html'' (snd f)) fs
        in Inr (if plain \<and> \<not> html \<and> keep \<noteq> []
                then removeWhere (\<lambda>f. nameOf f = ContentTypeFieldName \<and> fst f \<noteq> fst (last keep)) h else h)))
      else Inr h)"

datatype verdict = Good | Bad | Neutral

definition judgeType :: "go_env \<Rightarrow> string \<Rightarrow> ContentType \<Rightarrow> verdict go" where
  "judgeType E body ct =
     (if \<not> hf_Valid ct then Inr Bad
      else if isType ''text'' ''html'' ct then
        go_bind (simplify (take 2048 body)) (\<lambda>b.
        let b = toLower E b in Inr (if hasPrefix b ''<!doctype'' \<or> hasPrefix b ''<html'' then Good else Bad))
      else if ct_Type ct = ''multipart'' then
        (let b = parameter E ''boundary'' ct
         in if b = [] then Inr Bad
            else go_bind (simplify b) (\<lambda>t.
                 Inr (if b \<noteq> t then Bad
                      else if hasPrefix body (LF # ''--'' @ b) \<or> contains body (LF # ''--'' @ b) then Good else Bad)))
      else Inr Neutral)"

fun judgeTypes :: "go_env \<Rightarrow> string \<Rightarrow> (nat \<times> Field) list \<Rightarrow> (verdict \<times> Field) list go" where
  "judgeTypes E body [] = Inr []"
| "judgeTypes E body ((_, f) # fs) =
     (case f of
        CTypeField ct \<Rightarrow>
          go_bind (judgeType E body ct) (\<lambda>v. go_bind (judgeTypes E body fs) (\<lambda>vs. Inr ((v, f) # vs)))
      | _ \<Rightarrow> Inl FailedTypeAssertion)"

definition keepGoodType :: "go_env \<Rightarrow> string \<Rightarrow> (string \<Rightarrow> nat) \<Rightarrow> Header \<Rightarrow> Header go" where
  "keepGoodType E body occ h =
     (if occ ContentTypeFieldName > 1 then
        go_bind (judgeTypes E body (filter (\<lambda>f. nameOf f = ContentTypeFieldName) (h_Fields h))) (\<lambda>vs.
        let good = filter (\<lambda>v. fst v = Good) vs; neutral = filter (\<lambda>v. fst v = Neutral) vs
        in if good \<noteq> [] then addField (snd (hd good)) (RemoveAllNamed E ContentTypeFieldName h)
           else if length neutral = 1 then addField (snd (hd neutral)) (RemoveAllNamed E ContentTypeFieldName h)
           else Inr h)
      else Inr h)"

text \<open>
  The loop stops at the first field that is not a valid text/html one; without such a field only the first is kept. A
  field of another struct makes the pointer nil, which ends the loop like the end of the fields.
\<close>

definition isCType :: "nat \<times> Field \<Rightarrow> bool" where
  "isCType f \<longleftrightarrow> (case snd f of CTypeField _ \<Rightarrow> True | _ \<Rightarrow> False)"

definition isValidHtml :: "nat \<times> Field \<Rightarrow> bool" where
  "isValidHtml f \<longleftrightarrow> (case snd f of CTypeField ct \<Rightarrow> hf_Valid ct \<and> isType ''text'' ''html'' ct | _ \<Rightarrow> False)"

definition keepOneHtml :: "go_env \<Rightarrow> (string \<Rightarrow> nat) \<Rightarrow> Header \<Rightarrow> Header go" where
  "keepOneHtml E occ h =
     (if occ ContentTypeFieldName > 1 then
        go_bind (Header_ContentType h) (\<lambda>ct.
        if list_all isValidHtml (takeWhile isCType (filter (\<lambda>f. nameOf f = ContentTypeFieldName) (h_Fields h))) then
          (case ct of
             None \<Rightarrow> Inl NilDereference
           | Some (_, f) \<Rightarrow> addField (CTypeField f) (RemoveAllNamed E ContentTypeFieldName h))
        else Inr h)
      else Inr h)"

text \<open>Several addresses in Sender: all but the last in one domain, and the last in another.\<close>

definition lastSender :: "go_env \<Rightarrow> Header \<Rightarrow> Header" where
  "lastSender E h =
     (case addressField SenderFieldName 0 h of
        None \<Rightarrow> h
      | Some (r, f) \<Rightarrow>
          (let as = af_Addresses f
           in if length as > 1 \<and>
                 length (takeWhile (\<lambda>a. toTitle E (a_domain a) = toTitle E (a_domain (hd as))) as) = length as - 1
              then replaceAddresses r f [last as] h else h))"

end
