(* ===== verification/HeaderRescue.thy ===== *)
theory HeaderRescue
  imports HeaderGuess
begin

text \<open>
  The last paragraphs of \<open>RepairWithBody\<close> (\<^verbatim>\<open>header.go\<close>): delivery status notifications without From, From
  fields with nothing but \<open><>\<close>, Reply-To, Content-Transfer-Encoding; and \<open>RepairWithBody\<close> as a whole.
\<close>

section \<open>The text of an error\<close>

text \<open>
  Whether the text of an error contains \<open>No-bounce\<close>. The texts quote input with \<open>%q\<close>, which leaves the letters
  and the hyphen of that word as they are, so a quoted string contains it exactly when the string does.
\<close>

definition saysNoBounce :: "string \<Rightarrow> bool" where
  "saysNoBounce s \<longleftrightarrow> contains s ''No-bounce''"

fun addrErrorNoBounce :: "addr_error \<Rightarrow> bool" where
  "addrErrorNoBounce (AtPosition msg i nearby) = (saysNoBounce msg \<or> saysNoBounce nearby)"
| "addrErrorNoBounce (LocalpartTooLong n lp dm) = saysNoBounce (lp @ ''@'' @ dm)"
| "addrErrorNoBounce (Reported e i nearby) = (addrErrorNoBounce e \<or> saysNoBounce nearby)"

fun errorNoBounce :: "field_error \<Rightarrow> bool" where
  "errorNoBounce NoBounce = True"
| "errorNoBounce (AddressError e) = addrErrorNoBounce e"
| "errorNoBounce (InvalidMailbox s) = saysNoBounce s"
| "errorNoBounce _ = False"

definition fromNoBounce :: "Header \<Rightarrow> bool" where
  "fromNoBounce h \<longleftrightarrow>
     (case header_field FromFieldName 0 h of
        None \<Rightarrow> False
      | Some (_, f) \<Rightarrow> (case Field_Error f of None \<Rightarrow> False | Some e \<Rightarrow> errorNoBounce e))"

section \<open>Delivery status notifications\<close>

text \<open>One line of a delivery status: the name of the reporting MTA and the address of the recipient so far.\<close>

definition statusLine :: "go_env \<Rightarrow> string \<Rightarrow> string \<times> Address option \<Rightarrow> (string \<times> Address option) go" where
  "statusLine E l st =
     (let (mta, address) = st; line = toLower E l
      in go_bind (go_bind (str_section line '':'' 1) simplify) (\<lambda>fld.
         go_bind (str_section line '':'' 2) (\<lambda>rest.
         go_bind (go_bind (str_section rest '';'' 1) simplify) (\<lambda>dm.
         go_bind (go_bind (str_section rest '';'' 2) simplify) (\<lambda>value.
         if fld = ''reporting-mta'' \<and> dm = ''dns'' \<and> value \<noteq> [] then Inr (value, address)
         else if (fld = ''final-recipient'' \<or> fld = ''original-recipient'') \<and> dm = ''rfc822'' \<and>
                 address = None \<and> value \<noteq> [] then
           go_bind (NewAddressParser E value) (\<lambda>p.
           Inr (mta, find (\<lambda>a. a_err a = None \<and> a_domain a \<noteq> []) (ap_Addresses p)))
         else Inr st)))))"

text \<open>
  The loop over the parts. The variable \<open>h\<close> inside the loop is the header of the part, which hides the method's
  receiver, so the postmaster's address goes into a header that is thrown away; what is left is the panics.
\<close>

fun statusParts :: "go_env \<Rightarrow> (Header option \<times> string) list \<Rightarrow> unit go" where
  "statusParts E [] = Inr ()"
| "statusParts E ((h, data) # ps) =
     go_bind (case h of None \<Rightarrow> Inr None | Some h \<Rightarrow> Header_ContentType h) (\<lambda>ct.
     if (case ct of None \<Rightarrow> False | Some (_, ct) \<Rightarrow> isType ''message'' ''delivery-status'' ct) then
       go_bind (foldGo (statusLine E) (splitOn [LF] data) ([], None)) (\<lambda>(mta, address).
       if mta \<noteq> [] \<and> address \<noteq> None then Inr () else statusParts E ps)
     else statusParts E ps)"

definition repairStatus ::
    "go_env \<Rightarrow> (string \<Rightarrow> string \<Rightarrow> (Header option \<times> string) list go) \<Rightarrow> string \<Rightarrow> Header \<Rightarrow> unit go" where
  "repairStatus E parse body h =
     (if h_mode h = RFC5322Header \<and> (header_field FromFieldName 0 h = None \<or> fromNoBounce h) then
        go_bind (Header_ContentType h) (\<lambda>ct.
        case ct of
          None \<Rightarrow> Inr ()
        | Some (_, ct) \<Rightarrow>
            if isType ''multipart'' ''report'' ct \<and> parameter E ''report-type'' ct = ''delivery-status'' then
              go_bind (parse body (parameter E ''boundary'' ct)) (statusParts E)
            else Inr ())
      else Inr ())"

section \<open>From fields without an address\<close>

text \<open>The start of the top-level domain of the victim, with one or two labels.\<close>

definition labelBefore :: "string \<Rightarrow> int \<Rightarrow> int \<Rightarrow> bool go" where
  "labelBefore victim tld n = go_bind (idxi victim (tld - n)) (\<lambda>c. Inr (c = CHR ''.''))"

definition victimTld :: "string \<Rightarrow> int go" where
  "victimTld victim =
     (let n = int (length victim)
      in go_bind (labelBefore victim n 3) (\<lambda>three.
         go_bind (if three then Inr (n - 3)
                  else go_bind (labelBefore victim n 4) (\<lambda>four. Inr (if four then n - 4 else n))) (\<lambda>tld.
         if tld < n then
           go_bind (labelBefore victim tld 3) (\<lambda>three.
           if three then Inr (tld - 3)
           else go_bind (labelBefore victim tld 4) (\<lambda>four.
                if four then Inr (tld - 4)
                else if tld = n - 2 then
                  go_bind (labelBefore victim tld 5) (\<lambda>five. Inr (if five then tld - 5 else tld))
                else Inr tld))
         else Inr tld)))"

definition victimAddress :: "go_env \<Rightarrow> Address option \<Rightarrow> Address option go" where
  "victimAddress E msgid =
     (let victim = (case msgid of None \<Rightarrow> [] | Some m \<Rightarrow> toLower E (a_domain m)); me = ''localhost''
      in go_bind (victimTld victim) (\<lambda>tld.
         let dot = indexByteInt victim (CHR ''.'');
             cut = (dot < tld);
             tld = (if cut then tld - (dot + 1) else tld);
             victim = (if cut then drop (nat (dot + 1)) victim else victim)
         in if victim \<noteq> [] \<and> victim \<noteq> me \<and> \<not> hasSuffix me (''.'' @ victim) \<and> tld < int (length victim) then
              (case msgid of
                 None \<Rightarrow> Inl NilDereference
               | Some m \<Rightarrow>
                   Inr (Some (NewAddress (''postmaster (on behalf of unnamed '' @ a_domain m @ '' user)'')
                     ''postmaster'' victim)))
            else Inr None))"

definition fromMessageID :: "go_env \<Rightarrow> (string \<Rightarrow> nat) \<Rightarrow> Header \<Rightarrow> Header go" where
  "fromMessageID E occ h =
     (if occ FromFieldName = 1 \<and> occ MessageIDFieldName = 1 then
        go_bind (derefAddressField FromFieldName h) (\<lambda>(r, from).
        if \<not> hf_Valid from \<and> map a_t (af_Addresses from) = [BounceAddressType] then
          (let al = Header_Addresses MessageIDFieldName h
           in go_bind (victimAddress E (if al = [] then None else Some (hd al))) (\<lambda>a.
              Inr (case a of None \<Rightarrow> h | Some a \<Rightarrow> replaceAddresses r from [a] h)))
        else Inr h)
      else Inr h)"

text \<open>The display name that can be found in the unparsed value: the changes to \<open>raw\<close> in the order of the source.\<close>

definition indexInt :: "string \<Rightarrow> string \<Rightarrow> int" where
  "indexInt s t = (case indexOf s t of None \<Rightarrow> -1 | Some i \<Rightarrow> int i)"

definition rawStrip :: "string \<Rightarrow> string go" where
  "rawStrip raw =
     go_bind (if hasSuffix raw ''<>'' then simplify (take (length raw - 2) raw) else Inr raw) (\<lambda>raw.
     go_bind (if hasPrefix raw [CHR 0x22, CHR 0x22] then simplify (drop 2 raw) else Inr raw) (\<lambda>raw.
     if hasPrefix raw [CHR 0x22, CHR '' '', CHR 0x22] then simplify (drop 3 raw) else Inr raw))"

definition rawSections :: "string \<Rightarrow> string go" where
  "rawSections raw =
     go_bind (if contains raw ''<'' \<and> indexInt raw ''<'' > 3 then str_section raw ''<'' 1 else Inr raw) (\<lambda>raw.
     go_bind (if hasPrefix raw [CHR 0x22] \<and> indexInt (drop 1 raw) [CHR 0x22] + 1 > 2
              then str_section raw [CHR 0x22] 2 else Inr raw) (\<lambda>raw.
     go_bind (simplify (unquote (unquote raw (CHR 0x22) (CHR 0x5C)) (CHR 0x27) (CHR 0x5C))) (\<lambda>raw.
     let lt = indexInt raw ''<''
     in go_bind (if contains raw ''<'' \<and> indexInt (drop (nat (1 + lt)) raw) ''>'' + 1 + lt > 2 + lt
                 then go_bind (str_section raw ''<'' 2) (\<lambda>t. go_bind (str_section t ''>'' 1) simplify)
                 else Inr raw) (\<lambda>raw.
        go_bind (if hasPrefix raw ''<'' \<and> hasSuffix raw ''>''
                 then go_bind (substr raw 1 (length raw - 1)) simplify else Inr raw) (\<lambda>raw.
        Inr (if length raw < 3 then [] else raw))))))"

text \<open>The loop that replaces the characters of an address by U+FFFD, counting the others.\<close>

fun scrubName :: "string \<Rightarrow> bool \<Rightarrow> nat \<Rightarrow> string \<Rightarrow> string \<times> nat" where
  "scrubName [] fffd known buf = (buf, known)"
| "scrubName (c # cs) fffd known buf =
     (if c = CHR ''@'' \<or> c = CHR ''<'' \<or> c = CHR ''>'' \<or> c < CHR '' '' \<or> (CHR 0x80 \<le> c \<and> c < CHR 0xA0)
      then scrubName cs True known buf
      else scrubName cs False (known + 1)
             ((if fffd \<and> buf \<noteq> [] then buf @ encodeRune runeError else buf) @ [c]))"

definition rawName :: "go_env \<Rightarrow> string \<Rightarrow> string go" where
  "rawName E raw =
     go_bind (simplify (fst (decodeUsAscii E raw))) (\<lambda>n.
     Inr (if n \<noteq> [] then let (buf, known) = scrubName n False 0 [] in if known < 3 then [] else buf else n))"

definition repairNoFrom :: "go_env \<Rightarrow> Header \<Rightarrow> Header go" where
  "repairNoFrom E h =
     (if h_mode h = RFC5322Header \<and>
         (case header_field FromFieldName 0 h of
            None \<Rightarrow> True
          | Some (_, f) \<Rightarrow> \<not> Field_Valid f \<and> Header_Addresses FromFieldName h = [] \<or> fromNoBounce h)
      then
        (let from = addressField FromFieldName 0 h
         in go_bind (case from of None \<Rightarrow> Inr [] | Some (_, f) \<Rightarrow> simplify (hf_unparsedValue f)) (\<lambda>raw.
            go_bind (rawStrip raw) (\<lambda>raw.
            go_bind (rawSections raw) (\<lambda>raw.
            go_bind (rawName E raw) (\<lambda>n.
            let a = NewAddress n ''invalid'' ''invalid.invalid''
            in case from of
                 Some (r, f) \<Rightarrow> Inr (replaceAddresses r f [a] h)
               | None \<Rightarrow> addField (AddrField ((NewAddressField FromFieldName)\<lparr> af_Addresses := [a] \<rparr>)) h)))))
      else Inr h)"

section \<open>The other fields\<close>

definition dropReplyTo :: "go_env \<Rightarrow> (string \<Rightarrow> nat) \<Rightarrow> Header \<Rightarrow> Header go" where
  "dropReplyTo E occ h =
     (if occ FromFieldName > 0 \<and> occ ReplyToFieldName > 0 then
        go_bind (derefAddressField FromFieldName h) (\<lambda>(_, from).
        if hf_Valid from then
          go_bind (derefAddressField ReplyToFieldName h) (\<lambda>(_, rt).
          Inr (if \<not> hf_Valid rt \<and> af_Addresses from \<noteq> [] then RemoveAllNamed E ReplyToFieldName h else h))
        else Inr h)
      else Inr h)"

text \<open>The lengths of the lines: the shortest, the longest and their number.\<close>

fun lineLengths :: "string \<Rightarrow> int \<Rightarrow> int \<Rightarrow> int \<Rightarrow> int \<Rightarrow> int \<times> int \<times> int" where
  "lineLengths [] minl maxl l n = (minl, maxl, n)"
| "lineLengths (c # cs) minl maxl l n =
     (if c = LF \<or> c = CR
      then lineLengths cs (if l < minl then l else minl) (if l > maxl then l else maxl) 0 (n + 1)
      else lineLengths cs minl maxl (l + 1) n)"

definition repairCTE :: "go_env \<Rightarrow> string \<Rightarrow> (string \<Rightarrow> nat) \<Rightarrow> Header \<Rightarrow> Header go" where
  "repairCTE E body occ h =
     (if occ ContentTransferEncodingFieldName > 0 then
        go_bind (Header_CTE h) (\<lambda>cte.
        case cte of
          None \<Rightarrow> Inr h
        | Some (_, f) \<Rightarrow>
            if header_field ContentTransferEncodingFieldName 1 h \<noteq> None \<or> \<not> hf_Valid f then
              (let (minl, maxl, n) = lineLengths body (2 ^ 31 - 2) 0 0 0;
                   h = RemoveAllNamed E ContentTransferEncodingFieldName h
               in if n > 5 \<and> maxl = minl \<and> minl > 50
                  then Header_Add E ContentTransferEncodingFieldName ''base64'' h else Inr h)
            else Inr h)
      else Inr h)"

definition typeAsCTE :: "go_env \<Rightarrow> (string \<Rightarrow> nat) \<Rightarrow> Header \<Rightarrow> Header go" where
  "typeAsCTE E occ h =
     (if occ ContentTransferEncodingFieldName = 0 \<and> occ ContentTypeFieldName > 0 then
        go_bind (Header_ContentType h) (\<lambda>ct.
        case ct of
          None \<Rightarrow> Inl NilDereference
        | Some (_, f) \<Rightarrow>
            if \<not> hf_Valid f then
              go_bind (CTE_Parse E (hf_unparsedValue f) NewContentTransferEncoding) (\<lambda>phaps.
              if hf_Valid phaps then
                go_bind (addField (CTEField phaps)
                  (RemoveAllNamed E ContentTypeFieldName (RemoveAllNamed E ContentTransferEncodingFieldName h))) (\<lambda>h.
                Header_Add E ''Content-Type'' ''application/octet-stream'' h)
              else Inr h)
            else Inr h)
      else Inr h)"

definition dropLocations :: "Header \<Rightarrow> Header" where
  "dropLocations h =
     (if header_field ContentBaseFieldName 0 h \<noteq> None \<or> header_field ContentLocationFieldName 0 h \<noteq> None
      then dropInvalid [ContentBaseFieldName, ContentLocationFieldName] h else h)"

section \<open>The method\<close>

definition RepairWithBody ::
    "go_env \<Rightarrow> (string \<Rightarrow> string \<Rightarrow> (Header option \<times> string) list go) \<Rightarrow> Header option list \<Rightarrow> string \<Rightarrow>
     Header \<Rightarrow> Header go" where
  "RepairWithBody E parse parents body h =
     (let (valid, h) = Header_Valid h;
          occ = occurrences h
      in if valid then Inr h
         else
           go_bind (removeCopies occ h) (\<lambda>h.
           go_bind (repairDate E parents occ h) (\<lambda>h.
           go_bind (repairFrom E occ h) (\<lambda>h.
           go_bind (repairFromReceipt E h) (\<lambda>h.
           go_bind (keepGoodSender E occ (dropBroken occ (dropReceived occ h))) (\<lambda>h.
           go_bind (repairSubjects E occ h) (\<lambda>h.
           go_bind (repairBoundary E body occ h) (\<lambda>h.
           go_bind (keepSensible occ h) (\<lambda>h.
           go_bind (fromEnvelope occ h) (\<lambda>h.
           go_bind (dropPlain occ h) (\<lambda>h.
           go_bind (keepGoodType E body occ h) (\<lambda>h.
           go_bind (keepOneHtml E occ h) (\<lambda>h.
           let h = lastSender E h
           in go_bind (repairStatus E parse body h) (\<lambda>_.
              go_bind (fromMessageID E occ h) (\<lambda>h.
              go_bind (repairNoFrom E h) (\<lambda>h.
              go_bind (dropReplyTo E occ h) (\<lambda>h.
              go_bind (repairCTE E body occ h) (\<lambda>h.
              go_bind (typeAsCTE E occ h) (\<lambda>h.
              Inr ((dropLocations h)\<lparr> h_verified := False \<rparr>))))))))))))))))))))"

end
