(* ===== verification/RescueLaws.thy ===== *)
theory RescueLaws
  imports RepairLaws HeaderRescue
begin

text \<open>
  \<open>ReadHeader\<close> and \<open>RepairWithBody\<close> (\<^verbatim>\<open>header.go\<close>) keep the invariant of a header and end. \<open>RepairWithBody\<close> gives a
  plain header no Content-Type field.
\<close>

section \<open>ReadHeader\<close>

lemma tame_scanIdx [simp]: "tame (scanIdx p s i)"
  by (simp add: scanIdx_def Let_def)

lemma tame_fromLine [simp]: "tame (fromLine s i)"
  unfolding fromLine_def by (intro tame_rules; simp)

lemma fieldLine_wf:
  "asciiConverter E \<Longrightarrow> hinv False h \<Longrightarrow> ensures rangeFault (fieldLine E s i j h) (\<lambda>(_, h). hinv False h)"
  unfolding fieldLine_def by (intro ensures_rules Header_Add_ranged [where t = False] ensures_tameI) auto

lemma headerLine_wf:
  "asciiConverter E \<Longrightarrow> hinv False h \<Longrightarrow> ensures rangeFault (headerLine E s i h) (\<lambda>(_, _, h). hinv False h)"
  unfolding headerLine_def by (intro ensures_rules fieldLine_wf [THEN ensures_post] ensures_tameI) auto

lemma readLines_wf:
  "asciiConverter E \<Longrightarrow> hinv False h \<Longrightarrow> ensures rangeFault (readLines E s i h) (\<lambda>(_, h). hinv False h)"
proof (induction E s i h rule: readLines.induct)
  case (1 E s i h)
  show ?case
    by (subst readLines.simps, rule ensures_bind, rule ensures_mono [OF headerLine_wf [OF 1(2,3)]])
      (use 1(1) [OF _ _ _ _ 1(2)] in \<open>auto split: prod.split\<close>)
qed

lemma ReadHeader_wf: "asciiConverter E \<Longrightarrow> ensures rangeFault (ReadHeader E s m) (hinv False)"
  unfolding ReadHeader_def by (intro ensures_rules readLines_wf [THEN ensures_post]) auto

section \<open>RepairWithBody: dates and senders\<close>

text \<open>All panics of the method but a loop without end are allowed: it dereferences nil pointers.\<close>

lemma ensures_callI: "tame m \<Longrightarrow> (\<And>x. m = Inr x \<Longrightarrow> Q x) \<Longrightarrow> ensures ends m Q"
  by (rule ensures_tame) simp_all

lemma tame_lastSemicolon [simp]: "tame (lastSemicolon v i)"
proof (induction v i rule: lastSemicolon.induct)
  case (1 v i)
  show ?case by (subst lastSemicolon.simps, intro tame_rules 1) simp_all
qed

lemma tame_receivedDate [simp]: "tame (receivedDate E d fs)"
proof (induction fs arbitrary: d)
  case (Cons f fs)
  show ?case by (subst receivedDate.simps, intro tame_rules Cons.IH) simp_all
qed simp

lemma parentDate_ends: "ensures ends (parentDate ps) (\<lambda>_. True)"
  by (induction ps rule: parentDate.induct)
    (auto simp: Header_Date_def split: option.split Field.split intro!: ensures_bind)

lemma headerCase_names [simp]:
  "headerCase DateFieldName = DateFieldName" "headerCase FromFieldName = FromFieldName"
  "headerCase ContentTransferEncodingFieldName = ContentTransferEncodingFieldName"
  by code_simp+

lemmas add_call = Header_Add_ranged [where F = ends, OF _ _ _ allowed_mono(2)]

lemma wantsDate_ends: "ensures ends (wantsDate occ h) (\<lambda>_. True)"
  unfolding wantsDate_def Header_Date_def
  by (intro ensures_rules) (auto split: option.split Field.split)

lemma repairDate_wf:
  assumes "asciiConverter E" and "hinv t h"
  shows "ensures ends (repairDate E parents occ h) (hinv t)"
  unfolding repairDate_def using assms
  by (intro ensures_rules wantsDate_ends [THEN ensures_post] add_call [where t = t] parentDate_ends [THEN ensures_post]
      ensures_callI) simp_all

lemma tame_assertSingleAddress [simp]: "tame (assertSingleAddress p)"
proof -
  have print: "tame (printOthers as)" for as by (induction as) simp_all
  have report: "wp (reportErrors as) (\<lambda>_ _. True) q" for as q
  proof (induction as arbitrary: q)
    case (Cons a as)
    then show ?case by (cases "a_err a") (auto intro!: wp_mono [OF recordError_keeps])
  qed simp
  show ?thesis
    unfolding assertSingleAddress_def using print
    by (intro tame_bind wp_tame [where Q = "\<lambda>_ _. True"])
      (auto intro!: wp_mono [OF report] wp_mono [OF setError_keeps])
qed

lemma tame_firstWordAddress [simp]: "asciiConverter E \<Longrightarrow> tame (firstWordAddress E f)"
  unfolding firstWordAddress_def by (intro tame_rules; simp add: tame_str_section)

lemma addFrom_wf: "asciiConverter E \<Longrightarrow> hinv t h \<Longrightarrow> ensures ends (addFrom E as h) (hinv t)"
  unfolding addFrom_def by (intro ensures_rules add_call [where t = t] ensures_callI) simp_all

lemma repairFrom_wf: "asciiConverter E \<Longrightarrow> hinv t h \<Longrightarrow> ensures ends (repairFrom E occ h) (hinv t)"
  unfolding repairFrom_def by (intro ensures_rules addFrom_wf ensures_callI) simp_all

lemma tame_receiptAddress [simp]: "asciiConverter E \<Longrightarrow> tame (receiptAddress E fs)"
  by (induction fs) simp_all

lemma repairFromReceipt_wf: "asciiConverter E \<Longrightarrow> hinv t h \<Longrightarrow> ensures ends (repairFromReceipt E h) (hinv t)"
  unfolding repairFromReceipt_def by (intro ensures_rules addFrom_wf ensures_callI) simp_all

lemma hinv_drops [simp]: "hinv t h \<Longrightarrow> hinv t (dropBroken occ (dropReceived occ h))" "hinv t h \<Longrightarrow> hinv t (dropLocations h)"
  by (simp_all add: dropBroken_def dropReceived_def dropLocations_def dropInvalid_def Header_Valid_verify Let_def)

lemma goodSender_ends: "ensures ends (goodSender E fr fs) (\<lambda>_. True)"
  by (induction E fr fs rule: goodSender.induct) (auto split: Field.split)

lemma keepGoodSender_wf: "hinv t h \<Longrightarrow> ensures ends (keepGoodSender E occ h) (hinv t)"
  unfolding keepGoodSender_def
  by (intro ensures_rules goodSender_ends [THEN ensures_post]) (auto split: option.split)

lemma tame_badSubjects [simp]: "tame (badSubjects E fs)"
proof (induction fs)
  case (Cons f fs)
  then show ?case by (cases f) (simp add: badSubject_def)
qed simp

lemma hinv_fold_Remove: "hinv t h \<Longrightarrow> hinv t (fold Header_Remove rs h)"
  by (induction rs arbitrary: h) simp_all

lemma repairSubjects_wf: "hinv t h \<Longrightarrow> ensures ends (repairSubjects E occ h) (hinv t)"
  unfolding repairSubjects_def by (intro ensures_rules ensures_callI) (auto simp: hinv_fold_Remove)

section \<open>RepairWithBody: boundaries and addresses\<close>

lemma tame_boundary_loop [simp]: "tame (boundary_loop body i b)"
proof (induction body i b rule: boundary_loop.induct)
  case (1 body i b)
  have at: "tame (boundaryAt body i b)" unfolding boundaryAt_def by (intro tame_rules; simp)
  show ?case by (subst boundary_loop.simps, intro tame_rules 1 at) auto
qed

lemma repairBoundary_wf:
  assumes "hinv t h"
  shows "ensures ends (repairBoundary E body occ h) (hinv t)"
proof -
  have "hinv t (setField r (CTypeField ((addParameter E ''boundary'' b f)\<lparr> hf_err := None \<rparr>)) h)"
    if "\<not> t" "wfField (CTypeField f)" for r f b
    using that assms by (intro hinv_setField) (auto simp: addParameter_def wfParams_set)
  with assms show ?thesis
    unfolding repairBoundary_def
    by (intro ensures_rules field_calls [where t = t] ensures_callI) (auto split: option.splits)
qed

lemma replaceAddresses_wf:
  "hinv t h \<Longrightarrow> addressField n 0 h = Some (r, f) \<Longrightarrow> hinv t (replaceAddresses r f as h)"
  unfolding replaceAddresses_def by (rule hinv_setAddresses)

lemma derefAddressField_ends:
  "ensures ends (derefAddressField n h) (\<lambda>(r, f). addressField n 0 h = Some (r, f))"
  by (simp add: derefAddressField_def split: option.split)

lemma tame_sensibleAddresses [simp]: "tame (sensibleAddresses as)"
  by (induction as) simp_all

lemma keepSensible_wf: "hinv t h \<Longrightarrow> ensures ends (keepSensible occ h) (hinv t)"
  unfolding keepSensible_def
  by (intro ensures_rules derefAddressField_ends [THEN ensures_post] ensures_callI) (auto intro: replaceAddresses_wf)

lemma fromEnvelope_wf: "hinv t h \<Longrightarrow> ensures ends (fromEnvelope occ h) (hinv t)"
  unfolding fromEnvelope_def
  by (intro ensures_rules derefAddressField_ends [THEN ensures_post])
    (auto intro: replaceAddresses_wf split: option.split)

lemma lastSender_wf: "hinv t h \<Longrightarrow> hinv t (lastSender E h)"
  by (auto simp: lastSender_def Let_def split: option.split intro: replaceAddresses_wf)

section \<open>RepairWithBody: content types\<close>

text \<open>\<open>occ\<close> is the count of the fields at the start; a plain header has no Content-Type field then.\<close>

lemma nthContentType_ends: "ensures ends (nthContentType n h) (\<lambda>_. True)"
  by (auto simp: nthContentType_def split: option.split Field.split)

lemma dropPlain_wf: "hinv t h \<Longrightarrow> ensures ends (dropPlain occ h) (hinv t)"
  unfolding dropPlain_def by (intro ensures_rules nthContentType_ends [THEN ensures_post]) simp_all

lemma judgeTypes_wf:
  "list_all (\<lambda>f. wfField (snd f)) fs \<Longrightarrow> ensures ends (judgeTypes E body fs) (list_all (\<lambda>v. wfField (snd v)))"
proof (induction fs)
  case (Cons f fs)
  have judge: "tame (judgeType E body ct)" for ct
    unfolding judgeType_def by (intro tame_rules; simp)
  obtain r g where f: "f = (r, g)" by (cases f)
  from Cons.prems have fs: "list_all (\<lambda>f. wfField (snd f)) fs" and g: "wfField g" by (simp_all add: f)
  have "ensures ends (go_bind (judgeType E body ct) (\<lambda>v. go_bind (judgeTypes E body fs) (\<lambda>vs. Inr ((v, g) # vs))))
      (list_all (\<lambda>v. wfField (snd v)))" for ct
    by (intro ensures_bind ensures_callI [OF judge] ensures_post [OF Cons.IH [OF fs]]) (simp add: g)
  then show ?case by (auto simp: f split: Field.split)
qed simp

lemma hd_filter_wf: "list_all (\<lambda>v. wfField (snd v)) vs \<Longrightarrow> filter P vs \<noteq> [] \<Longrightarrow> wfField (snd (hd (filter P vs)))"
  using hd_in_set [of "filter P vs"] by (auto simp: list_all_iff)

lemma addField_ends:
  "hinv t h \<Longrightarrow> wfField f \<Longrightarrow> \<not> t \<or> Field_Name f \<noteq> ContentTypeFieldName \<Longrightarrow> (\<And>h'. hinv t h' \<Longrightarrow> Q h') \<Longrightarrow>
   ensures ends (addField f h) Q"
  by (rule ensures_safe [OF addField_wf [where t = t]]) auto

lemma keepGoodType_wf:
  assumes "hinv t h" and "t \<Longrightarrow> occ ContentTypeFieldName = 0"
  shows "ensures ends (keepGoodType E body occ h) (hinv t)"
proof -
  have "list_all (\<lambda>f. wfField (snd f)) (filter (\<lambda>f. nameOf f = ContentTypeFieldName) (h_Fields h))"
    using assms(1) by (auto simp: hinv_defs list_all_iff)
  note judge = judgeTypes_wf [OF this, THEN ensures_post]
  show ?thesis
    unfolding keepGoodType_def using assms
    by (intro ensures_rules judge addField_ends [where t = t])
      (auto intro!: hd_filter_wf)
qed

lemma keepOneHtml_wf:
  assumes "hinv t h" and "t \<Longrightarrow> occ ContentTypeFieldName = 0"
  shows "ensures ends (keepOneHtml E occ h) (hinv t)"
  unfolding keepOneHtml_def using assms
  by (intro ensures_rules field_calls [where t = t] addField_ends [where t = t]) auto

section \<open>RepairWithBody: the last paragraphs\<close>

lemma tame_statusLine [simp]: "asciiConverter E \<Longrightarrow> tame (statusLine E l st)"
  unfolding statusLine_def by (intro tame_rules; simp add: tame_str_section)

lemma statusParts_ends: "asciiConverter E \<Longrightarrow> ensures ends (statusParts E ps) (\<lambda>_. True)"
proof (induction ps)
  case (Cons p ps)
  have ct: "ensures ends (Header_ContentType h) (\<lambda>_. True)" for h
    by (auto simp: Header_ContentType_def split: option.split Field.split)
  obtain h data where p: "p = (h, data)" by (cases p)
  show ?case
    unfolding p statusParts.simps using Cons
    by (intro ensures_rules ct [THEN ensures_post] Cons.IH ensures_callI) (auto intro!: tame_foldGo)
qed simp

lemma repairStatus_ends:
  assumes "asciiConverter E" and "hinv t h" and "\<And>boundary. t \<or> ensures ends (parse body boundary) (\<lambda>_. True)"
  shows "ensures ends (repairStatus E parse body h) (\<lambda>_. True)"
proof -
  have "ensures ends (parse body b) (\<lambda>ps. ensures ends (statusParts E ps) (\<lambda>_. True))" if "\<not> t" for b
    using assms(3) [of b] that by (auto intro: ensures_post statusParts_ends [OF assms(1)])
  then show ?thesis
    unfolding repairStatus_def using assms(2)
    by (intro ensures_if ensures_bind field_calls [where t = t] ensures_case_option ensures_case_prod) auto
qed

lemma tame_victimAddress: "ensures ends (victimAddress E m) (\<lambda>_. True)"
proof -
  have "tame (victimTld v)" for v unfolding victimTld_def labelBefore_def by (intro tame_rules; simp)
  then show ?thesis
    unfolding victimAddress_def by (intro ensures_rules ensures_callI) auto
qed

lemma fromMessageID_wf: "hinv t h \<Longrightarrow> ensures ends (fromMessageID E occ h) (hinv t)"
  unfolding fromMessageID_def Let_def
  by (intro ensures_rules derefAddressField_ends [THEN ensures_post] tame_victimAddress [THEN ensures_post])
    (auto intro: replaceAddresses_wf split: option.split)

lemma tame_raw [simp]: "tame (rawStrip raw)" "tame (rawSections raw)" "tame (rawName E raw)"
  unfolding rawStrip_def rawSections_def rawName_def by (intro tame_rules; simp add: tame_str_section)+

lemma repairNoFrom_wf: "hinv t h \<Longrightarrow> ensures ends (repairNoFrom E h) (hinv t)"
  unfolding repairNoFrom_def Let_def
  by (intro ensures_rules addField_ends [where t = t] ensures_callI)
    (auto intro: replaceAddresses_wf simp: NewAddressField_def newHeaderField_def HeaderField.extend_def
      addressFieldNames_def)

lemma dropReplyTo_wf: "hinv t h \<Longrightarrow> ensures ends (dropReplyTo E occ h) (hinv t)"
  unfolding dropReplyTo_def by (intro ensures_rules derefAddressField_ends [THEN ensures_post]) simp_all

lemma repairCTE_wf: "asciiConverter E \<Longrightarrow> hinv t h \<Longrightarrow> ensures ends (repairCTE E body occ h) (hinv t)"
  unfolding repairCTE_def by (intro ensures_rules field_calls [where t = t] add_call [where t = t]) simp_all

lemma typeAsCTE_wf:
  assumes "asciiConverter E" and "hinv t h" and "t \<Longrightarrow> occ ContentTypeFieldName = 0"
  shows "ensures ends (typeAsCTE E occ h) (hinv t)"
proof -
  have "wfField (CTEField f)" if "CTE_Parse E v NewContentTransferEncoding = Inr f" for v f
    using mimeKept_CTE_Parse [OF that]
    by (simp add: mimeKept_def NewContentTransferEncoding_def newMIMEField_def newHeaderField_def
        HeaderField.extend_def MIMEField.extend_def wfParams_def)
  with assms show ?thesis
    unfolding typeAsCTE_def
    by (intro ensures_rules field_calls [where t = t] addField_ends [where t = t] add_call [where t = t] ensures_callI)
      (auto split: option.splits)
qed

lemmas body_calls =
  removeCopies_wf [THEN ensures_ranged] repairDate_wf [THEN ensures_post] repairFrom_wf [THEN ensures_post]
  repairFromReceipt_wf [THEN ensures_post] keepGoodSender_wf [THEN ensures_post] repairSubjects_wf [THEN ensures_post]
  repairBoundary_wf [THEN ensures_post] keepSensible_wf [THEN ensures_post] fromEnvelope_wf [THEN ensures_post]
  dropPlain_wf [THEN ensures_post] keepGoodType_wf [THEN ensures_post] keepOneHtml_wf [THEN ensures_post]
  repairStatus_ends [THEN ensures_post] fromMessageID_wf [THEN ensures_post] repairNoFrom_wf [THEN ensures_post]
  dropReplyTo_wf [THEN ensures_post] repairCTE_wf [THEN ensures_post] typeAsCTE_wf [THEN ensures_post]

lemma plain_occurrences: "hinv t h \<Longrightarrow> t \<Longrightarrow> occurrences h ContentTypeFieldName = 0"
  by (auto simp: hinv_defs occurrences_def list_all_iff filter_empty_conv)

lemma RepairWithBody_wf:
  assumes "asciiConverter E" and "hinv t h" and "\<And>boundary. t \<or> ensures ends (parse body boundary) (\<lambda>_. True)"
  shows "ensures ends (RepairWithBody E parse parents body h) (hinv t)"
proof -
  have "hinv t (verify h)" using assms(2) by simp
  note occ = plain_occurrences [OF this]
  show ?thesis
    unfolding RepairWithBody_def Header_Valid_verify using assms occ
    by (intro ensures_rules body_calls [where t = t]) (simp_all add: lastSender_wf)
qed

end
