(* ===== verification/HeaderProperties.thy ===== *)
theory HeaderProperties
  imports RescueLaws
begin

text \<open>
  What holds of every header of the library (\<^verbatim>\<open>header.go\<close>): the operations as a transition relation, the invariant of
  the reachable headers, the type assertions that therefore hold, what \<open>Valid\<close> decides and what \<open>Simplify\<close> leaves.
\<close>

section \<open>The operations\<close>

text \<open>One rule per method that changes a header; \<open>RepairWithBody\<close> calls a parser of multiparts that ends.\<close>

inductive header_op :: "go_env \<Rightarrow> Header \<Rightarrow> Header \<Rightarrow> bool" for E :: go_env where
  op_Add: "Header_Add E n v h = Inr h' \<Longrightarrow> header_op E h h'"
| op_RemoveAt: "RemoveAt i h = Inr h' \<Longrightarrow> header_op E h h'"
| op_Remove: "header_op E h (Header_Remove r h)"
| op_RemoveAllNamed: "header_op E h (RemoveAllNamed E n h)"
| op_Valid: "header_op E h (snd (Header_Valid h))"
| op_Simplify: "Header_Simplify E h = Inr h' \<Longrightarrow> header_op E h h'"
| op_Repair: "Header_Repair E h = Inr h' \<Longrightarrow> header_op E h h'"
| op_RepairWithBody:
    "RepairWithBody E parse parents body h = Inr h' \<Longrightarrow> (\<And>b. ensures ends (parse body b) (\<lambda>_. True)) \<Longrightarrow> header_op E h h'"

inductive_cases header_opE: "header_op E h h'"

lemma hinv_cutField:
  assumes "hinv t h"
  shows "hinv t (cutField i h)"
proof -
  let ?rs = "map fst (h_Fields h)"
  have "distinct (take i ?rs @ drop (Suc i) ?rs)"
    using hinv_distinct [OF assms] set_take_disj_set_drop_if_distinct [of ?rs i "Suc i"] by auto
  then have "distinct (map fst (take i (h_Fields h) @ drop (Suc i) (h_Fields h)))" by (simp add: take_map drop_map)
  then show ?thesis
    unfolding cutField_def using assms
    by (intro hinv_subset) (auto dest: in_set_takeD in_set_dropD)
qed

lemma header_op_hinv:
  assumes "asciiConverter E" and "header_op E h h'" and "hinv False h"
  shows "hinv False h'"
  using assms(2)
proof cases
  case op_Add
  with Header_Add_wf [OF assms(1,3)] show ?thesis by (auto dest: ensuresD)
next
  case op_Simplify
  with Header_Simplify_wf [OF assms(1,3)] show ?thesis by (auto dest: ensuresD)
next
  case op_Repair
  with Header_Repair_wf [OF assms(1,3)] show ?thesis by (auto dest: ensuresD)
next
  case (op_RepairWithBody parse parents body)
  with RepairWithBody_wf [OF assms(1,3), of parse body parents] show ?thesis by (auto dest: ensuresD)
qed (use assms(3) in \<open>auto simp: RemoveAt_def hinv_cutField Header_Valid_verify split: if_splits\<close>)

lemma reachable_hinv:
  "(header_op E)\<^sup>*\<^sup>* h h' \<Longrightarrow> asciiConverter E \<Longrightarrow> hinv False h \<Longrightarrow> hinv False h'"
  by (induction rule: rtranclp_induct) (auto intro: header_op_hinv)

text \<open>
  C3. The invariant of a header: whatever sequence of operations a new header or one that \<open>ReadHeader\<close> returned goes
  through, every field has the struct its name asks for, the parameters of its MIME fields have different names, and no
  two of its fields are the same object.
\<close>

theorem header_invariant:
  assumes "\<And>w. cs_writer E ''us-ascii'' = Some w \<Longrightarrow> fst (w []) = []"
    and "h = newHeader m \<or> ReadHeader E s m = Inr h" and "(header_op E)\<^sup>*\<^sup>* h h'"
  shows "list_all (\<lambda>(r, f). wfField f) (h_Fields h') \<and> distinct (map fst (h_Fields h'))"
proof -
  have E: "asciiConverter E" using assms(1) by (rule asciiConverterI)
  have "hinv False h" using assms(2) ReadHeader_wf [OF E, of s m] by auto
  from reachable_hinv [OF assms(3) E this] show ?thesis by (simp add: hinv_defs case_prod_unfold)
qed

theorem header_invariant_witness:
  "case Header_Add plainEnv ''Subject'' ''hi'' (newHeader MIMEHeader) of
     Inr h \<Rightarrow> list_all (\<lambda>(r, f). wfField f) (h_Fields (RemoveAllNamed plainEnv ''To'' h)) \<and>
       distinct (map fst (h_Fields (RemoveAllNamed plainEnv ''To'' h)))
   | Inl _ \<Rightarrow> False"
proof -
  let ?h = "newHeader MIMEHeader"
  have "returns (Header_Add plainEnv ''Subject'' ''hi'' ?h)" by code_simp
  then obtain h where h: "Header_Add plainEnv ''Subject'' ''hi'' ?h = Inr h" by (auto simp: returns_iff)
  have "(header_op plainEnv)\<^sup>*\<^sup>* ?h (RemoveAllNamed plainEnv ''To'' h)"
    by (rule rtranclp.rtrancl_into_rtrancl [OF r_into_rtranclp [of "header_op plainEnv", OF op_Add [OF h]] op_RemoveAllNamed])
  moreover have "fst (w []) = []" if "cs_writer plainEnv ''us-ascii'' = Some w" for w
    using that by (auto simp: plainEnv_def)
  ultimately have "list_all (\<lambda>(r, f). wfField f) (h_Fields (RemoveAllNamed plainEnv ''To'' h)) \<and>
      distinct (map fst (h_Fields (RemoveAllNamed plainEnv ''To'' h)))"
    by (intro header_invariant [of plainEnv ?h MIMEHeader "[]"]) simp_all
  with h show ?thesis by simp
qed



section \<open>Validity\<close>

text \<open>The fields a message header has at most one of.\<close>

definition atMostOnce :: "string list" where
  "atMostOnce =
     [SenderFieldName, ReplyToFieldName, ToFieldName, CcFieldName, BccFieldName, MessageIDFieldName, ReferencesFieldName,
      SubjectFieldName, MIMEVersionFieldName, ContentTypeFieldName, ContentTransferEncodingFieldName, ReturnPathFieldName]"

lemma find_None: "find P xs = None \<longleftrightarrow> list_all (\<lambda>x. \<not> P x) xs"
  by (induction xs) auto

lemma verify_err:
  "\<not> h_verified h \<Longrightarrow>
   h_err (verify h) = None \<longleftrightarrow>
     list_all (\<lambda>f. Field_Valid (snd f)) (h_Fields h) \<and> list_all (\<lambda>c. \<not> violated h c) conditions"
proof -
  assume v: "\<not> h_verified h"
  let ?h = "h\<lparr> h_verified := True, h_err := None \<rparr>"
  have "violated ?h = violated h" by (rule ext) (simp add: violated_def occurrences_def)
  moreover have "find (\<lambda>f. \<not> Field_Valid (snd f)) (h_Fields h) = None \<longleftrightarrow> list_all (\<lambda>f. Field_Valid (snd f)) (h_Fields h)"
    by (simp add: find_None)
  ultimately show ?thesis
    using v find_None [of "violated h" conditions] by (auto simp: verify_def Let_def split: option.split)
qed



section \<open>Simplify\<close>

text \<open>Removing the fields of one name leaves the fields of another.\<close>

lemma nthNamed_filter:
  "(\<And>f. nameOf f = n \<Longrightarrow> P f) \<Longrightarrow> nthNamed n k (filter P fs) = nthNamed n k fs"
  by (induction n k fs rule: nthNamed.induct) auto

lemma header_field_other:
  "toLower E m \<noteq> toLower E n \<Longrightarrow> header_field n k (RemoveAllNamed E m h) = header_field n k h"
  by (auto simp: header_field_def RemoveAllNamed_def removeWhere_filter intro!: nthNamed_filter)

lemma nthNamed_none: "nthNamed n k fs = None \<longleftrightarrow> length (filter (\<lambda>f. nameOf f = n) fs) \<le> k"
  by (induction n k fs rule: nthNamed.induct) auto

lemma header_field_removed: "header_field n k (RemoveAllNamed E n h) = None"
proof -
  have "filter (\<lambda>f. toLower E (nameOf f) \<noteq> toLower E n \<and> nameOf f = n) (h_Fields h) = []"
    by (auto simp: filter_empty_conv)
  then show ?thesis by (simp add: header_field_def RemoveAllNamed_def removeWhere_filter nthNamed_none)
qed

lemma Header_Addresses_other:
  "toLower E m \<noteq> toLower E n \<Longrightarrow> Header_Addresses n (RemoveAllNamed E m h) = Header_Addresses n h"
  by (simp add: Header_Addresses_def addressField_def header_field_other)

text \<open>A field of the name, if there is one, has addresses.\<close>

definition hasAddresses :: "string \<Rightarrow> Header \<Rightarrow> bool" where
  "hasAddresses n h \<longleftrightarrow> header_field n 0 h = None \<or> Header_Addresses n h \<noteq> []"

lemma dropEmpty_has: "hasAddresses n (dropEmpty E n h)"
  by (auto simp: hasAddresses_def dropEmpty_def header_field_removed)

lemma dropEmpty_keeps:
  "hasAddresses n h \<Longrightarrow> toLower E m \<noteq> toLower E n \<Longrightarrow> hasAddresses n (dropEmpty E m h)"
  by (auto simp: hasAddresses_def dropEmpty_def header_field_other Header_Addresses_other)

lemma dropEmpties_keep:
  "hasAddresses n h \<Longrightarrow> list_all (\<lambda>m. toLower E m \<noteq> toLower E n) ns \<Longrightarrow> hasAddresses n (fold (dropEmpty E) ns h)"
  by (induction ns arbitrary: h) (auto intro: dropEmpty_keeps)

lemma dropEmpties_have:
  "distinct (map (toLower E) ns) \<Longrightarrow> list_all (\<lambda>n. hasAddresses n (fold (dropEmpty E) ns h)) ns"
proof (induction ns arbitrary: h)
  case (Cons n ns)
  moreover from Cons.prems have "list_all (\<lambda>m. toLower E m \<noteq> toLower E n) ns" by (auto simp: list_all_iff image_iff)
  ultimately show ?case by (auto intro: dropEmpties_keep dropEmpty_has)
qed simp

lemma distinct_emptyNames: "distinct (map (toLower E) emptyNames)"
  by (simp add: emptyNames_def toLower_def isAsciiByte_def lowerByte_def char_class)

text \<open>
  C18. \<open>Simplify\<close> leaves no empty address fields: in the header that results from a valid one, a Sender, Return-Path, To,
  Cc, Bcc or Reply-To field that is still there has an address.
\<close>

theorem Simplify_no_empty:
  assumes "fst (Header_Valid h)" and "Header_Simplify E h = Inr h'"
  shows "list_all (\<lambda>n. header_field n 0 h' = None \<or> Header_Addresses n h' \<noteq> [])
    [SenderFieldName, ReturnPathFieldName, ToFieldName, CcFieldName, BccFieldName, ReplyToFieldName]"
proof -
  obtain g where "h' = fold (dropEmpty E) emptyNames g"
    using assms by (auto simp: Header_Simplify_def Header_Valid_verify go_bind_eq_Inr)
  with dropEmpties_have [OF distinct_emptyNames, of E g] show ?thesis
    by (simp add: hasAddresses_def emptyNames_def)
qed

abbreviation emptyTo :: Header where
  "emptyTo \<equiv> appendNew (AddrField (NewAddressField ToFieldName)) (newHeader MIMEHeader)"

theorem Simplify_no_empty_witness:
  "case Header_Simplify plainEnv emptyTo of
     Inr h' \<Rightarrow> fst (Header_Valid emptyTo) \<and> (header_field ToFieldName 0 h' = None \<or> Header_Addresses ToFieldName h' \<noteq> [])
   | Inl _ \<Rightarrow> False"
proof -
  have v: "fst (Header_Valid emptyTo)" by code_simp
  have "verify emptyTo = emptyTo\<lparr> h_verified := True, h_err := None \<rparr>" by code_simp
  moreover have "Uniquify plainEnv [] = Inr []" by code_simp
  ultimately have "returns (Header_Simplify plainEnv emptyTo)"
    using v
    by (simp add: Header_Simplify_def Header_Valid_verify simplifyAddresses_def addressFieldNames_def addressField_def
        header_field_def dropEmptyDescription_def dropBinaryCTE_def Header_CTE_def dropInline_def
        Header_ContentDisposition_def simplifyType_def Header_ContentType_def simplifyVersion_def dropErrorsTo_def
        dropEmptyMessageID_def dropCharset_def appendNew_def newHeader_def NewAddressField_def newHeaderField_def
        HeaderField.extend_def setField_def RemoveAllNamed_def removeWhere_filter)
  then obtain h' where h': "Header_Simplify plainEnv emptyTo = Inr h'" by (auto simp: returns_iff)
  with Simplify_no_empty [OF v h'] v show ?thesis by simp
qed

end
