(* ===== verification/Parts.thy ===== *)
theory Parts
  imports HeaderRescue
begin

text \<open>
  The structs \<open>Part\<close> and \<open>Message\<close> (\<^verbatim>\<open>parts.go\<close>, \<^verbatim>\<open>message.go\<close>) and how they are printed.

  A part holds pointers to its children, to the message inside it and to its parent. The children and the message
  are subterms of the model's value; the parent is not part of it, and the functions that follow the pointer to
  the parent take the list of the parents' headers. Printing a message assigns the header of its first child, so
  the printing functions also return the value after printing.
\<close>

section \<open>The structs\<close>

datatype part_error = NotUnicode "string option" bool

record PartInfo =
  pi_Header :: "Header option"
  pi_Number :: int
  pi_hasText :: bool
  pi_Text :: string
  pi_Data :: string
  pi_numBytes :: nat
  pi_numEncodedBytes :: nat
  pi_numEncodedLines :: nat
  pi_err :: "part_error option"

datatype Part = MkPart (part_info: PartInfo) (part_Parts: "Part list") (part_message: "Message option")
  and Message = MkMessage (msg_Part: Part) (msg_RFC822Size: nat)

definition emptyInfo :: PartInfo where
  "emptyInfo =
     \<lparr> pi_Header = None, pi_Number = 0, pi_hasText = False, pi_Text = [], pi_Data = [], pi_numBytes = 0,
       pi_numEncodedBytes = 0, pi_numEncodedLines = 0, pi_err = None \<rparr>"

definition NewMessage :: Message where
  "NewMessage = MkMessage (MkPart emptyInfo [] None) 0"

text \<open>\<open>p.Header\<close> followed by a method call.\<close>

definition part_Header :: "Part \<Rightarrow> Header go" where
  "part_Header p = (case pi_Header (part_info p) of None \<Rightarrow> Inl NilDereference | Some h \<Rightarrow> Inr h)"

fun withHeader :: "Header option \<Rightarrow> Part \<Rightarrow> Part" where
  "withHeader h (MkPart i ps m) = MkPart (i\<lparr> pi_Header := h \<rparr>) ps m"

fun withParts :: "Part list \<Rightarrow> Part \<Rightarrow> Part" where
  "withParts ps (MkPart i _ m) = MkPart i ps m"

fun withMessage :: "Message \<Rightarrow> Part \<Rightarrow> Part" where
  "withMessage m (MkPart i ps _) = MkPart i ps (Some m)"

lemma size_withHeader [simp]: "size (withHeader h p) = size p"
  by (cases p) simp

lemma mapGo_cong [fundef_cong]:
  "xs = ys \<Longrightarrow> (\<And>x. x \<in> set ys \<Longrightarrow> f x = g x) \<Longrightarrow> mapGo f xs = mapGo g ys"
  by (induction ys arbitrary: xs) (auto intro!: go_bind_cong)

section \<open>Printing\<close>

definition partEncoding :: "Header \<Rightarrow> EncodingType go" where
  "partEncoding h =
     go_bind (Header_CTE h) (\<lambda>cte. Inr (case cte of None \<Rightarrow> BinaryEncoding | Some (_, f) \<Rightarrow> cte_Encoding f))"

text \<open>The character set of the field is looked up, but the text is written as it is.\<close>

definition appendTextPart :: "Part \<Rightarrow> string go" where
  "appendTextPart bp =
     go_bind (part_Header bp) (\<lambda>h.
     go_bind (partEncoding h) (\<lambda>e. encodeCTE (pi_Text (part_info bp)) e 72))"

text \<open>The delimiter of a multipart: the Content-Type field and its boundary.\<close>

definition partBoundary :: "go_env \<Rightarrow> Part \<Rightarrow> (ContentType \<times> string) go" where
  "partBoundary E p =
     go_bind (part_Header p) (\<lambda>h.
     go_bind (Header_ContentType h) (\<lambda>ct.
     case ct of None \<Rightarrow> Inl NilDereference | Some (_, ct) \<Rightarrow> Inr (ct, parameter E ''boundary'' ct)))"

datatype printing = AsMessage | AsText | AsMultipart | AsData

definition printingOf :: "go_env \<Rightarrow> ContentType option \<Rightarrow> ContentType option \<Rightarrow> printing" where
  "printingOf E childct ct =
     (if (case childct of Some c \<Rightarrow> ct_Type c = ''message'' | None \<Rightarrow> False) \<or>
         (case ct of Some t \<Rightarrow> isType ''multipart'' ''digest'' t \<and> childct = None | None \<Rightarrow> False)
      then case childct of Some c \<Rightarrow> if ct_Subtype c \<noteq> ''rfc822'' then AsText else AsMessage | None \<Rightarrow> AsMessage
      else case childct of
             None \<Rightarrow> AsText
           | Some c \<Rightarrow>
               if toLower E (ct_Type c) = ''text'' then AsText
               else if ct_Type c = ''multipart'' then AsMultipart
               else AsData)"

function (sequential)
    appendMultipart :: "go_env \<Rightarrow> bool \<Rightarrow> Part \<Rightarrow> (string \<times> Part) go"
  and appendAnyPart :: "go_env \<Rightarrow> bool \<Rightarrow> ContentType option \<Rightarrow> Part \<Rightarrow> (string \<times> Part) go"
  and Message_RFC822 :: "go_env \<Rightarrow> bool \<Rightarrow> Message \<Rightarrow> (string \<times> Message) go"
  and Message_Body :: "go_env \<Rightarrow> bool \<Rightarrow> Part \<Rightarrow> (string \<times> Part) go" where
  "appendMultipart E avoidUTF8 (MkPart i ps m) =
     go_bind (partBoundary E (MkPart i ps m)) (\<lambda>(ct, delim).
     go_bind (mapGo (\<lambda>c.
       go_bind (part_Header c) (\<lambda>h.
       go_bind (Header_AsText h avoidUTF8) (\<lambda>t.
       go_bind (appendAnyPart E avoidUTF8 (Some ct) c) (\<lambda>(u, c).
       Inr (crlf @ t @ crlf @ u @ crlf @ ''--'' @ delim, c))))) ps) (\<lambda>rs.
     Inr (''--'' @ delim @ concat (map fst rs) @ ''--'' @ crlf, MkPart i (map snd rs) m)))"
| "appendAnyPart E avoidUTF8 ct (MkPart i ps m) =
     go_bind (part_Header (MkPart i ps m)) (\<lambda>h.
     go_bind (Header_ContentType h) (\<lambda>childct.
     go_bind (partEncoding h) (\<lambda>e.
     case printingOf E (map_option snd childct) ct of
       AsMessage \<Rightarrow>
         (case m of
            None \<Rightarrow> Inl NilDereference
          | Some m \<Rightarrow> go_bind (Message_RFC822 E avoidUTF8 m) (\<lambda>(t, m). Inr (t, MkPart i ps (Some m))))
     | AsText \<Rightarrow> go_bind (appendTextPart (MkPart i ps m)) (\<lambda>t. Inr (t, MkPart i ps m))
     | AsMultipart \<Rightarrow> appendMultipart E avoidUTF8 (MkPart i ps m)
     | AsData \<Rightarrow> go_bind (encodeCTE (pi_Data i) e 72) (\<lambda>t. Inr (t, MkPart i ps m)))))"
| "Message_RFC822 E avoidUTF8 (MkMessage p n) =
     go_bind (part_Header p) (\<lambda>h.
     go_bind (Header_AsText h avoidUTF8) (\<lambda>t.
     go_bind (Message_Body E avoidUTF8 p) (\<lambda>(u, p).
     Inr (t @ crlf @ u, MkMessage p n))))"
| "Message_Body E avoidUTF8 (MkPart i ps m) =
     go_bind (part_Header (MkPart i ps m)) (\<lambda>h.
     go_bind (Header_ContentType h) (\<lambda>ct.
     if (case ct of Some (_, c) \<Rightarrow> ct_Type c = ''multipart'' | None \<Rightarrow> False)
     then appendMultipart E avoidUTF8 (MkPart i ps m)
     else case ps of
            [] \<Rightarrow> Inr ([], MkPart i ps m)
          | c # cs \<Rightarrow>
              go_bind (appendAnyPart E avoidUTF8 (map_option snd ct) (withHeader (Some h) c)) (\<lambda>(t, c).
              Inr (t, MkPart i (c # cs) m))))"
  by pat_completeness auto
termination
proof (relation "measure (\<lambda>x. case x of
      Inl (Inl (E, a, p)) \<Rightarrow> 2 * size p
    | Inl (Inr (E, a, ct, p)) \<Rightarrow> 2 * size p + 1
    | Inr (Inl (E, a, m)) \<Rightarrow> 2 * size m
    | Inr (Inr (E, a, p)) \<Rightarrow> 2 * size p + 1)", goal_cases)
  case (2 E a i ps m x ct delim c h t)
  then have "c \<in> set ps" by simp
  then have "size c < size_list size ps + 1" by (induction ps) auto
  then show ?case by simp
qed auto

declare appendMultipart.simps [simp del] appendAnyPart.simps [simp del]
declare Message_RFC822.simps [simp del] Message_Body.simps [simp del]

definition Part_AsText :: "go_env \<Rightarrow> bool \<Rightarrow> Part \<Rightarrow> (string \<times> Part) go" where
  "Part_AsText E avoidUTF8 p =
     go_bind (part_Header p) (\<lambda>h.
     go_bind (Header_ContentType h) (\<lambda>ct.
     let cs = (case ct of Some (_, f) \<Rightarrow> parameter E ''charset'' f | None \<Rightarrow> []);
         c = (if cs \<noteq> [] then cs_info E cs else None);
         c = (if c = None then cs_info E ''us-ascii'' else c)
     in if part_Parts p \<noteq> [] then appendMultipart E avoidUTF8 p
        else if (case ct of Some (_, f) \<Rightarrow> ct_Type f = ''text'' | None \<Rightarrow> True) then
          (case c of
             None \<Rightarrow> Inl NilDereference
           | Some n \<Rightarrow> Inr (fst (decodeAs E (pi_Text (part_info p)) n), p))
        else Inr (e64 (pi_Data (part_info p)) 72, p)))"

end
