(* ===== verification/BodyParser.thy ===== *)
theory BodyParser
  imports Parts
begin

text \<open>
  The parsing of bodies (\<^verbatim>\<open>parts.go\<close>, \<^verbatim>\<open>message.go\<close>): \<open>guessTextCodec\<close>, \<open>guessHtmlCodec\<close>, \<open>parseBodypart\<close>,
  \<open>parseMultipart\<close> and \<open>Message.Parse\<close>. The three parsers call each other on shorter strings; their fuel is the
  depth of the nesting.
\<close>

section \<open>Guessing the character set\<close>

text \<open>The conditions of the source are kept: a failed conversion selects the character set.\<close>

definition startsIso2022 :: "string \<Rightarrow> bool go" where
  "startsIso2022 body =
     go_bind (idx body 0) (\<lambda>c.
     if c \<noteq> CHR 0x1B then Inr False
     else go_bind (idx body 1) (\<lambda>c.
          if \<not> (c = CHR ''('' \<or> c = CHR ''$'') then Inr False
          else go_bind (idx body 2) (\<lambda>c. Inr (c = CHR ''B'' \<or> c = CHR ''J'' \<or> c = CHR ''@''))))"

definition guessTextCodec :: "go_env \<Rightarrow> string \<Rightarrow> string option go" where
  "guessTextCodec E body =
     go_bind (startsIso2022 body) (\<lambda>b.
     Inr (if b \<and> snd (decodeAs E body ''iso-2022-jp'') then cs_info E ''iso-2022-jp''
          else if snd (decodeAs E body ''us-ascii'') then cs_info E ''us-ascii''
          else if snd (decodeAs E body ''utf8'') then cs_info E ''utf8''
          else None))"

abbreviation metaTag :: string where
  "metaTag \<equiv> ''<meta http-equiv='' @ [CHR 0x22] @ ''content-type'' @ [CHR 0x22] @ '' content='' @ [CHR 0x22]"

text \<open>The guess after a \<open>meta\<close> tag that names the character set \<open>cs\<close>; without a known one the source dereferences nil.\<close>

definition metaGuess :: "go_env \<Rightarrow> string \<Rightarrow> string \<Rightarrow> string \<Rightarrow> string option \<Rightarrow> string option go" where
  "metaGuess E body b cs guess =
     (case if cs \<noteq> [] then cs_info E cs else None of
        None \<Rightarrow> Inl NilDereference
      | Some meta \<Rightarrow>
          (let (m, merr) = decodeAs E body meta;
               (g, gerr) = (case guess of None \<Rightarrow> ([], False) | Some n \<Rightarrow> decodeAs E body n);
               ub = fst (decodeAs E b meta)
           in Inr (if ((m \<noteq> [] \<and> m = g) \<or> (\<not> merr \<and> (guess = None \<or> gerr)) \<or> (\<not> merr \<and> guess = None) \<or>
                       (\<not> merr \<and> guess = Some ''iso-8859-1'') \<or> (\<not> merr \<and> guess \<noteq> None \<and> gerr)) \<and>
                      contains (ascii ub) metaTag
                   then Some meta else guess)))"

function metaLoop :: "go_env \<Rightarrow> string \<Rightarrow> string \<Rightarrow> nat \<Rightarrow> string option \<Rightarrow> string option go" where
  "metaLoop E body b i guess =
     (case indexOf (drop i b) metaTag of
        None \<Rightarrow> Inr guess
      | Some k \<Rightarrow>
          (let i = i + k + length metaTag;
               j = scanWhile (\<lambda>c. c \<noteq> CHR 0x22) b i
           in go_bind (NewHeaderField E ''Content-Type'' (take (j - i) (drop i b))) (\<lambda>hf.
              case hf of
                CTypeField ct \<Rightarrow>
                  go_bind (metaGuess E body b (parameter E ''charset'' ct) guess) (metaLoop E body b i)
              | _ \<Rightarrow> Inl FailedTypeAssertion)))"
  by pat_completeness auto
termination
proof (relation "measure (\<lambda>(E, body, b, i, guess). length b - i)", goal_cases)
  case (2 E body b i guess k i2 j hf ct guess2)
  then have "k + length metaTag \<le> length (drop i b)" using indexOf_Some by blast
  with 2 show ?case by auto
qed simp

declare metaLoop.simps [simp del]

definition guessHtmlCodec :: "go_env \<Rightarrow> string \<Rightarrow> string option go" where
  "guessHtmlCodec E body =
     go_bind (guessTextCodec E body) (\<lambda>guess.
     let guess = (if guess = None \<and> \<not> snd (decodeAs E body ''iso-8859-1'') then cs_info E ''iso-8859-1'' else guess);
         guess = (if guess = None \<and> \<not> snd (decodeAs E body ''cp-1252'') then cs_info E ''cp-1252'' else guess)
     in go_bind (simplify (toLower E body)) (\<lambda>b. metaLoop E body b 0 guess))"

section \<open>The text of a part\<close>

text \<open>
  What the conversion of a text part works on: the body, the text, the character set, whether one was specified
  and known, and whether the conversion failed.
\<close>

record conversion =
  cv_body :: string
  cv_text :: string
  cv_charset :: string
  cv_specified :: bool
  cv_unknown :: bool
  cv_failed :: bool

definition startConversion :: "go_env \<Rightarrow> string \<Rightarrow> ContentType \<Rightarrow> conversion go" where
  "startConversion E body ct =
     (let csn = parameter E ''charset'' ct;
          csn = (if toLower E csn = ''default'' then [] else csn);
          c = cs_info E csn;
          isasc = (case c of None \<Rightarrow> False | Some n \<Rightarrow> toLower E n = ''us-ascii'' \<and> snd (decodeAs E body n))
      in case (if c = None then cs_info E ''us-ascii'' else c) of
           None \<Rightarrow> Inl NilDereference
         | Some n \<Rightarrow>
             (let (t, err) = decodeAs E (toCRLF body) n
              in Inr \<lparr> cv_body = body, cv_text = t, cv_charset = n, cv_specified = (csn \<noteq> [] \<and> \<not> isasc),
                       cv_unknown = (c = None), cv_failed = err \<rparr>))"

text \<open>Character sets whose undefined code points are common: the Subject field is converted again.\<close>

fun convertSubjects :: "go_env \<Rightarrow> string \<Rightarrow> (nat \<times> Field) list \<Rightarrow> bool \<Rightarrow> (nat \<times> Field) list \<times> bool" where
  "convertSubjects E cs [] err = ([], err)"
| "convertSubjects E cs ((r, f) # fs) err =
     (case f of
        PlainField hf \<Rightarrow>
          if \<not> hf_Valid hf \<and> hf_name hf = SubjectFieldName then
            (let (v, e) = decodeAs E (hf_unparsedValue hf) cs;
                 (fs, err) = convertSubjects E cs fs e
             in ((r, PlainField (hf\<lparr> hf_value := v \<rparr>)) # fs, err))
          else (let (fs, err) = convertSubjects E cs fs err in ((r, f) # fs, err))
      | _ \<Rightarrow> (let (fs, err) = convertSubjects E cs fs err in ((r, f) # fs, err)))"

definition convertEastAsian :: "go_env \<Rightarrow> conversion \<Rightarrow> Header \<Rightarrow> conversion \<times> Header" where
  "convertEastAsian E cv h =
     (if cv_charset cv \<in> {''GB2312'', ''ISO-2022-JP'', ''KS_C_5601-1987''} then
        (let (fs, err) = convertSubjects E (cv_charset cv) (h_Fields h) (cv_failed cv)
         in (cv\<lparr> cv_failed := err, cv_body := (if cv_failed cv then cv_text cv else cv_body cv) \<rparr>,
             h\<lparr> h_Fields := fs \<rparr>))
      else (cv, h))"

definition guessCharset :: "go_env \<Rightarrow> bool \<Rightarrow> conversion \<Rightarrow> conversion go" where
  "guessCharset E html cv =
     (if (\<not> cv_specified cv \<and> (cv_failed cv \<or> html)) \<or> (cv_specified cv \<and> cv_failed cv) then
        go_bind (if html then guessHtmlCodec E (cv_body cv) else guessTextCodec E (cv_body cv)) (\<lambda>g.
        Inr (case g of
               None \<Rightarrow>
                 if \<not> cv_specified cv \<and> cv_failed cv
                 then cv\<lparr> cv_text := fst (decodeAs E (toCRLF (cv_body cv)) ''unknown-8bit'') \<rparr> else cv
             | Some n \<Rightarrow>
                 (let (guessed, gerr) = decodeAs E (toCRLF (cv_body cv)) n
                  in if \<not> gerr \<and> cv_failed cv then cv\<lparr> cv_charset := n, cv_text := guessed \<rparr> else cv)))
      else Inr cv)"

definition settleText :: "go_env \<Rightarrow> EncodingType \<Rightarrow> conversion \<Rightarrow> conversion" where
  "settleText E e cv =
     (let cv = (if cv_specified cv \<and> cv_failed cv then cv\<lparr> cv_body := cv_text cv \<rparr>
                else if \<not> cv_specified cv \<and> cv_failed cv
                then cv\<lparr> cv_text := fst (decodeAs E (cv_body cv) ''unknown-8bit'') \<rparr>
                else cv)
      in if e = QPEncoding \<and> hasPrefix (cv_charset cv) ''UTF-16''
         then cv\<lparr> cv_text := fst (decodeAs E (stripCRLF (cv_body cv)) (cv_charset cv)) \<rparr> else cv)"

definition conversionError :: "go_env \<Rightarrow> ContentType \<Rightarrow> conversion \<Rightarrow> part_error option" where
  "conversionError E ct cv =
     (if cv_failed cv then
        (let cs = parameter E ''charset'' ct
         in Some (NotUnicode (if cv_specified cv then Some (if cs = [] then cv_charset cv else cs) else None)
              (cv_specified cv \<and> cv_unknown cv)))
      else None)"

text \<open>The Content-Transfer-Encoding field after the conversion: its pointer and value, and the header.\<close>

type_synonym cte_ref = "(nat \<times> ContentTransferEncoding) option"

definition settleCTE :: "go_env \<Rightarrow> bool \<Rightarrow> cte_ref \<Rightarrow> Header \<Rightarrow> (cte_ref \<times> Header) go" where
  "settleCTE E qp cte h =
     (case cte of
        Some (r, f) \<Rightarrow>
          if \<not> qp then Inr (None, RemoveAllNamed E ContentTransferEncodingFieldName h)
          else if cte_Encoding f \<noteq> QPEncoding then
            (let f = f\<lparr> cte_Encoding := QPEncoding \<rparr> in Inr (Some (r, f), setField r (CTEField f) h))
          else Inr (cte, h)
      | None \<Rightarrow>
          if qp then
            go_bind (Header_Add E ''Content-Transfer-Encoding'' ''quoted-printable'' h) (\<lambda>h.
            go_bind (Header_CTE h) (\<lambda>cte. Inr (cte, h)))
          else Inr (None, h))"

definition textPart ::
    "go_env \<Rightarrow> EncodingType \<Rightarrow> string \<Rightarrow> nat \<times> ContentType \<Rightarrow> cte_ref \<Rightarrow> Header \<Rightarrow>
     (string \<times> string \<times> part_error option \<times> cte_ref \<times> Header) go" where
  "textPart E e body ct cte h =
     (let (r, ct) = ct
      in go_bind (startConversion E body ct) (\<lambda>cv.
         let (cv, h) = convertEastAsian E cv h
         in go_bind (guessCharset E (ct_Subtype ct = ''html'') cv) (\<lambda>cv.
            let cv = settleText E e cv;
                cs = toLower E (cv_charset cv);
                ct2 = (if cs \<noteq> ''us-ascii'' then addParameter E ''charset'' cs ct else removeParameter E ''charset'' ct);
                body = fst (decodeAs E (cv_text cv) (cv_charset cv))
            in go_bind (settleCTE E (needsQP body) cte (setField r (CTypeField ct2) h)) (\<lambda>(cte, h).
               Inr (cv_text cv, body, conversionError E ct cv, cte, h)))))"

definition dataPart :: "go_env \<Rightarrow> string \<Rightarrow> ContentType \<Rightarrow> cte_ref \<Rightarrow> Header \<Rightarrow> (cte_ref \<times> Header) go" where
  "dataPart E body ct cte h =
     (if ct_Type ct \<noteq> ''multipart'' \<and> ct_Type ct \<noteq> ''message'' then
        (if (ct_Type ct = ''application'' \<and> hasPrefix (ct_Subtype ct) ''pgp-'' \<and> \<not> needsQP body) \<or>
            (isType ''application'' ''octet-stream'' ct \<and> contains body ''BEGIN PGP MESSAGE'')
         then Inr (None, RemoveAllNamed E ContentTransferEncodingFieldName h)
         else case cte of
                Some (r, f) \<Rightarrow>
                  (let f = f\<lparr> cte_Encoding := Base64Encoding \<rparr> in Inr (Some (r, f), setField r (CTEField f) h))
              | None \<Rightarrow>
                  go_bind (Header_Add E ''Content-Transfer-Encoding'' ''base64'' h) (\<lambda>h.
                  go_bind (Header_CTE h) (\<lambda>cte. Inr (cte, h))))
      else Inr (cte, h))"

end
