(* ===== verification/MessageParser.thy ===== *)
theory MessageParser
  imports BodyParser
begin

text \<open>
  \<open>parseBodypart\<close>, \<open>parseMultipart\<close> (\<^verbatim>\<open>parts.go\<close>), \<open>Message.Parse\<close>, \<open>ReadMessage\<close> and \<open>BodyPart\<close>
  (\<^verbatim>\<open>message.go\<close>).

  The first argument of the three parsers is the depth of nesting they may still go to. The argument \<open>chain\<close> is the
  list of the headers of the receiver and its parents, innermost first.
\<close>

section \<open>Before and after the body\<close>

text \<open>The start of the body after an empty line.\<close>

definition bodyStart :: "string \<Rightarrow> nat go" where
  "bodyStart s =
     go_bind (idx s 0) (\<lambda>c.
     let start = (if c = CR then 1 else 0)
     in go_bind (idx s start) (\<lambda>c. Inr (if c = LF then start + 1 else start)))"

text \<open>Several Content-Transfer-Encoding fields, one of them quoted-printable, on a body without an equals sign.\<close>

fun anyQP :: "(nat \<times> Field) list \<Rightarrow> bool go" where
  "anyQP [] = Inr False"
| "anyQP ((_, f) # fs) =
     (case f of
        CTEField c \<Rightarrow> go_bind (anyQP fs) (\<lambda>b. Inr (cte_Encoding c = QPEncoding \<or> b))
      | _ \<Rightarrow> Inl FailedTypeAssertion)"

definition dropEquivalentCTE :: "go_env \<Rightarrow> string \<Rightarrow> Header \<Rightarrow> Header go" where
  "dropEquivalentCTE E body h =
     (if \<not> contains body ''='' then
        (let fs = filter (\<lambda>f. nameOf f = ContentTransferEncodingFieldName) (h_Fields h)
         in go_bind (anyQP fs) (\<lambda>b.
            Inr (if b \<and> length fs > 1 then RemoveAllNamed E ContentTransferEncodingFieldName h else h)))
      else Inr h)"

definition decodeBody :: "string \<Rightarrow> EncodingType \<Rightarrow> string go" where
  "decodeBody body e =
     (if body = [] then Inr []
      else if e = Base64Encoding \<or> e = UuencodeEncoding then decodeCTE body e
      else decodeCTE (toCRLF body) e)"

definition ensureType :: "go_env \<Rightarrow> Header \<Rightarrow> ((nat \<times> ContentType) \<times> Header) go" where
  "ensureType E h =
     go_bind (Header_ContentType h) (\<lambda>ct.
     case ct of
       Some ct \<Rightarrow> Inr (ct, h)
     | None \<Rightarrow>
         go_bind (Header_Add E ''Content-Type''
           (case h_defaultType h of
              TextPlainContentType \<Rightarrow> ''text/plain'' | MessageRFC822ContentType \<Rightarrow> ''message/rfc822'') h) (\<lambda>h.
         go_bind (Header_ContentType h) (\<lambda>ct.
         case ct of None \<Rightarrow> Inl NilDereference | Some ct \<Rightarrow> Inr (ct, h))))"

definition countLines :: "string \<Rightarrow> nat" where
  "countLines body =
     length (filter (\<lambda>c. c = LF) body) + (if body \<noteq> [] \<and> last body \<noteq> LF then 1 else 0)"

text \<open>What is known of a part before its children are parsed.\<close>

record prepared =
  pr_start :: nat
  pr_info :: PartInfo
  pr_body :: string
  pr_type :: ContentType
  pr_cte :: cte_ref
  pr_header :: Header

definition prepareBody :: "go_env \<Rightarrow> string \<Rightarrow> Header \<Rightarrow> prepared go" where
  "prepareBody E s h =
     go_bind (bodyStart s) (\<lambda>start.
     let body = (if length s > start then s else [])
     in go_bind (dropEquivalentCTE E body h) (\<lambda>h.
        go_bind (Header_CTE h) (\<lambda>cte.
        let e = (case cte of None \<Rightarrow> BinaryEncoding | Some (_, f) \<Rightarrow> cte_Encoding f)
        in go_bind (decodeBody body e) (\<lambda>body.
           go_bind (ensureType E h) (\<lambda>((r, ct), h).
           if ct_Type ct = ''text'' then
             go_bind (textPart E e body (r, ct) cte h) (\<lambda>(t, body, err, cte, h).
             Inr \<lparr> pr_start = start, pr_info = emptyInfo\<lparr> pi_hasText := True, pi_Text := t, pi_err := err \<rparr>,
                   pr_body = body, pr_type = ct, pr_cte = cte, pr_header = h \<rparr>)
           else
             go_bind (dataPart E body ct cte h) (\<lambda>(cte, h).
             Inr \<lparr> pr_start = start, pr_info = emptyInfo\<lparr> pi_Data := body \<rparr>, pr_body = body, pr_type = ct,
                   pr_cte = cte, pr_header = h \<rparr>))))))"

definition finishBody :: "go_env \<Rightarrow> prepared \<Rightarrow> Part list \<Rightarrow> Message option \<Rightarrow> string \<Rightarrow> Part go" where
  "finishBody E pr ps m body =
     go_bind (case pr_cte pr of None \<Rightarrow> Inr body | Some (_, f) \<Rightarrow> encodeCTE body (cte_Encoding f) 72) (\<lambda>encoded.
     go_bind (Header_Simplify E (pr_header pr)) (\<lambda>h.
     Inr (MkPart ((pr_info pr)\<lparr> pi_Header := Some h, pi_numBytes := length body,
            pi_numEncodedBytes := length encoded,
            pi_numEncodedLines :=
              (if pi_hasText (pr_info pr) \<or> isType ''message'' ''rfc822'' (pr_type pr) then countLines encoded else 0) \<rparr>)
          ps m)))"

section \<open>Boundary lines\<close>

text \<open>Whether a boundary line starts at \<open>i\<close>, or the input ends there.\<close>

definition atDivider :: "string \<Rightarrow> string \<Rightarrow> nat \<Rightarrow> bool go" where
  "atDivider s divider i =
     (if i \<ge> length s then Inr True
      else if s ! i \<noteq> CHR ''-'' then Inr False
      else go_bind (idx s (i + 1)) (\<lambda>c.
           if c \<noteq> CHR ''-'' \<or> \<not> (i = 0 \<or> s ! (i - 1) = CHR 0x1F \<or> s ! (i - 1) = LF) then Inr False
           else go_bind (idx s (i + 2)) (\<lambda>c.
                go_bind (idx divider 0) (\<lambda>d.
                if c \<noteq> d then Inr False
                else go_bind (substr s (i + 2) (i + 2 + length divider)) (\<lambda>t. Inr (t = divider))))))"

text \<open>The position after the divider and the hyphens of the last one, and whether it is the last one.\<close>

definition dividerEnd :: "string \<Rightarrow> string \<Rightarrow> nat \<Rightarrow> (nat \<times> bool) go" where
  "dividerEnd s divider i =
     (if i \<ge> length s then Inr (i, True)
      else
        let j = i + 2 + length divider
        in go_bind (idx s j) (\<lambda>c.
           if c \<noteq> CHR ''-'' then Inr (j, False)
           else go_bind (idx s (j + 1)) (\<lambda>c. Inr (if c = CHR ''-'' then (j + 2, True) else (j, False)))))"

text \<open>The position after the line end at \<open>j\<close>; \<open>None\<close> if the line goes on.\<close>

definition afterLineEnd :: "string \<Rightarrow> nat \<Rightarrow> nat option" where
  "afterLineEnd s j =
     (let j = scanWhile (\<lambda>c. c = CHR '' '' \<or> c = CHR 0x09) s j
      in if j \<ge> length s \<or> s ! j = CR \<or> s ! j = LF then
           (let j = (if j < length s \<and> s ! j = CR then j + 1 else j)
            in Some (if j < length s \<and> s ! j = LF then j + 1 else j))
         else None)"

definition skipLine :: "string \<Rightarrow> nat \<Rightarrow> nat" where
  "skipLine s i = scanWhile (\<lambda>c. c = CR \<or> c = LF) s (scanWhile (\<lambda>c. c \<noteq> CR \<and> c \<noteq> LF) s i)"

text \<open>The end of the part before the boundary at \<open>i\<close>: the line end belongs to the boundary.\<close>

definition partEnd :: "string \<Rightarrow> nat \<Rightarrow> nat go" where
  "partEnd s i =
     go_bind (idxi s (int i - 1)) (\<lambda>c.
     if c \<noteq> LF then Inr i
     else go_bind (idxi s (int i - 2)) (\<lambda>c. Inr (if c = CR then i - 2 else i - 1)))"

section \<open>Multiparts\<close>

type_synonym bodyParser = "Header option list \<Rightarrow> string \<Rightarrow> Header \<Rightarrow> Part go"
type_synonym multiParser = "string \<Rightarrow> string \<Rightarrow> (Header option \<times> string) list go"

text \<open>The part between two boundaries: its header, repaired, its body, and the repair that looks at the parents.\<close>

definition readPart ::
    "go_env \<Rightarrow> bodyParser \<Rightarrow> multiParser \<Rightarrow> Header option list \<Rightarrow> bool \<Rightarrow> string \<Rightarrow> nat \<Rightarrow> nat \<Rightarrow> nat \<Rightarrow> int \<Rightarrow> Part go" where
  "readPart E bodyp multi chain digest s start i j pn =
     go_bind (substr s start j) (\<lambda>t.
     go_bind (ReadHeader E t MIMEHeader) (\<lambda>h.
     let start = start + h_numBytes h;
         h = (if digest then h\<lparr> h_defaultType := MessageRFC822ContentType \<rparr> else h)
     in go_bind (Header_Repair E h) (\<lambda>h.
        go_bind (partEnd s i) (\<lambda>i.
        go_bind (substr s start i) (\<lambda>t.
        go_bind (bodyp chain t h) (\<lambda>bp.
        go_bind (part_Header bp) (\<lambda>h.
        go_bind (RepairWithBody E multi chain [] h) (\<lambda>h.
        Inr (case bp of MkPart info ps m \<Rightarrow> MkPart (info\<lparr> pi_Header := Some h, pi_Number := pn \<rparr>) ps m)))))))))"

text \<open>The fuel of the loop is the number of lines that can still come, at most one per character.\<close>

primrec multipart_loop ::
    "nat \<Rightarrow> go_env \<Rightarrow> bodyParser \<Rightarrow> multiParser \<Rightarrow> Header option list \<Rightarrow> string \<Rightarrow> string \<Rightarrow> bool \<Rightarrow>
     nat \<Rightarrow> nat \<Rightarrow> int \<Rightarrow> Part list \<Rightarrow> Part list go" where
  "multipart_loop 0 E bodyp multi chain s divider digest i start pn ps = Inl OutOfFuel"
| "multipart_loop (Suc k) E bodyp multi chain s divider digest i start pn ps =
     (if i > length s then Inr ps
      else
        go_bind (atDivider s divider i) (\<lambda>b.
        if \<not> b then multipart_loop k E bodyp multi chain s divider digest (skipLine s i) start pn ps
        else
          go_bind (dividerEnd s divider i) (\<lambda>(j, l).
          case afterLineEnd s j of
            None \<Rightarrow> multipart_loop k E bodyp multi chain s divider digest (skipLine s i) start pn ps
          | Some j \<Rightarrow>
              go_bind (if start > 0 \<and> start < length s
                       then go_bind (readPart E bodyp multi chain digest s start i j pn) (\<lambda>bp. Inr (pn + 1, ps @ [bp]))
                       else Inr (pn, ps)) (\<lambda>(pn, ps).
              if l then Inr ps
              else multipart_loop k E bodyp multi chain s divider digest (skipLine s j) j pn ps))))"

section \<open>The three parsers\<close>

definition partSummary :: "Part \<Rightarrow> Header option \<times> string" where
  "partSummary p = (pi_Header (part_info p), pi_Data (part_info p))"

fun parseMultipart :: "nat \<Rightarrow> go_env \<Rightarrow> Header option list \<Rightarrow> string \<Rightarrow> string \<Rightarrow> bool \<Rightarrow> Part list go"
  and parseBodypart :: "nat \<Rightarrow> go_env \<Rightarrow> Header option list \<Rightarrow> string \<Rightarrow> Header \<Rightarrow> Part go"
  and Message_Parse :: "nat \<Rightarrow> go_env \<Rightarrow> Header option list \<Rightarrow> string \<Rightarrow> Message go" where
  "parseMultipart 0 E chain s divider digest = Inl OutOfFuel"
| "parseMultipart (Suc n) E chain s divider digest =
     multipart_loop (length s + 2) E (parseBodypart n E)
       (\<lambda>body boundary.
          go_bind (parseMultipart n E [None] body boundary False) (\<lambda>ps. Inr (map partSummary ps)))
       chain s divider digest 0 0 1 []"
| "parseBodypart 0 E chain s h = Inl OutOfFuel"
| "parseBodypart (Suc n) E chain s h =
     go_bind (prepareBody E s h) (\<lambda>pr.
     let chain = Some (pr_header pr) # chain; ct = pr_type pr
     in if ct_Type ct = ''multipart'' then
          go_bind (parseMultipart n E chain (drop (pr_start pr) s) (parameter E ''boundary'' ct)
            (ct_Subtype ct = ''digest'')) (\<lambda>ps.
          finishBody E pr ps None (pr_body pr))
        else if isType ''message'' ''rfc822'' ct then
          go_bind (scanIdx (\<lambda>c. c = CR \<or> c = LF) s (pr_start pr)) (\<lambda>start.
          go_bind (Message_Parse n E chain (drop start s)) (\<lambda>m.
          go_bind (Message_RFC822 E False m) (\<lambda>(body, m).
          finishBody E pr (part_Parts (msg_Part m)) (Some m) body)))
        else finishBody E pr [] None (pr_body pr))"
| "Message_Parse 0 E chain s = Inl OutOfFuel"
| "Message_Parse (Suc n) E chain s =
     go_bind (ReadHeader E s RFC5322Header) (\<lambda>h.
     let numBytes = h_numBytes h
     in go_bind (Header_Repair E h) (\<lambda>h.
        go_bind (substr s numBytes (length s)) (\<lambda>body.
        go_bind (RepairWithBody E
          (\<lambda>body boundary.
             go_bind (parseMultipart n E [None] body boundary False) (\<lambda>ps. Inr (map partSummary ps)))
          chain body h) (\<lambda>h.
        go_bind (Header_ContentType h) (\<lambda>ct.
        go_bind
          (case ct of
             Some (_, f) \<Rightarrow>
               if ct_Type f = ''multipart'' then
                 go_bind (parseMultipart n E (Some h # chain) s (parameter E ''boundary'' f)
                   (ct_Subtype f = ''digest'')) (\<lambda>ps.
                 Inr (MkPart (emptyInfo\<lparr> pi_Header := Some h \<rparr>) ps None))
               else parseBodypart n E (Some h # chain) body h
           | None \<Rightarrow> parseBodypart n E (Some h # chain) body h) (\<lambda>p.
        go_bind (part_Header p) (\<lambda>h.
        go_bind (Header_Simplify E h) (\<lambda>h.
        Inr (MkMessage (withHeader (Some h) p) (length s))))))))))"

text \<open>
  Every message inside another one is shorter, and between two of them there are at most three calls; the fuel of
  \<open>ReadMessage\<close> is three times the length of the input and a little more.
\<close>

definition ReadMessage :: "go_env \<Rightarrow> string \<Rightarrow> Message go" where
  "ReadMessage E s = Message_Parse (3 * length s + 2) E [] s"

section \<open>Finding a part by its number\<close>

text \<open>A first part without a header takes the header of the message around it, unless that is a multipart.\<close>

definition linkHeader :: "Part option \<Rightarrow> int \<Rightarrow> Part \<Rightarrow> Part go" where
  "linkHeader bp n c =
     (if n = 1 \<and> pi_Header (part_info c) = None then
        (let h = (case bp of
                    Some (MkPart _ _ (Some m)) \<Rightarrow> pi_Header (part_info (msg_Part m))
                  | _ \<Rightarrow> Some (newHeader RFC5322Header))
         in case h of
              None \<Rightarrow> Inr c
            | Some h \<Rightarrow>
                go_bind (Header_ContentType h) (\<lambda>ct.
                Inr (if (case ct of None \<Rightarrow> True | Some (_, f) \<Rightarrow> ct_Type f \<noteq> ''multipart'')
                     then withHeader (Some h) c else c)))
      else Inr c)"

text \<open>The index the loop over the children ends with: the first one with a number as large, or the last one.\<close>

definition childIndex :: "int \<Rightarrow> Part list \<Rightarrow> nat" where
  "childIndex n cs =
     min (length (takeWhile (\<lambda>c. pi_Number (part_info c) < n) cs)) (length cs - 1)"

text \<open>
  The statement \<open>cs = append(append(cs[:i], child), cs[i:]...)\<close> seen through the slice of the parent, whose length does
  not change: the inner \<open>append\<close> writes the child over the element at the index; if the array behind the slice has room for
  one more element, the outer one also moves the elements from there on up by one. Nothing is added to an empty slice.
  Whether there is room is left open by the language, and is the argument \<open>room\<close>.
\<close>

definition insertChild :: "(Part list \<Rightarrow> bool) \<Rightarrow> nat \<Rightarrow> Part \<Rightarrow> Part list \<Rightarrow> Part list" where
  "insertChild room i child cs =
     (let ds = cs[i := child]
      in if room cs then take (length cs) (take i ds @ [child] @ drop i ds) else ds)"

text \<open>The walk down the tree: the part that is found, and the children \<open>cs\<close> after it.\<close>

function walkParts ::
    "(Part list \<Rightarrow> bool) \<Rightarrow> bool \<Rightarrow> string \<Rightarrow> nat \<Rightarrow> Part option \<Rightarrow> Part list \<Rightarrow> (Part option \<times> Part list) go" where
  "walkParts room create s b bp cs =
     (if b < length s then
        let e = scanWhile isDigit s b
        in if e < length s \<and> s ! e \<noteq> CHR ''.'' then Inr (None, cs)
           else
             case atoi (take (e - b) (drop b s)) of
               None \<Rightarrow> Inr (None, cs)
             | Some n \<Rightarrow>
                 if n = 0 then Inr (None, cs)
                 else
                   let i = childIndex n cs
                   in if i < length cs \<and> pi_Number (part_info (cs ! i)) = n then
                        go_bind (linkHeader bp n (cs ! i)) (\<lambda>c.
                        go_bind (walkParts room create s (e + 1) (Some c) (part_Parts c)) (\<lambda>(r, ps).
                        Inr (r, cs[i := withParts ps c])))
                      else if create then
                        let child = MkPart (emptyInfo\<lparr> pi_Number := n \<rparr>) [] None
                        in go_bind (walkParts room create s (e + 1) (Some child) []) (\<lambda>(r, _).
                           Inr (r, insertChild room i child cs))
                      else Inr (None, cs)
      else Inr (bp, cs))"
  by pat_completeness auto
termination
proof (relation "measure (\<lambda>(room, create, s, b, bp, cs). length s - b)", goal_cases)
  case (2 room create s b bp cs e n i c)
  with scanWhile_ge [of b isDigit s] show ?case by (simp add: diff_less_mono2)
next
  case (3 room create s b bp cs e n i child)
  with scanWhile_ge [of b isDigit s] show ?case by (simp add: diff_less_mono2)
qed simp

declare walkParts.simps [simp del]

definition BodyPart :: "(Part list \<Rightarrow> bool) \<Rightarrow> bool \<Rightarrow> string \<Rightarrow> Message \<Rightarrow> (Part option \<times> Message) go" where
  "BodyPart room create s m =
     go_bind (walkParts room create s 0 None (part_Parts (msg_Part m))) (\<lambda>(r, ps).
     Inr (r, MkMessage (withParts ps (msg_Part m)) (msg_RFC822Size m)))"

end
