(* ===== verification/MessageLaws.thy ===== *)
theory MessageLaws
  imports RescueLaws MessageParser
begin

text \<open>
  Parsing and printing whole messages (\<^verbatim>\<open>parts.go\<close>, \<^verbatim>\<open>message.go\<close>): the fuel of the three parsers is enough, so that
  \<open>ReadMessage\<close> ends on every input, and every header in the tree it returns satisfies the invariant.
\<close>

section \<open>Transfer encodings\<close>

lemma tame_encodeCTE [simp]: "tame (encodeCTE s e n)"
  by (simp add: encodeCTE_def eQP_returns)

lemma tame_uueGroup [simp]: "tame (uueGroup s i)"
  by (simp add: uueGroup_def)

lemma tame_deUue_line [simp]: "tame (deUue_line s i l buf)"
proof (induction s i l buf rule: deUue_line.induct)
  case (1 s i l buf)
  show ?case by (subst deUue_line.simps, intro tame_rules 1) simp_all
qed

lemma tame_deUue_loop [simp]: "tame (deUue_loop s i buf)"
proof (induction s i buf rule: deUue_loop.induct)
  case (1 s i buf)
  show ?case by (subst deUue_loop.simps, intro tame_rules 1) auto
qed

lemma tame_decodeCTE [simp]: "tame (decodeCTE s e)"
  unfolding decodeCTE_def deUue_def by (intro tame_rules; simp)

section \<open>Texts\<close>

lemma tame_guessTextCodec [simp]: "tame (guessTextCodec E body)"
  unfolding guessTextCodec_def startsIso2022_def by (intro tame_rules; simp)

lemma metaGuess_ends: "ensures ends (metaGuess E body b cs guess) (\<lambda>_. True)"
  unfolding metaGuess_def by (intro ensures_rules) simp_all

lemma ensures_type_assertion:
  "(\<And>ct. f = CTypeField ct \<Longrightarrow> ensures F (g ct) Q) \<Longrightarrow> F FailedTypeAssertion \<Longrightarrow>
   ensures F (case f of CTypeField ct \<Rightarrow> g ct | _ \<Rightarrow> Inl FailedTypeAssertion) Q"
  by (cases f) simp_all

lemma metaLoop_ends: "asciiConverter E \<Longrightarrow> ensures ends (metaLoop E body b i guess) (\<lambda>_. True)"
proof (induction E body b i guess rule: metaLoop.induct)
  case (1 E body b i guess)
  show ?case
    by (subst metaLoop.simps, rule ensures_case_option, simp, rule ensures_let, rule ensures_let,
        rule ensures_bind, rule ensures_callI, simp add: 1(2), rule ensures_type_assertion, rule ensures_bind,
        rule ensures_mono [OF metaGuess_ends], simp, rule 1(1)) (simp_all add: 1(2))
qed

lemma guessCharset_ends: "asciiConverter E \<Longrightarrow> ensures ends (guessCharset E html cv) (\<lambda>_. True)"
  unfolding guessCharset_def guessHtmlCodec_def
  by (intro ensures_rules ensures_callI metaLoop_ends [THEN ensures_post]) simp_all

lemma startConversion_ends: "ensures ends (startConversion E body ct) (\<lambda>_. True)"
  unfolding startConversion_def by (intro ensures_rules) simp_all

text \<open>Changes to fields that keep their references, names and kinds.\<close>

definition sameShape :: "nat \<times> Field \<Rightarrow> nat \<times> Field \<Rightarrow> bool" where
  "sameShape f g \<longleftrightarrow> fst f = fst g \<and> nameOf f = nameOf g \<and> (wfField (snd f) \<longrightarrow> wfField (snd g))"

lemma hinv_sameShape:
  assumes "hinv t h" and "list_all2 sameShape (h_Fields h) gs"
  shows "hinv t (h\<lparr> h_Fields := gs \<rparr>)"
proof -
  have refs: "map fst gs = map fst fs" if "list_all2 sameShape fs gs" for fs gs
    using that by (induction rule: list_all2_induct) (auto simp: sameShape_def)
  have all: "list_all (\<lambda>g. P (fst g) \<and> N (nameOf g) \<and> wfField (snd g)) gs"
    if "list_all2 sameShape fs gs" "list_all (\<lambda>f. P (fst f) \<and> N (nameOf f) \<and> wfField (snd f)) fs" for P N fs gs
    using that by (induction rule: list_all2_induct) (auto simp: sameShape_def)
  let ?P = "\<lambda>r. r < h_fresh h" and ?N = "\<lambda>n. t \<longrightarrow> n \<noteq> ContentTypeFieldName"
  have "list_all (\<lambda>f. ?P (fst f) \<and> ?N (nameOf f) \<and> wfField (snd f)) (h_Fields h)"
    using assms(1) by (auto simp: hinv_defs list_all_iff)
  from all [OF assms(2) this] refs [OF assms(2)] assms(1) show ?thesis
    by (auto simp: hinv_defs list_all_iff)
qed

lemma convertSubjects_keeps: "list_all2 sameShape fs (fst (convertSubjects E cs fs e))"
proof (induction fs arbitrary: e)
  case (Cons rf fs)
  obtain r f where "rf = (r, f)" by (cases rf)
  with Cons show ?case by (cases f) (simp_all add: Let_def sameShape_def case_prod_unfold)
qed simp

lemma convertEastAsian_wf: "hinv t h \<Longrightarrow> hinv t (snd (convertEastAsian E cv h))"
  using convertSubjects_keeps [of "h_Fields h" E "cv_charset cv" "cv_failed cv"]
  by (auto simp: convertEastAsian_def Let_def hinv_sameShape split: prod.split)

definition cteRef :: "cte_ref \<Rightarrow> bool" where
  "cteRef cte \<longleftrightarrow> (case cte of None \<Rightarrow> True | Some (_, f) \<Rightarrow> wfField (CTEField f))"

lemma Header_CTE_ref: "hinv t h \<Longrightarrow> ensures (\<lambda>_. False) (Header_CTE h) cteRef"
  by (rule ensures_post [OF Header_CTE_wf [of t h]]) (simp_all add: cteRef_def)

lemma settleCTE_wf:
  assumes "asciiConverter E" and "hinv False h" and "cteRef cte"
  shows "ensures ends (settleCTE E qp cte h) (\<lambda>(cte, h). hinv False h \<and> cteRef cte)"
  unfolding settleCTE_def using assms
  by (intro ensures_rules add_call [where t = False] Header_CTE_ref [where t = False, THEN ensures_safe])
    (auto simp: cteRef_def Let_def intro!: hinv_setField split: option.splits)

lemma dataPart_wf:
  assumes "asciiConverter E" and "hinv False h" and "cteRef cte"
  shows "ensures ends (dataPart E body ct cte h) (\<lambda>(cte, h). hinv False h \<and> cteRef cte)"
  unfolding dataPart_def using assms
  by (intro ensures_rules add_call [where t = False] Header_CTE_ref [where t = False, THEN ensures_safe])
    (auto simp: cteRef_def Let_def intro!: hinv_setField split: option.splits)

lemma textPart_wf:
  assumes "asciiConverter E" and "hinv False h" and "cteRef cte" and "wfField (CTypeField (snd ct))"
  shows "ensures ends (textPart E e body ct cte h) (\<lambda>(_, _, _, cte, h). hinv False h \<and> cteRef cte)"
proof -
  have set: "hinv False (setField r (CTypeField (addParameter E ''charset'' cs c)) g)"
    "hinv False (setField r (CTypeField (removeParameter E ''charset'' c)) g)"
    if "hf_name c = ContentTypeFieldName" "wfParams (mf_Parameters c)" "hinv False g" for r cs c g
    using that by (auto intro!: hinv_setField simp: addParameter_def removeParameter_def wfParams_set wfParams_del)
  have east: "hinv False g" if "(cv', g) = convertEastAsian E cv h" for cv cv' g
    using convertEastAsian_wf [OF assms(2), of E cv] that by (metis snd_conv)
  show ?thesis
    unfolding textPart_def using assms
    by (intro ensures_rules startConversion_ends [THEN ensures_post] guessCharset_ends [THEN ensures_post]
        settleCTE_wf [THEN ensures_post]) (auto intro!: set elim: east)
qed

section \<open>Before the children\<close>

lemma anyQP_ends: "ensures ends (anyQP fs) (\<lambda>_. True)"
proof (induction fs)
  case (Cons f fs)
  then show ?case by (cases f) (auto split: Field.split intro!: ensures_bind intro: ensures_post)
qed simp

lemma dropEquivalentCTE_wf: "hinv t h \<Longrightarrow> ensures ends (dropEquivalentCTE E body h) (hinv t)"
  unfolding dropEquivalentCTE_def by (intro ensures_rules anyQP_ends [THEN ensures_post]) simp_all

lemma tame_decodeBody [simp]: "tame (decodeBody body e)"
  by (simp add: decodeBody_def)

text \<open>A plain header gets the type text/plain.\<close>

lemma NewHeaderField_textPlain:
  "case NewHeaderField E ''Content-Type'' ''text/plain'' of Inr (CTypeField f) \<Rightarrow> ct_Type f = ''text'' | _ \<Rightarrow> False"
  by code_simp

lemma hinv_weaken: "hinv t h \<Longrightarrow> hinv False h"
  by (simp add: hinv_def)

lemma nthNamed_append:
  "nthNamed n 0 fs = None \<Longrightarrow> nthNamed n 0 (fs @ [f]) = (if nameOf f = n then Some f else None)"
  by (induction fs) (auto split: if_splits)

lemma ensureType_plain:
  assumes "hinv True h"
  shows "\<exists>f. ensureType E h = Inr ((h_fresh h, f), appendNew (CTypeField f) h) \<and> wfField (CTypeField f) \<and> ct_Type f = ''text''"
proof -
  obtain f where f: "NewHeaderField E ''Content-Type'' ''text/plain'' = Inr (CTypeField f)" "ct_Type f = ''text''"
    using NewHeaderField_textPlain [of E] by (auto split: sum.splits Field.splits)
  have wf: "wfField (CTypeField f)" using NewHeaderField_shape [OF f(1)] by simp
  have none: "nthNamed ContentTypeFieldName 0 (h_Fields h) = None"
    using plain_no_type [OF assms TrueI, of 0] by (simp add: header_field_def)
  have "Header_Add E ''Content-Type'' ''text/plain'' h = Inr (appendNew (CTypeField f) h)"
    using f wf by (simp add: Header_Add_def addField_def)
  moreover have "header_field ContentTypeFieldName 0 (appendNew (CTypeField f) h) = Some (h_fresh h, CTypeField f)"
    using nthNamed_append [OF none, of "(h_fresh h, CTypeField f)"] wf by (simp add: header_field_def appendNew_def)
  moreover have "h_defaultType h = TextPlainContentType" using assms by (simp add: hinv_defs)
  ultimately show ?thesis
    using none f wf by (simp add: ensureType_def Header_ContentType_def header_field_def)
qed

lemma ensureType_wf:
  assumes "asciiConverter E" and "hinv t h"
  shows "ensures ends (ensureType E h)
    (\<lambda>((r, ct), h). hinv False h \<and> wfField (CTypeField ct) \<and> (t \<longrightarrow> ct_Type ct = ''text''))"
proof (cases t)
  case True
  with ensureType_plain [of h E] assms(2) show ?thesis by (auto intro!: hinv_appendNew dest: hinv_weaken)
next
  case False
  with assms show ?thesis
    unfolding ensureType_def
    by (intro ensures_rules field_calls [where t = False] add_call [where t = False]) auto
qed

lemma tame_bodyStart [simp]: "tame (bodyStart s)"
  by (simp add: bodyStart_def Let_def)

lemma prepareBody_wf:
  assumes "asciiConverter E" and "hinv t h"
  shows "ensures ends (prepareBody E s h)
    (\<lambda>pr. hinv False (pr_header pr) \<and> cteRef (pr_cte pr) \<and> (t \<longrightarrow> ct_Type (pr_type pr) = ''text''))"
  unfolding prepareBody_def using assms
  by (intro ensures_rules ensures_callI [OF tame_bodyStart] ensures_callI [OF tame_decodeBody]
      dropEquivalentCTE_wf [where t = t, THEN ensures_post]
      Header_CTE_ref [where t = t, THEN ensures_safe] ensureType_wf [where t = t, THEN ensures_post])
    (auto intro!: ensures_bind textPart_wf [THEN ensures_post] dataPart_wf [THEN ensures_post])

section \<open>Trees\<close>

text \<open>Every header in the tree satisfies the invariant.\<close>

fun wfPart :: "Part \<Rightarrow> bool" and wfMessage :: "Message \<Rightarrow> bool" where
  "wfPart (MkPart i ps m) = (pred_option wfHeader (pi_Header i) \<and> list_all wfPart ps \<and> pred_option wfMessage m)"
| "wfMessage (MkMessage p n) = wfPart p"

lemma wfPart_Header: "wfPart p \<Longrightarrow> ensures ends (part_Header p) (hinv False)"
  by (cases p) (auto simp: part_Header_def hinv_def split: option.split)

lemma wfPart_withHeader: "wfPart p \<Longrightarrow> hinv False h \<Longrightarrow> wfPart (withHeader (Some h) p)"
  by (cases p) (simp add: hinv_def)

lemma finishBody_wf:
  assumes "asciiConverter E" and "hinv False (pr_header pr)" and "list_all wfPart ps" and "pred_option wfMessage m"
  shows "ensures ends (finishBody E pr ps m body) wfPart"
  unfolding finishBody_def using assms
  by (intro ensures_rules ensures_callI Header_Simplify_wf [where t = False, THEN ensures_ranged])
    (auto simp: hinv_def)

lemma ensures_result_of: "ensures F m R \<Longrightarrow> (\<And>x. m = Inr x \<Longrightarrow> R x \<Longrightarrow> Q x) \<Longrightarrow> ensures F m Q"
  by (rule ensures_mono)

lemma ensures_mapGo:
  "(\<And>x. x \<in> set xs \<Longrightarrow> ensures F (f x) Q) \<Longrightarrow> ensures F (mapGo f xs) (list_all Q)"
proof (induction xs)
  case (Cons x xs)
  then have tail: "ensures F (mapGo f xs) (list_all Q)" by simp
  show ?case
    by (simp, intro ensures_bind ensures_post [OF Cons(2)] ensures_post [OF tail]) simp_all
qed simp

section \<open>Printing a tree\<close>

text \<open>Printing a message ends and keeps the headers well-formed.\<close>

lemma partEncoding_ends: "hinv False h \<Longrightarrow> ensures ends (partEncoding h) (\<lambda>_. True)"
  unfolding partEncoding_def by (intro ensures_rules Header_CTE_ref [where t = False, THEN ensures_safe]) simp_all

lemma appendTextPart_ends: "wfPart p \<Longrightarrow> ensures ends (appendTextPart p) (\<lambda>_. True)"
  unfolding appendTextPart_def
  by (intro ensures_rules wfPart_Header [THEN ensures_post] partEncoding_ends [THEN ensures_post] ensures_callI) simp_all

lemma partBoundary_ends: "wfPart p \<Longrightarrow> ensures ends (partBoundary E p) (\<lambda>_. True)"
  unfolding partBoundary_def
  by (intro ensures_rules wfPart_Header [THEN ensures_post] field_calls [where t = False]) auto

lemma type_call: "hinv False h \<Longrightarrow> (\<And>x. Header_ContentType h = Inr x \<Longrightarrow> Q x) \<Longrightarrow> ensures ends (Header_ContentType h) Q"
  using Header_ContentType_wf [of False h] by (cases "Header_ContentType h") simp_all

lemma printing_wf:
  "wfPart p \<Longrightarrow> ensures ends (appendMultipart E a p) (\<lambda>(_, q). wfPart q)"
  "wfPart p \<Longrightarrow> ensures ends (appendAnyPart E a ct p) (\<lambda>(_, q). wfPart q)"
  "wfMessage m \<Longrightarrow> ensures ends (Message_RFC822 E a m) (\<lambda>(_, n). wfMessage n)"
  "wfPart p \<Longrightarrow> ensures ends (Message_Body E a p) (\<lambda>(_, q). wfPart q)"
proof (induction E a p and E a ct p and E a m and E a p
    rule: appendMultipart_appendAnyPart_Message_RFC822_Message_Body.induct)
  case (1 E a i ps m)
  have child: "ensures ends (go_bind (part_Header c) (\<lambda>h.
       go_bind (Header_AsText h a) (\<lambda>t.
       go_bind (appendAnyPart E a (Some ct) c) (\<lambda>(u, c).
       Inr (crlf @ t @ crlf @ u @ crlf @ ''--'' @ delim, c))))) (\<lambda>(_, c). wfPart c)"
    if "partBoundary E (MkPart i ps m) = Inr (ct, delim)" "c \<in> set ps" for ct delim c
    using 1 that
    by (intro ensures_rules wfPart_Header [THEN ensures_result_of] ensures_callI [OF tame_Header_AsText]
        1(1) [OF that(1) refl that(2), THEN ensures_post]) (auto simp: list_all_iff)
  show ?case
    by (subst appendMultipart.simps,
        intro ensures_rules partBoundary_ends [OF 1(2), THEN ensures_result_of] ensures_mapGo [OF child, THEN ensures_post])
      (use 1(2) in \<open>auto simp: list_all_iff\<close>)
next
  case (2 E a ct i ps m)
  note h = wfPart_Header [OF 2(3), THEN ensures_result_of]
  show ?case
    by (subst appendAnyPart.simps, intro ensures_rules h type_call partEncoding_ends [THEN ensures_result_of])
      (use 2(2,3) in \<open>auto split: printing.split option.split intro!: ensures_bind appendTextPart_ends [THEN ensures_post]
        ensures_callI [OF tame_encodeCTE] 2(1) [THEN ensures_post]\<close>)
next
  case (3 E a p n)
  show ?case
    by (subst Message_RFC822.simps, intro ensures_rules wfPart_Header [THEN ensures_result_of]
        ensures_callI [OF tame_Header_AsText] 3(1) [THEN ensures_post]) (use 3(2) in auto)
next
  case (4 E a i ps m)
  show ?case
    by (subst Message_Body.simps, intro ensures_rules wfPart_Header [OF 4(3), THEN ensures_result_of] type_call)
      (use 4(3) in \<open>auto split: option.split list.split intro!: ensures_bind 4(1) 4(2) [THEN ensures_post]
        simp: wfPart_withHeader\<close>)
qed

section \<open>Reading a header\<close>

text \<open>A header that took no characters of the input has no fields.\<close>

lemma headerLine_same:
  assumes "headerLine E s i h = Inr (b, k, g)"
  shows "i \<le> k \<and> (\<not> b \<longrightarrow> g = h)"
proof (cases b)
  case True
  with headerLine_moves [of E s i h k g] assms show ?thesis by simp
next
  case False
  with assms have "k = skipBOM s i \<and> g = h"
    by (auto simp: headerLine_def Let_def go_bind_eq_Inr split: if_splits prod.splits)
  with False skipBOM_ge [of i s] show ?thesis by simp
qed

lemma readLines_same: "readLines E s i h = Inr (k, g) \<Longrightarrow> i \<le> k \<and> (k = i \<longrightarrow> g = h)"
proof (induction E s i h rule: readLines.induct)
  case (1 E s i h)
  obtain b j f where l: "headerLine E s i h = Inr (b, j, f)"
    and r: "(if b then readLines E s j f else Inr (j, f)) = Inr (k, g)"
    using 1(2) by (subst (asm) readLines.simps) (auto simp: go_bind_eq_Inr)
  show ?case
  proof (cases b)
    case True
    with 1(1) [OF l refl refl] r headerLine_moves [of E s i h j f] l show ?thesis by auto
  next
    case False
    with headerLine_same [OF l] r show ?thesis by auto
  qed
qed

lemma ReadHeader_plain:
  assumes "asciiConverter E"
  shows "ensures ends (ReadHeader E s m) (\<lambda>h. hinv (h_numBytes h = 0) h)"
proof (cases "ReadHeader E s m")
  case (Inl e)
  with ReadHeader_wf [OF assms, of s m] show ?thesis by (auto simp: allowed_simps)
next
  case (Inr h)
  with ReadHeader_wf [OF assms, of s m] have "hinv False h" by simp
  moreover have "hinv True h" if "h_numBytes h = 0"
    using Inr that readLines_same [of E s 0 "newHeader m"] hinv_newHeader [of True m]
    by (auto simp: ReadHeader_def go_bind_eq_Inr Let_def hinv_defs split: if_splits)
  ultimately show ?thesis using Inr by (cases "h_numBytes h = 0") simp_all
qed

section \<open>Multiparts\<close>

lemma tame_atDivider [simp]: "tame (atDivider s d i)"
  unfolding atDivider_def by (intro tame_rules; simp)

lemma tame_dividerEnd [simp]: "tame (dividerEnd s d i)"
  unfolding dividerEnd_def by (intro tame_rules; simp)

lemma tame_partEnd [simp]: "tame (partEnd s i)"
  unfolding partEnd_def by (intro tame_rules; simp)

lemma skipLine_ge: "i \<le> skipLine s i"
  unfolding skipLine_def using scanWhile_ge le_trans by blast

lemma skipLine_gt:
  assumes "i < length s"
  shows "i < skipLine s i"
proof -
  let ?p = "\<lambda>c. c \<noteq> CR \<and> c \<noteq> LF" and ?q = "\<lambda>c. c = CR \<or> c = LF"
  have "i < scanWhile ?p s i \<or> i < scanWhile ?q s i"
    using assms scanWhile_step [of ?p s i] scanWhile_step [of ?q s i] scanWhile_ge [of "i + 1" ?p s]
      scanWhile_ge [of "i + 1" ?q s] by fastforce
  then show ?thesis
    using scanWhile_ge [of "scanWhile ?p s i" ?q s] scanWhile_ge [of i ?p s]
    by (cases "scanWhile ?p s i = i") (auto simp: skipLine_def)
qed

lemma afterLineEnd_ge: "afterLineEnd s j = Some k \<Longrightarrow> j \<le> k"
  using scanWhile_ge [of j "\<lambda>c. c = CHR '' '' \<or> c = CHR 0x09" s]
  by (auto simp: afterLineEnd_def Let_def split: if_splits)

lemma afterLineEnd_end: "length s \<le> j \<Longrightarrow> afterLineEnd s j \<noteq> None"
  using scanWhile_ge [of j "\<lambda>c. c = CHR '' '' \<or> c = CHR 0x09" s] by (auto simp: afterLineEnd_def Let_def)

lemma atDivider_end: "length s \<le> i \<Longrightarrow> atDivider s d i = Inr True"
  by (simp add: atDivider_def)

lemma dividerEnd_moves: "dividerEnd s d i = Inr (j, l) \<Longrightarrow> i \<le> j \<and> (length s \<le> i \<longrightarrow> j = i \<and> l)"
  by (auto simp: dividerEnd_def Let_def go_bind_eq_Inr split: if_splits)

lemma length_substr: "substr s a b = Inr t \<Longrightarrow> length t + a \<le> length s"
  by (auto simp: substr_def split: if_splits)

lemma wfHeader_defaultType [simp]: "wfHeader (h\<lparr> h_defaultType := d \<rparr>) = wfHeader h"
  by (simp add: wfHeader_def)

text \<open>The parsers a multipart calls: the one for bodies, on shorter inputs, and the one for the repair.\<close>

definition partsEnd :: "nat \<Rightarrow> bodyParser \<Rightarrow> multiParser \<Rightarrow> bool" where
  "partsEnd n bodyp multi \<longleftrightarrow>
     (\<forall>chain t h. length t < n \<longrightarrow> hinv False h \<longrightarrow> ensures ends (bodyp chain t h) wfPart) \<and>
     (\<forall>boundary. ensures ends (multi [] boundary) (\<lambda>_. True))"

lemma readPart_wf:
  assumes "asciiConverter E" and "partsEnd (length s) bodyp multi" and "0 < start" and "start < length s"
  shows "ensures ends (readPart E bodyp multi chain digest s start i j pn) wfPart"
proof -
  have body: "ensures ends (bodyp c t h) wfPart" if "substr s (start + n) k = Inr t" "hinv False h" for c t h n k
    using assms that length_substr [OF that(1)] by (auto simp: partsEnd_def)
  have multi: "ensures ends (multi [] b) (\<lambda>_. True)" for b using assms(2) by (simp add: partsEnd_def)
  show ?thesis
    unfolding readPart_def using assms(1) multi
    by (intro ensures_rules ReadHeader_wf [THEN ensures_ranged] Header_Repair_wf [where t = False, THEN ensures_mono]
        body [THEN ensures_post] wfPart_Header [THEN ensures_post] RepairWithBody_wf [where t = False, THEN ensures_post]
        ensures_callI [OF tame_partEnd] ensures_callI [OF tame_reads(1)])
      (auto simp: hinv_def split: Part.split)
qed

text \<open>A line is at least one character long, so the fuel of the loop is enough.\<close>

lemma multipart_loop_wf:
  assumes "asciiConverter E" and "partsEnd (length s) bodyp multi"
  shows "length s - i < k \<Longrightarrow> list_all wfPart ps \<Longrightarrow>
    ensures ends (multipart_loop k E bodyp multi chain s divider digest i start pn ps) (list_all wfPart)"
proof (induction k arbitrary: i start pn ps)
  case (Suc k)
  have skip: "length s - skipLine s i < k" if "i < length s"
    using Suc(2) skipLine_gt [OF that] that by simp
  have onward: "length s - skipLine s m < k"
    if "dividerEnd s divider i = Inr (j, False)" "afterLineEnd s j = Some m" for j m
  proof -
    have "i < length s" using dividerEnd_moves [OF that(1)] by force
    moreover have "i < j" using that(1) by (auto simp: dividerEnd_def Let_def go_bind_eq_Inr split: if_splits)
    moreover have "j \<le> skipLine s m" using afterLineEnd_ge [OF that(2)] skipLine_ge [of m s] by simp
    ultimately show ?thesis using Suc(2) by simp
  qed
  have inside: "i < length s" if "dividerEnd s divider i = Inr (j, l)" "afterLineEnd s j = None" for j l
    using dividerEnd_moves [OF that(1)] afterLineEnd_end [of s j] that(2) by force
  have before: "i < length s" if "atDivider s divider i = Inr False"
    using that atDivider_end [of s i divider] by force
  show ?case
    by (subst multipart_loop.simps, intro ensures_rules ensures_callI [OF tame_atDivider]
        ensures_callI [OF tame_dividerEnd] Suc(1) skip readPart_wf [OF assms, THEN ensures_post])
      (use Suc(3) in \<open>auto intro: before inside onward\<close>)
qed simp

section \<open>The three parsers\<close>

text \<open>
  How much fuel each of the parsers needs on an input. A body under a plain header is a text and has no children.
\<close>

definition multisEnd :: "go_env \<Rightarrow> nat \<Rightarrow> bool" where
  "multisEnd E n \<longleftrightarrow> (\<forall>chain s divider digest. 3 * length s + 1 \<le> n \<longrightarrow>
     ensures ends (parseMultipart n E chain s divider digest) (list_all wfPart))"

definition bodiesEnd :: "go_env \<Rightarrow> nat \<Rightarrow> bool" where
  "bodiesEnd E n \<longleftrightarrow> (\<forall>t chain s h. hinv t h \<longrightarrow> (if t then 1 else 3 * length s + 3) \<le> n \<longrightarrow>
     ensures ends (parseBodypart n E chain s h) wfPart)"

definition messagesEnd :: "go_env \<Rightarrow> nat \<Rightarrow> bool" where
  "messagesEnd E n \<longleftrightarrow> (\<forall>chain s. 3 * length s + 2 \<le> n \<longrightarrow> ensures ends (Message_Parse n E chain s) wfMessage)"

lemma multi_call:
  "multisEnd E n \<Longrightarrow> 3 * length s + 1 \<le> n \<Longrightarrow>
   ensures ends (go_bind (parseMultipart n E chain s d g) (\<lambda>ps. Inr (map partSummary ps))) (\<lambda>_. True)"
  by (rule ensures_bind, rule ensures_post [where R = "list_all wfPart"]) (simp_all add: multisEnd_def)

lemma multis_step:
  assumes "asciiConverter E" and "multisEnd E n" and "bodiesEnd E n"
  shows "multisEnd E (Suc n)"
proof -
  have "ensures ends (parseMultipart (Suc n) E chain s d g) (list_all wfPart)" if "3 * length s \<le> n" for chain s d g
  proof (cases "s = []")
    case True
    then show ?thesis by (simp add: atDivider_end dividerEnd_def afterLineEnd_def Let_def scanWhile_def)
  next
    case False
    with that have "1 \<le> n" by (cases s) simp_all
    then have "partsEnd (length s) (parseBodypart n E)
        (\<lambda>body boundary. go_bind (parseMultipart n E [None] body boundary False) (\<lambda>ps. Inr (map partSummary ps)))"
      using assms(3) that multi_call [OF assms(2), of "[]"] False unfolding partsEnd_def bodiesEnd_def by auto
    from multipart_loop_wf [OF assms(1) this] show ?thesis by (simp del: multipart_loop.simps)
  qed
  then show ?thesis by (simp add: multisEnd_def)
qed

lemma isType_type: "isType a b ct \<Longrightarrow> ct_Type ct = a"
  by (simp add: isType_def)

lemma wfMessage_Parts: "wfMessage m \<Longrightarrow> list_all wfPart (part_Parts (msg_Part m))"
  by (cases m; cases "msg_Part m") simp

lemma bodies_step:
  assumes "asciiConverter E" and "multisEnd E n" and "messagesEnd E n"
  shows "bodiesEnd E (Suc n)"
proof -
  have "ensures ends (parseBodypart (Suc n) E chain s h) wfPart"
    if "hinv t h" and fuel: "t \<or> 3 * length s + 2 \<le> n" for t chain s h
  proof -
    have multi: "ensures ends (parseMultipart n E c (drop k s) d g) (list_all wfPart)" if "\<not> t" for c k d g
      using assms(2) fuel that by (simp add: multisEnd_def)
    have message: "ensures ends (Message_Parse n E c (drop k s)) wfMessage" if "\<not> t" for c k
      using assms(3) fuel that by (simp add: messagesEnd_def)
    show ?thesis
      by (subst parseBodypart.simps, intro ensures_rules prepareBody_wf [OF assms(1) that(1), THEN ensures_post]
          multi [THEN ensures_post] message [THEN ensures_post] printing_wf(3) [THEN ensures_post]
          finishBody_wf [OF assms(1)] ensures_callI [OF tame_scanIdx])
        (simp_all add: wfMessage_Parts, auto dest: isType_type)
  qed
  then show ?thesis by (simp add: bodiesEnd_def)
qed

lemma messages_step:
  assumes "asciiConverter E" and "multisEnd E n" and "bodiesEnd E n"
  shows "messagesEnd E (Suc n)"
proof -
  have "ensures ends (Message_Parse (Suc n) E chain s) wfMessage" if fuel: "3 * length s + 1 \<le> n" for chain s
  proof -
    have multi: "ensures ends (parseMultipart n E c s d g) (list_all wfPart)" for c d g
      using assms(2) fuel by (simp add: multisEnd_def)
    have scan: "ensures ends (go_bind (parseMultipart n E [None] body d False) (\<lambda>ps. Inr (map partSummary ps))) (\<lambda>_. True)"
      if "substr s k (length s) = Inr body" for k d body
      using multi_call [OF assms(2)] length_substr [OF that] fuel by simp
    have body: "ensures ends (parseBodypart n E c body h) wfPart"
      if "substr s k (length s) = Inr body" "hinv (k = 0) h" for c body h k
      using assms(3) length_substr [OF that(1)] that(2) fuel unfolding bodiesEnd_def by (cases "k = 0") fastforce+
    show ?thesis
      by (subst Message_Parse.simps, intro ensures_rules ReadHeader_plain [OF assms(1), THEN ensures_post]
          Header_Repair_wf [OF assms(1), THEN ensures_mono] ensures_callI [OF tame_reads(1)]
          RepairWithBody_wf [OF assms(1), THEN ensures_post] field_calls
          multi [THEN ensures_post] body [THEN ensures_post] wfPart_Header [THEN ensures_post]
          Header_Simplify_wf [OF assms(1), THEN ensures_ranged])
        (auto simp: scan wfPart_withHeader dest: hinv_wf)
  qed
  then show ?thesis by (simp add: messagesEnd_def)
qed

lemma parsers_end:
  assumes "asciiConverter E"
  shows "multisEnd E n \<and> bodiesEnd E n \<and> messagesEnd E n"
proof (induction n)
  case 0
  show ?case by (simp add: multisEnd_def bodiesEnd_def messagesEnd_def)
next
  case (Suc n)
  with multis_step [OF assms] bodies_step [OF assms] messages_step [OF assms] show ?case by blast
qed

lemma Message_Parse_wf:
  "asciiConverter E \<Longrightarrow> 3 * length s + 2 \<le> n \<Longrightarrow> ensures ends (Message_Parse n E chain s) wfMessage"
  using parsers_end [of E n] by (simp add: messagesEnd_def)

lemma ensures_ended: "ensures ends m Q \<Longrightarrow> m \<noteq> Inl OutOfFuel"
  by (auto simp: allowed_simps)

declare parseMultipart.simps [simp del] parseBodypart.simps [simp del] Message_Parse.simps [simp del]

section \<open>Plain messages\<close>

text \<open>
  The path of \<open>Message.Parse\<close> for a header without a Content-Type field that is not repaired into a multipart. The
  parser of multiparts that \<open>RepairWithBody\<close> may call is an argument.
\<close>

definition textMessage :: "go_env \<Rightarrow> multiParser \<Rightarrow> string \<Rightarrow> Message go" where
  "textMessage E parse s =
     go_bind (ReadHeader E s RFC5322Header) (\<lambda>h.
     go_bind (Header_Repair E h) (\<lambda>g.
     go_bind (substr s (h_numBytes h) (length s)) (\<lambda>body.
     go_bind (RepairWithBody E parse [] body g) (\<lambda>h.
     go_bind (Header_ContentType h) (\<lambda>ct.
     case ct of
       Some _ \<Rightarrow> Inl ExplicitPanic
     | None \<Rightarrow>
       go_bind (prepareBody E body h) (\<lambda>pr.
       if ct_Type (pr_type pr) \<noteq> ''text'' then Inl ExplicitPanic
       else
         go_bind (finishBody E pr [] None (pr_body pr)) (\<lambda>p.
         go_bind (part_Header p) (\<lambda>h.
         go_bind (Header_Simplify E h) (\<lambda>h.
         Inr (MkMessage (withHeader (Some h) p) (length s)))))))))))"

lemma never_Some: "(\<forall>a b. z \<noteq> Some (a, b)) \<longleftrightarrow> z = None"
  by (cases z) auto

lemma textMessage_parse:
  assumes "textMessage E (\<lambda>body boundary. go_bind (parseMultipart (Suc n) E [None] body boundary False)
      (\<lambda>ps. Inr (map partSummary ps))) s = Inr m"
  shows "Message_Parse (Suc (Suc n)) E [] s = Inr m"
proof -
  let ?parse = "\<lambda>body boundary. go_bind (parseMultipart (Suc n) E [None] body boundary False)
      (\<lambda>ps. Inr (map partSummary ps))"
  obtain h g body f pr p k l where eqs: "ReadHeader E s RFC5322Header = Inr h" "Header_Repair E h = Inr g"
    "substr s (h_numBytes h) (length s) = Inr body" "RepairWithBody E ?parse [] body g = Inr f"
    "Header_ContentType f = Inr None" "prepareBody E body f = Inr pr" "ct_Type (pr_type pr) = ''text''"
    "finishBody E pr [] None (pr_body pr) = Inr p" "part_Header p = Inr k" "Header_Simplify E k = Inr l"
    "m = MkMessage (withHeader (Some l) p) (length s)"
    using assms by (auto simp: textMessage_def go_bind_eq_Inr never_Some split: if_splits option.splits)
  then show ?thesis by (simp add: Message_Parse.simps parseBodypart.simps Let_def isType_def)
qed

lemma textMessage_reads:
  assumes "\<And>parse. case textMessage E parse s of Inr _ \<Rightarrow> True | Inl _ \<Rightarrow> False"
  obtains m where "ReadMessage E s = Inr m"
  using assms textMessage_parse [of E "3 * length s" s] that
  by (fastforce simp: ReadMessage_def split: sum.splits)

text \<open>Evaluation takes the branches of \<open>go_bind\<close> one at a time.\<close>

declare go_bind_def [code_unfold]

section \<open>Properties\<close>

text \<open>
  C1. Reading a message ends on every input: the parsers for messages, bodies and multiparts call one another only on
  inputs that get shorter, and with a fuel of three times the length of the input and two they never run out of it.
  This holds for any larger fuel and any list of parents.
\<close>

theorem ReadMessage_terminates:
  assumes "\<And>w. cs_writer E ''us-ascii'' = Some w \<Longrightarrow> fst (w []) = []"
  shows "ReadMessage E s \<noteq> Inl OutOfFuel \<and>
    (3 * length s + 2 \<le> n \<longrightarrow> Message_Parse n E chain s \<noteq> Inl OutOfFuel)"
  using Message_Parse_wf [OF asciiConverterI, of E s, THEN ensures_ended] assms by (simp add: ReadMessage_def)

theorem ReadMessage_terminates_witness:
  "ReadMessage plainEnv (''Content-Type: multipart/mixed; boundary=b'' @ crlf @ crlf @ ''--b'') \<noteq> Inl OutOfFuel \<and>
   Message_Parse 20 plainEnv [] ''ab'' \<noteq> Inl OutOfFuel"
  using ReadMessage_terminates [of plainEnv "''Content-Type: multipart/mixed; boundary=b'' @ crlf @ crlf @ ''--b''"]
    ReadMessage_terminates [of plainEnv "''ab''" 20 "[]"]
  by (simp add: plainEnv_def)

text \<open>
  C2. Every header in the tree that \<open>ReadMessage\<close> returns, of the message, of its parts and of the messages inside them,
  satisfies the invariant of headers: its fields have the kind that their name calls for, and no two of them are the same
  object.
\<close>

theorem ReadMessage_wf:
  assumes "\<And>w. cs_writer E ''us-ascii'' = Some w \<Longrightarrow> fst (w []) = []" and "ReadMessage E s = Inr m"
  shows "wfMessage m"
  using Message_Parse_wf [OF asciiConverterI, of E s "3 * length s + 2" "[]"] assms by (simp add: ReadMessage_def)

theorem ReadMessage_wf_witness:
  "case ReadMessage plainEnv (''Subject: a'' @ crlf @ crlf @ ''b'' @ crlf) of Inr m \<Rightarrow> wfMessage m | Inl _ \<Rightarrow> False"
proof -
  have "case textMessage plainEnv parse (''Subject: a'' @ crlf @ crlf @ ''b'' @ crlf) of Inr _ \<Rightarrow> True | Inl _ \<Rightarrow> False"
    for parse by code_simp
  then obtain m where m: "ReadMessage plainEnv (''Subject: a'' @ crlf @ crlf @ ''b'' @ crlf) = Inr m"
    by (rule textMessage_reads)
  have "wfMessage m" by (rule ReadMessage_wf [OF _ m]) (auto simp: plainEnv_def)
  with m show ?thesis by simp
qed

text \<open>
  C30. \<open>RFC822\<close> of a message without parts that is not a multipart is the header and an empty line: whatever the text
  and the data of the message are, they are not written, and the message is not changed.
\<close>

theorem RFC822_loses_text:
  assumes "pi_Header i = Some h" and "Header_ContentType h = Inr ct"
    and "pred_option (\<lambda>(_, f). ct_Type f \<noteq> ''multipart'') ct"
  shows "Message_RFC822 E avoidUTF8 (MkMessage (MkPart i [] pm) n) =
    go_bind (Header_AsText h avoidUTF8) (\<lambda>t. Inr (t @ crlf, MkMessage (MkPart i [] pm) n))"
  using assms
  by (auto simp: Message_RFC822.simps Message_Body.simps part_Header_def split: option.split)

theorem RFC822_loses_text_witness:
  "Message_RFC822 plainEnv False
     (MkMessage (MkPart (emptyInfo\<lparr> pi_Header := Some (newHeader RFC5322Header), pi_hasText := True, pi_Text := ''hello'' \<rparr>) [] None) 9) =
   Inr (crlf,
     MkMessage (MkPart (emptyInfo\<lparr> pi_Header := Some (newHeader RFC5322Header), pi_hasText := True, pi_Text := ''hello'' \<rparr>) [] None) 9)"
  by (subst RFC822_loses_text [where h = "newHeader RFC5322Header" and ct = None])
    (simp_all add: Header_ContentType_def header_field_def newHeader_def Header_AsText_def)

end
