(* ===== verification/Spec2Isabelle.thy ===== *)
theory Spec2Isabelle
  imports AddressRoundtrip AddressFaults DateLaws ParameterLaws ReaderLaws HeaderProperties MessageLaws
begin

text \<open>
  A model of the Go mail library go-mail (\<^verbatim>\<open>src/\<close>) and the properties that make it correct.
\<close>

end
